(* ===== verification/Js_Prelude.thy ===== *)
theory Js_Prelude
  imports Complex_Main "HOL-Library.AList"
begin

section \<open>The JavaScript values, containers and strings the sources use\<close>

text \<open>
  What every component shares: JavaScript values, the truthiness and nullish tests, insertion-ordered
  \<open>Map\<close> objects, plain objects with their own-property order, and the string functions of the
  standard library that the sources call.

  Numbers are exact rationals (\<open>rat\<close>): the rounding of doubles is not modelled, and \<open>NaN\<close>
  appears only as the \<open>None\<close> of a parser. Strings are lists of Latin-1 characters. Properties that
  an object inherits from its prototype are not visible to property reads.
\<close>

named_theorems js_simps \<open>equations that evaluate the JavaScript primitives\<close>

datatype js_error = JsError string

subsection \<open>Values\<close>

datatype jsval =
    JUndef
  | JNull
  | JBool bool
  | JNum rat
  | JStr string
  | JArr "jsval list"
  | JObj "(string \<times> jsval) list"

type_synonym jsobj = "(string \<times> jsval) list"

fun truthy :: "jsval \<Rightarrow> bool" where
  "truthy JUndef = False"
| "truthy JNull = False"
| "truthy (JBool b) = b"
| "truthy (JNum n) = (n \<noteq> 0)"
| "truthy (JStr s) = (s \<noteq> [])"
| "truthy (JArr xs) = True"
| "truthy (JObj ps) = True"

text \<open>The operators \<open>||\<close> and \<open>??\<close>, and the test \<open>v === null || v === undefined\<close>.\<close>

definition js_or :: "jsval \<Rightarrow> jsval \<Rightarrow> jsval" where
  "js_or a b = (if truthy a then a else b)"

fun nullish :: "jsval \<Rightarrow> bool" where
  "nullish JUndef = True"
| "nullish JNull = True"
| "nullish _ = False"

definition js_coalesce :: "jsval \<Rightarrow> jsval \<Rightarrow> jsval" where
  "js_coalesce a b = (if nullish a then b else a)"

fun is_array :: "jsval \<Rightarrow> bool" where
  "is_array (JArr _) = True"
| "is_array _ = False"

fun is_string :: "jsval \<Rightarrow> bool" where
  "is_string (JStr _) = True"
| "is_string _ = False"

text \<open>\<open>typeof v === "object"\<close>: arrays, objects and \<open>null\<close>.\<close>

fun typeof_object :: "jsval \<Rightarrow> bool" where
  "typeof_object JNull = True"
| "typeof_object (JArr _) = True"
| "typeof_object (JObj _) = True"
| "typeof_object _ = False"

fun arr_items :: "jsval \<Rightarrow> jsval list" where
  "arr_items (JArr xs) = xs"
| "arr_items _ = []"

subsection \<open>Decimal digits and numbers as strings\<close>

definition is_digit :: "char \<Rightarrow> bool" where
  "is_digit c \<longleftrightarrow> 48 \<le> (of_char c :: nat) \<and> (of_char c :: nat) \<le> 57"

definition digit_char :: "nat \<Rightarrow> char" where
  "digit_char n = char_of (48 + n)"

definition digit_val :: "char \<Rightarrow> nat" where
  "digit_val c = of_char c - 48"

fun show_nat :: "nat \<Rightarrow> string" where
  "show_nat n = (if n < 10 then [digit_char n] else show_nat (n div 10) @ [digit_char (n mod 10)])"

declare show_nat.simps [simp del]

definition nat_of_digits :: "string \<Rightarrow> nat" where
  "nat_of_digits s = foldl (\<lambda>n c. 10 * n + digit_val c) 0 s"

definition show_int :: "int \<Rightarrow> string" where
  "show_int i = (if i < 0 then CHR ''-'' # show_nat (nat (- i)) else show_nat (nat i))"

text \<open>The digits after the decimal point, at most \<open>fuel\<close> of them: a double has at most 17.\<close>

fun frac_digits :: "nat \<Rightarrow> rat \<Rightarrow> string" where
  "frac_digits 0 r = []"
| "frac_digits (Suc fuel) r =
     (if r = 0 then []
      else digit_char (nat \<lfloor>10 * r\<rfloor>) # frac_digits fuel (10 * r - of_int \<lfloor>10 * r\<rfloor>))"

definition show_num :: "rat \<Rightarrow> string" where
  "show_num q =
     (if q = of_int \<lfloor>q\<rfloor> then show_int \<lfloor>q\<rfloor>
      else (let a = \<bar>q\<bar>; i = \<lfloor>a\<rfloor>
            in (if q < 0 then ''-'' else []) @ show_int i @ ''.'' @ frac_digits 17 (a - of_int i)))"

lemma of_char_digit_char [simp]: "n < 10 \<Longrightarrow> of_char (digit_char n) = 48 + n"
  by (simp add: digit_char_def)

lemma is_digit_digit_char [simp]: "n < 10 \<Longrightarrow> is_digit (digit_char n)"
  by (simp add: is_digit_def)

lemma digit_val_digit_char [simp]: "n < 10 \<Longrightarrow> digit_val (digit_char n) = n"
  by (simp add: digit_val_def)

lemma nat_of_digits_snoc: "nat_of_digits (s @ [c]) = 10 * nat_of_digits s + digit_val c"
  by (simp add: nat_of_digits_def)

lemma nat_of_digits_show_nat [simp]: "nat_of_digits (show_nat n) = n"
proof (induction n rule: show_nat.induct)
  case (1 n)
  show ?case
  proof (cases "n < 10")
    case True
    then show ?thesis by (simp add: show_nat.simps [of n] nat_of_digits_def)
  next
    case False
    with "1" have "nat_of_digits (show_nat (n div 10)) = n div 10" by simp
    with False show ?thesis by (simp add: show_nat.simps [of n] nat_of_digits_snoc)
  qed
qed

lemma show_nat_digits: "\<forall>c \<in> set (show_nat n). is_digit c"
proof (induction n rule: show_nat.induct)
  case (1 n)
  then show ?case by (cases "n < 10") (auto simp: show_nat.simps [of n])
qed

lemma show_nat_nonempty [simp]: "show_nat n \<noteq> []"
  by (simp add: show_nat.simps [of n])

lemma filter_digit_show_nat [simp]: "filter is_digit (show_nat n) = show_nat n"
  using show_nat_digits by (simp add: filter_id_conv)

lemma show_nat_inj [simp]: "show_nat m = show_nat n \<longleftrightarrow> m = n"
  by (metis nat_of_digits_show_nat)

text \<open>\<open>parseInt(id.replace(/\D/g, ""), 10)\<close>: the number spelled by all digits of a string, NaN
  (\<open>None\<close>) when it has none.\<close>

definition id_number :: "string \<Rightarrow> nat option" where
  "id_number s = (let ds = filter is_digit s in if ds = [] then None else Some (nat_of_digits ds))"

subsection \<open>Strings\<close>

definition is_space :: "char \<Rightarrow> bool" where
  "is_space c \<longleftrightarrow> (let n = (of_char c :: nat) in (9 \<le> n \<and> n \<le> 13) \<or> n = 32 \<or> n = 160)"

definition js_trim :: "string \<Rightarrow> string" where
  "js_trim s = rev (dropWhile is_space (rev (dropWhile is_space s)))"

text \<open>\<open>toLowerCase\<close> on Latin-1: A to Z and the accented capitals but the multiplication sign.\<close>

definition lower_char :: "char \<Rightarrow> char" where
  "lower_char c =
     (let n = (of_char c :: nat)
      in if (65 \<le> n \<and> n \<le> 90) \<or> (192 \<le> n \<and> n \<le> 222 \<and> n \<noteq> 215) then char_of (n + 32) else c)"

definition js_lower :: "string \<Rightarrow> string" where
  "js_lower s = map lower_char s"

text \<open>\<open>toUpperCase\<close> on Latin-1; the sharp s becomes two letters, and the two letters whose capital is outside
  of Latin-1 stay as they are.\<close>

definition upper_char :: "char \<Rightarrow> string" where
  "upper_char c =
     (let n = (of_char c :: nat)
      in if n = 223 then ''SS''
         else if (97 \<le> n \<and> n \<le> 122) \<or> (224 \<le> n \<and> n \<le> 254 \<and> n \<noteq> 247) then [char_of (n - 32)] else [c])"

definition js_ends :: "string \<Rightarrow> string \<Rightarrow> bool" where
  "js_ends s p \<longleftrightarrow> length p \<le> length s \<and> drop (length s - length p) s = p"

fun js_starts :: "string \<Rightarrow> string \<Rightarrow> bool" where
  "js_starts s [] = True"
| "js_starts [] (p # ps) = False"
| "js_starts (c # s) (p # ps) = (c = p \<and> js_starts s ps)"

fun js_includes :: "string \<Rightarrow> string \<Rightarrow> bool" where
  "js_includes [] p = (p = [])"
| "js_includes (c # s) p = (js_starts (c # s) p \<or> js_includes s p)"

text \<open>\<open>s.split(c)\<close> for a one-character separator, and \<open>xs.join(sep)\<close>.\<close>

fun js_split :: "char \<Rightarrow> string \<Rightarrow> string list" where
  "js_split d [] = [[]]"
| "js_split d (c # s) =
     (if c = d then [] # js_split d s
      else (case js_split d s of [] \<Rightarrow> [[c]] | w # ws \<Rightarrow> (c # w) # ws))"

fun js_join :: "string \<Rightarrow> string list \<Rightarrow> string" where
  "js_join sep [] = []"
| "js_join sep [x] = x"
| "js_join sep (x # y # xs) = x @ sep @ js_join sep (y # xs)"

text \<open>\<open>parseInt(s, 10)\<close>: white space, a sign, then a non-empty run of digits; the rest is ignored.\<close>

definition js_parseInt :: "string \<Rightarrow> int option" where
  "js_parseInt s =
     (let t = dropWhile is_space s;
          neg = js_starts t ''-'';
          u = (if neg \<or> js_starts t ''+'' then tl t else t);
          ds = takeWhile is_digit u
      in if ds = [] then None
         else Some (if neg then - int (nat_of_digits ds) else int (nat_of_digits ds)))"

fun js_string :: "jsval \<Rightarrow> string" where
  "js_string JUndef = ''undefined''"
| "js_string JNull = ''null''"
| "js_string (JBool b) = (if b then ''true'' else ''false'')"
| "js_string (JNum n) = show_num n"
| "js_string (JStr s) = s"
| "js_string (JArr xs) = js_join '','' (map (\<lambda>v. if nullish v then [] else js_string v) xs)"
| "js_string (JObj _) = ''[object Object]''"

text \<open>\<open>JSON.parse(JSON.stringify(v))\<close> for a value that is not undefined: fields that are undefined are left out,
  undefined array elements become null.\<close>

function json_copy :: "jsval \<Rightarrow> jsval" where
  "json_copy (JArr xs) = JArr (map (\<lambda>v. if v = JUndef then JNull else json_copy v) xs)"
| "json_copy (JObj ps) = JObj (map (\<lambda>p. (fst p, json_copy (snd p))) (filter (\<lambda>p. snd p \<noteq> JUndef) ps))"
| "json_copy JUndef = JUndef"
| "json_copy JNull = JNull"
| "json_copy (JBool b) = JBool b"
| "json_copy (JNum n) = JNum n"
| "json_copy (JStr s) = JStr s"
  by pat_completeness auto
termination
proof (relation "measure size")
  fix ps :: jsobj and p
  assume "p \<in> set (filter (\<lambda>p. snd p \<noteq> JUndef) ps)"
  then have "p \<in> set ps" by simp
  then have "size (snd p) < size_list (size_prod (\<lambda>_. 0) size) ps"
    by (induction ps) (auto simp: less_Suc_eq_le trans_le_add2 trans_le_add1 split: prod.splits)
  then show "(snd p, JObj ps) \<in> measure size" by simp
qed (auto simp: less_Suc_eq_le size_list_estimation')

lemma js_starts_append [simp]: "js_starts (p @ s) p"
  by (induction p) auto

lemma js_starts_iff: "js_starts s p \<longleftrightarrow> (\<exists>r. s = p @ r)"
  by (induction s p rule: js_starts.induct) auto

lemma js_split_nonempty [simp]: "js_split d s \<noteq> []"
  by (induction s) (auto split: list.splits)

lemma js_split_no_sep: "d \<notin> set s \<Longrightarrow> js_split d s = [s]"
  by (induction s) auto

lemma js_split_append_sep:
  "d \<notin> set w \<Longrightarrow> js_split d (w @ d # s) = w # js_split d s"
  by (induction w) auto

text \<open>Splitting undoes joining when no part contains the separator.\<close>

lemma js_split_join:
  "ws \<noteq> [] \<Longrightarrow> \<forall>w \<in> set ws. d \<notin> set w \<Longrightarrow> js_split d (js_join [d] ws) = ws"
  by (induction "[d]" ws rule: js_join.induct) (auto simp: js_split_no_sep js_split_append_sep)

subsection \<open>Lists with one element taken out\<close>

lemma set_remove_nth: "set (take i xs @ drop (Suc i) xs) \<subseteq> set xs"
  by (auto dest: in_set_takeD in_set_dropD)

lemma distinct_remove_nth: "distinct xs \<Longrightarrow> distinct (take i xs @ drop (Suc i) xs)"
proof (induction xs arbitrary: i)
  case (Cons x xs)
  show ?case
  proof (cases i)
    case (Suc j)
    with Cons set_remove_nth [of j xs] show ?thesis by auto
  qed (use Cons.prems in simp)
qed simp

text \<open>\<open>Array.from(new Set(xs))\<close> keeps the first occurrence of each element.\<close>

definition unique :: "'a list \<Rightarrow> 'a list" where
  "unique xs = rev (remdups (rev xs))"

lemma set_unique [simp]: "set (unique xs) = set xs" and distinct_unique [simp]: "distinct (unique xs)"
  by (simp_all add: unique_def)

subsection \<open>Insertion-ordered maps and plain objects\<close>

text \<open>A JavaScript \<open>Map\<close>: entries in insertion order; setting a present key keeps its place.\<close>

type_synonym ('k, 'v) js_map = "('k \<times> 'v) list"

abbreviation map_keys :: "('k \<times> 'v) list \<Rightarrow> 'k list" where
  "map_keys m \<equiv> map fst m"

lemma map_of_rev_distinct: "distinct (map_keys xs) \<Longrightarrow> map_of (rev xs) = map_of xs"
  by (metis distinct_rev map_of_inject_set rev_map set_rev)

definition map_set :: "'k \<Rightarrow> 'v \<Rightarrow> ('k, 'v) js_map \<Rightarrow> ('k, 'v) js_map" where
  "map_set k v m = AList.update k v m"

definition map_del :: "'k \<Rightarrow> ('k, 'v) js_map \<Rightarrow> ('k, 'v) js_map" where
  "map_del k m = AList.delete k m"

text \<open>
  A plain object: its own keys in the order the language prescribes, the array-index keys first in
  ascending order, then the others in the order of their creation.
\<close>

definition is_index_key :: "string \<Rightarrow> bool" where
  "is_index_key k \<longleftrightarrow> k = show_nat (nat_of_digits k) \<and> nat_of_digits k < 2 ^ 32 - 1"

fun insert_index :: "string \<Rightarrow> 'v \<Rightarrow> (string \<times> 'v) list \<Rightarrow> (string \<times> 'v) list" where
  "insert_index k v [] = [(k, v)]"
| "insert_index k v ((k', v') # ps) =
     (if is_index_key k' \<and> nat_of_digits k' < nat_of_digits k
      then (k', v') # insert_index k v ps else (k, v) # (k', v') # ps)"

definition obj_set :: "string \<Rightarrow> 'v \<Rightarrow> (string \<times> 'v) list \<Rightarrow> (string \<times> 'v) list" where
  "obj_set k v ps =
     (if k \<in> set (map_keys ps) then AList.update k v ps
      else if is_index_key k then insert_index k v ps
      else ps @ [(k, v)])"

definition obj_del :: "string \<Rightarrow> (string \<times> 'v) list \<Rightarrow> (string \<times> 'v) list" where
  "obj_del k ps = AList.delete k ps"

text \<open>\<open>Object.assign(o, p)\<close>; the spread \<open>{...o, ...p}\<close> is the same on a fresh copy of \<open>o\<close>.\<close>

definition obj_assign :: "(string \<times> 'v) list \<Rightarrow> (string \<times> 'v) list \<Rightarrow> (string \<times> 'v) list" where
  "obj_assign ps qs = foldl (\<lambda>acc (k, v). obj_set k v acc) ps qs"

text \<open>The read \<open>v[k]\<close>, for values where it does not throw.\<close>

fun js_prop :: "jsval \<Rightarrow> string \<Rightarrow> jsval" where
  "js_prop (JObj ps) k = (case map_of ps k of Some v \<Rightarrow> v | None \<Rightarrow> JUndef)"
| "js_prop (JArr xs) k =
     (if k = ''length'' then JNum (of_nat (length xs))
      else if is_index_key k \<and> nat_of_digits k < length xs then xs ! nat_of_digits k
      else JUndef)"
| "js_prop (JStr s) k =
     (if k = ''length'' then JNum (of_nat (length s))
      else if is_index_key k \<and> nat_of_digits k < length s then JStr [s ! nat_of_digits k]
      else JUndef)"
| "js_prop _ k = JUndef"

text \<open>The members of a value spread into an object: \<open>null\<close>, \<open>undefined\<close>, numbers and booleans
  have none.\<close>

fun own_props :: "jsval \<Rightarrow> jsobj" where
  "own_props (JObj ps) = ps"
| "own_props (JArr xs) = zip (map show_nat [0..<length xs]) xs"
| "own_props (JStr s) = zip (map show_nat [0..<length s]) (map (\<lambda>c. JStr [c]) s)"
| "own_props _ = []"

text \<open>
  The contract of a dictionary, which both containers provide: what a lookup returns after a write
  or a deletion, that the keys are the domain of the lookup, and that keys stay distinct.
\<close>

locale js_dict =
  fixes get :: "'m \<Rightarrow> 'k \<Rightarrow> 'v option"
    and put :: "'k \<Rightarrow> 'v \<Rightarrow> 'm \<Rightarrow> 'm"
    and remove :: "'k \<Rightarrow> 'm \<Rightarrow> 'm"
    and keys :: "'m \<Rightarrow> 'k list"
  assumes get_put: "get (put k v m) = (get m)(k \<mapsto> v)"
    and get_remove: "get (remove k m) = (get m)(k := None)"
    and keys_dom: "set (keys m) = dom (get m)"
    and distinct_put: "distinct (keys m) \<Longrightarrow> distinct (keys (put k v m))"
    and distinct_remove: "distinct (keys m) \<Longrightarrow> distinct (keys (remove k m))"
begin

lemma get_put_same: "get (put k v m) k = Some v"
  by (simp add: get_put)

lemma get_put_other: "k' \<noteq> k \<Longrightarrow> get (put k v m) k' = get m k'"
  by (simp add: get_put)

lemma get_remove_same: "get (remove k m) k = None"
  by (simp add: get_remove)

lemma get_remove_other: "k' \<noteq> k \<Longrightarrow> get (remove k m) k' = get m k'"
  by (simp add: get_remove)

lemma set_keys_put: "set (keys (put k v m)) = insert k (set (keys m))"
  by (simp add: keys_dom get_put)

lemma set_keys_remove: "set (keys (remove k m)) = set (keys m) - {k}"
  by (simp add: keys_dom get_remove)

text \<open>Writing a list of entries in turn: the last entry of a key wins over the old value.\<close>

lemma get_put_all: "get (foldl (\<lambda>acc (k, v). put k v acc) m qs) = get m ++ map_of (rev qs)"
proof (induction qs arbitrary: m)
  case Nil
  then show ?case by simp
next
  case (Cons q qs)
  then show ?case by (cases q) (simp add: get_put fun_eq_iff map_add_def split: option.splits)
qed

lemma distinct_put_all:
  "distinct (keys m) \<Longrightarrow> distinct (keys (foldl (\<lambda>acc (k, v). put k v acc) m qs))"
  by (induction qs arbitrary: m) (auto simp: distinct_put)

end

lemma map_of_insert_index:
  "k \<notin> set (map_keys ps) \<Longrightarrow> map_of (insert_index k v ps) = (map_of ps)(k \<mapsto> v)"
  by (induction ps) (auto simp: fun_eq_iff)

lemma set_keys_insert_index: "set (map_keys (insert_index k v ps)) = insert k (set (map_keys ps))"
proof (induction ps)
  case (Cons p ps)
  then show ?case by (cases p) (simp add: insert_commute)
qed simp

lemma distinct_keys_insert_index:
  "distinct (map_keys ps) \<Longrightarrow> k \<notin> set (map_keys ps) \<Longrightarrow> distinct (map_keys (insert_index k v ps))"
proof (induction ps)
  case (Cons p ps)
  have "set (map_keys (insert_index k v ps)) = insert k (set (map_keys ps))"
    by (rule set_keys_insert_index)
  with Cons show ?case by (cases p) auto
qed simp

lemma map_of_append_fresh:
  "k \<notin> set (map_keys ps) \<Longrightarrow> map_of (ps @ [(k, v)]) = (map_of ps)(k \<mapsto> v)"
  by (induction ps) (auto simp: fun_eq_iff)

interpretation jsm: js_dict "map_of :: ('k, 'v) js_map \<Rightarrow> 'k \<Rightarrow> 'v option" map_set map_del map_keys
proof unfold_locales
  fix m :: "('k, 'v) js_map" and k :: 'k and v :: 'v
  show "map_of (map_set k v m) = (map_of m)(k \<mapsto> v)"
    by (simp add: map_set_def update_conv')
  show "map_of (map_del k m) = (map_of m)(k := None)"
    by (simp add: map_del_def delete_conv')
  show "set (map_keys m) = dom (map_of m)" by (simp add: dom_map_of_conv_image_fst)
  show "distinct (map_keys m) \<Longrightarrow> distinct (map_keys (map_set k v m))"
    unfolding map_set_def by (rule distinct_update)
  show "distinct (map_keys m) \<Longrightarrow> distinct (map_keys (map_del k m))"
    unfolding map_del_def by (rule distinct_delete)
qed

interpretation jso: js_dict "map_of :: (string \<times> 'v) list \<Rightarrow> string \<Rightarrow> 'v option" obj_set obj_del map_keys
proof unfold_locales
  fix m :: "(string \<times> 'v) list" and k :: string and v :: 'v
  show "map_of (obj_set k v m) = (map_of m)(k \<mapsto> v)"
    using map_of_append_fresh [of k m v]
    by (auto simp: obj_set_def update_conv' map_of_insert_index simp del: map_of_append)
  show "map_of (obj_del k m) = (map_of m)(k := None)"
    by (simp add: obj_del_def delete_conv')
  show "set (map_keys m) = dom (map_of m)" by (simp add: dom_map_of_conv_image_fst)
  show "distinct (map_keys m) \<Longrightarrow> distinct (map_keys (obj_set k v m))"
    by (auto simp: obj_set_def distinct_update distinct_keys_insert_index)
  show "distinct (map_keys m) \<Longrightarrow> distinct (map_keys (obj_del k m))"
    unfolding obj_del_def by (rule distinct_delete)
qed

lemma list_all_map_set: "list_all P m \<Longrightarrow> P (k, v) \<Longrightarrow> list_all P (map_set k v m)"
  unfolding map_set_def by (induction m) auto

lemma set_map_del: "set (map_del k m) = {p \<in> set m. fst p \<noteq> k}"
  unfolding map_del_def by (induction m) auto

lemma map_set_fresh: "k \<notin> set (map_keys m) \<Longrightarrow> map_set k v m = m @ [(k, v)]"
  unfolding map_set_def by (induction m) auto

lemma map_del_fresh: "k \<notin> set (map_keys m) \<Longrightarrow> map_del k m = m"
  unfolding map_del_def by (induction m) auto

lemma map_set_keys: "k \<in> set (map_keys m) \<Longrightarrow> map_keys (map_set k v m) = map_keys m"
  by (simp add: map_set_def update_keys)

lemmas [simp] = jso.get_put_same jso.get_remove_same jsm.get_put_same jsm.get_remove_same

subsection \<open>Systems of operations that keep an invariant\<close>

text \<open>
  A component with a state, its operations and the condition under which a caller may use each. The
  law is that every permitted operation keeps the invariant; what follows is that every permitted
  sequence of operations does.
\<close>

fun run_ops :: "('op \<Rightarrow> 's \<Rightarrow> 's) \<Rightarrow> 'op list \<Rightarrow> 's \<Rightarrow> 's" where
  "run_ops step [] s = s"
| "run_ops step (op # ops) s = run_ops step ops (step op s)"

fun permitted :: "('op \<Rightarrow> 's \<Rightarrow> 's) \<Rightarrow> ('op \<Rightarrow> 's \<Rightarrow> bool) \<Rightarrow> 'op list \<Rightarrow> 's \<Rightarrow> bool" where
  "permitted step ok [] s = True"
| "permitted step ok (op # ops) s = (ok op s \<and> permitted step ok ops (step op s))"

lemma permitted_always [simp]: "permitted step (\<lambda>_ _. True) ops s"
  by (induction ops arbitrary: s) auto

locale op_system =
  fixes step :: "'op \<Rightarrow> 's \<Rightarrow> 's"
    and ok :: "'op \<Rightarrow> 's \<Rightarrow> bool"
    and invar :: "'s \<Rightarrow> bool"
  assumes step_invar: "invar s \<Longrightarrow> ok op s \<Longrightarrow> invar (step op s)"
begin

lemma run_invar: "invar s \<Longrightarrow> permitted step ok ops s \<Longrightarrow> invar (run_ops step ops s)"
  by (induction ops arbitrary: s) (auto simp: step_invar)

lemma run_prefix_invar:
  "invar s \<Longrightarrow> permitted step ok (ops @ ops') s \<Longrightarrow> invar (run_ops step ops s)"
  by (induction ops arbitrary: s) (auto simp: step_invar)

end

end
