(* ===== verification/Sockets.thy ===== *)
theory Sockets
  imports Js_Prelude
begin

section \<open>Sockets and connections (core/socket.js, core/connection.js)\<close>

text \<open>
  Typed connection points with their compatibility test, and the directed links between nodes with
  the identifier that is computed from their end points. A null socket is \<open>None\<close>.
\<close>

subsection \<open>Sockets\<close>

record socket =
  sock_name :: string
  compatibleWith :: "string list"

definition new_Socket :: "string \<Rightarrow> string list \<Rightarrow> socket" where
  "new_Socket name others = \<lparr>sock_name = name, compatibleWith = others\<rparr>"

definition isCompatible :: "socket \<Rightarrow> socket option \<Rightarrow> bool" where
  "isCompatible s other =
     (case other of
        None \<Rightarrow> False
      | Some t \<Rightarrow> if sock_name s = sock_name t then True
                  else List.member (compatibleWith s) (sock_name t))"

definition DataSocket :: socket where
  "DataSocket = new_Socket ''data'' []"

definition ErrorSocket :: socket where
  "ErrorSocket = new_Socket ''error'' [''data'']"

definition TriggerSocket :: socket where
  "TriggerSocket = new_Socket ''trigger'' []"

definition SocketRegistry :: "(string \<times> socket) list" where
  "SocketRegistry = [(''data'', DataSocket), (''error'', ErrorSocket), (''trigger'', TriggerSocket)]"

lemma isCompatible_refl [simp]: "isCompatible s (Some s)"
  by (simp add: isCompatible_def)

lemma isCompatible_None [simp]: "\<not> isCompatible s None"
  by (simp add: isCompatible_def)

subsection \<open>Connections\<close>

record connection =
  conn_id :: string
  source :: string
  sourceHandle :: string
  target :: string
  targetHandle :: string
  conn_meta :: jsobj

text \<open>The object \<open>toJSON\<close> writes and \<open>fromJSON\<close> reads; \<open>id\<close> and \<open>meta\<close> may be absent.\<close>

record conn_json =
  cj_id :: "string option"
  cj_source :: string
  cj_sourceHandle :: string
  cj_target :: string
  cj_targetHandle :: string
  cj_meta :: "jsobj option"

definition generateId :: "string \<Rightarrow> string \<Rightarrow> string \<Rightarrow> string \<Rightarrow> string" where
  "generateId sourceId sourceH targetId targetH =
     sourceId @ '':'' @ sourceH @ ''=>'' @ targetId @ '':'' @ targetH"

definition new_Connection :: "string \<Rightarrow> string \<Rightarrow> string \<Rightarrow> string \<Rightarrow> connection" where
  "new_Connection sourceId sourceH targetId targetH =
     \<lparr>conn_id = generateId sourceId sourceH targetId targetH,
      source = sourceId, sourceHandle = sourceH, target = targetId, targetHandle = targetH,
      conn_meta = [(''label'', JStr []), (''animated'', JBool False)]\<rparr>"

definition involvesNode :: "connection \<Rightarrow> string \<Rightarrow> bool" where
  "involvesNode c nodeId \<longleftrightarrow> source c = nodeId \<or> target c = nodeId"

definition connection_toJSON :: "connection \<Rightarrow> conn_json" where
  "connection_toJSON c =
     \<lparr>cj_id = Some (conn_id c), cj_source = source c, cj_sourceHandle = sourceHandle c,
      cj_target = target c, cj_targetHandle = targetHandle c, cj_meta = Some (conn_meta c)\<rparr>"

definition connection_fromJSON :: "conn_json \<Rightarrow> connection" where
  "connection_fromJSON d =
     (let c0 = new_Connection (cj_source d) (cj_sourceHandle d) (cj_target d) (cj_targetHandle d);
          c1 = (case cj_id d of Some i \<Rightarrow> if i \<noteq> [] then c0\<lparr>conn_id := i\<rparr> else c0 | None \<Rightarrow> c0)
      in case cj_meta d of
           None \<Rightarrow> c1
         | Some m \<Rightarrow> c1\<lparr>conn_meta := obj_assign (conn_meta c1) m\<rparr>)"

text \<open>
  Identifiers are unambiguous when node ids hold no colon and no handle holds the arrow's first
  character: the separators can then be found again in the text.
\<close>

lemma append_sep_inj:
  "d \<notin> set a \<Longrightarrow> d \<notin> set b \<Longrightarrow> a @ d # x = b @ d # y \<Longrightarrow> a = b \<and> x = y"
proof (induction a arbitrary: b)
  case Nil
  then show ?case by (cases b) auto
next
  case (Cons c a)
  then show ?case by (cases b) auto
qed

lemma generateId_inject:
  assumes eq: "generateId a h b k = generateId a' h' b' k'"
    and ids: "CHR '':'' \<notin> set a" "CHR '':'' \<notin> set a'" "CHR '':'' \<notin> set b" "CHR '':'' \<notin> set b'"
    and hs: "CHR ''='' \<notin> set h" "CHR ''='' \<notin> set h'"
  shows "a = a' \<and> h = h' \<and> b = b' \<and> k = k'"
proof -
  from eq have "a @ CHR '':'' # (h @ ''=>'' @ b @ '':'' @ k) = a' @ CHR '':'' # (h' @ ''=>'' @ b' @ '':'' @ k')"
    by (simp add: generateId_def)
  from append_sep_inj [OF ids(1,2) this] have a: "a = a'"
    and "h @ CHR ''='' # (CHR ''>'' # b @ '':'' @ k) = h' @ CHR ''='' # (CHR ''>'' # b' @ '':'' @ k')"
    by simp_all
  from append_sep_inj [OF hs this(2)] have h: "h = h'"
    and "b @ CHR '':'' # k = b' @ CHR '':'' # k'"
    by simp_all
  from append_sep_inj [OF ids(3,4) this(2)] a h show ?thesis by simp
qed

text \<open>Reading back what was written gives the connection again, for the meta objects the class
  makes: label and animated first, no array-index key.\<close>

lemma obj_set_fresh: "k \<notin> set (map_keys ps) \<Longrightarrow> \<not> is_index_key k \<Longrightarrow> obj_set k v ps = ps @ [(k, v)]"
  by (auto simp: obj_set_def)

lemma obj_assign_Cons [simp]: "obj_assign ps ((k, v) # qs) = obj_assign (obj_set k v ps) qs"
  by (simp add: obj_assign_def)

lemma obj_assign_Nil [simp]: "obj_assign ps [] = ps"
  by (simp add: obj_assign_def)

lemma obj_assign_append: "obj_assign ps (qs @ rs) = obj_assign (obj_assign ps qs) rs"
  by (simp add: obj_assign_def)

lemma obj_assign_fresh:
  "distinct (map_keys (ps @ qs)) \<Longrightarrow> \<forall>k \<in> set (map_keys qs). \<not> is_index_key k \<Longrightarrow> obj_assign ps qs = ps @ qs"
proof (induction qs arbitrary: ps)
  case (Cons q qs)
  obtain k v where q: "q = (k, v)" by (cases q)
  with Cons.prems have "obj_set k v ps = ps @ [(k, v)]" by (intro obj_set_fresh) auto
  moreover have "obj_assign (ps @ [(k, v)]) qs = (ps @ [(k, v)]) @ qs"
    using Cons.prems q by (intro Cons.IH) auto
  ultimately show ?case using q by simp
qed simp

lemma obj_set_update_append:
  "k \<notin> set (map_keys ps) \<Longrightarrow> obj_set k v (ps @ (k, w) # qs) = ps @ (k, v) # qs"
proof -
  have "k \<notin> set (map_keys ps) \<Longrightarrow> AList.update k v (ps @ (k, w) # qs) = ps @ (k, v) # qs"
    by (induction ps) auto
  then show "k \<notin> set (map_keys ps) \<Longrightarrow> obj_set k v (ps @ (k, w) # qs) = ps @ (k, v) # qs"
    by (simp add: obj_set_def)
qed

text \<open>Assigning an object over one whose keys are the first of its own gives the object.\<close>

lemma obj_assign_over:
  "distinct (map_keys (pre @ qs)) \<Longrightarrow> \<forall>k \<in> set (map_keys qs). \<not> is_index_key k \<Longrightarrow>
   map_keys base = take (length base) (map_keys qs) \<Longrightarrow>
   obj_assign (pre @ base) qs = pre @ qs"
proof (induction base arbitrary: pre qs)
  case Nil
  then show ?case using obj_assign_fresh [of pre qs] by simp
next
  case (Cons b base)
  obtain k w where b: "b = (k, w)" by (cases b)
  with Cons.prems(3) obtain v qs' where qs: "qs = (k, v) # qs'"
    and tk: "map_keys base = take (length base) (map_keys qs')"
    by (cases qs) auto
  from Cons.prems(1) qs have "k \<notin> set (map_keys pre)" by auto
  then have "obj_set k v (pre @ b # base) = (pre @ [(k, v)]) @ base"
    by (simp add: b obj_set_update_append)
  moreover have "obj_assign ((pre @ [(k, v)]) @ base) qs' = (pre @ [(k, v)]) @ qs'"
    using Cons.prems qs tk by (intro Cons.IH) auto
  ultimately show ?case by (simp add: qs)
qed

lemma obj_assign_prefix:
  assumes "distinct (map_keys qs)" and "\<forall>k \<in> set (map_keys qs). \<not> is_index_key k"
    and "map_keys base = take (length base) (map_keys qs)"
  shows "obj_assign base qs = qs"
  using obj_assign_over [of "[]" qs base] assms by simp

definition plain_meta :: "string list \<Rightarrow> jsobj \<Rightarrow> bool" where
  "plain_meta ks m \<longleftrightarrow> distinct (map_keys m) \<and> list_all (\<lambda>k. \<not> is_index_key k) (map_keys m)
     \<and> take (length ks) (map_keys m) = ks"

lemma plain_meta_assign:
  "plain_meta (map_keys base) m \<Longrightarrow> obj_assign base m = m"
  by (intro obj_assign_prefix) (auto simp: plain_meta_def list_all_iff)

lemma connection_roundtrip:
  assumes "conn_id c \<noteq> []" and "plain_meta [''label'', ''animated''] (conn_meta c)"
  shows "connection_fromJSON (connection_toJSON c) = c"
  using assms plain_meta_assign [of "[(''label'', JStr []), (''animated'', JBool False)]" "conn_meta c"]
  by (simp add: connection_fromJSON_def connection_toJSON_def new_Connection_def Let_def)

subsection \<open>Properties\<close>

text \<open>The id of a connection determines its two ends: for node ids without a colon and handles without an equals
  sign, two connections with the same id join the same sockets. So the duplicate check by id refuses
  exactly a second connection between the same sockets.\<close>

theorem connection_id_injective:
  assumes "generateId a h b k = generateId a' h' b' k'"
    and "CHR '':'' \<notin> set a" "CHR '':'' \<notin> set a'" "CHR '':'' \<notin> set b" "CHR '':'' \<notin> set b'"
    and "CHR ''='' \<notin> set h" "CHR ''='' \<notin> set h'"
  shows "a = a' \<and> h = h' \<and> b = b' \<and> k = k'"
  using assms by (rule generateId_inject)

theorem connection_id_injective_witness:
  "generateId ''n_1'' ''output'' ''n_2'' ''data'' = ''n_1:output=>n_2:data''
   \<and> (''n_1'' :: string) = ''n_1'' \<and> (''data'' :: string) = ''data''"
  using connection_id_injective [of "''n_1''" "''output''" "''n_2''" "''data''" "''n_1''" "''output''" "''n_2''" "''data''"]
  by (simp add: generateId_def)

end
