(* ===== verification/Control.thy ===== *)
theory Control
  imports Sockets
begin

section \<open>Controls (core/control.js)\<close>

text \<open>
  The configuration elements of a node. A control is a record of the fields every control has; the
  fields a subclass adds are in \<open>props\<close>, the object of its own properties. The constructor's options
  are the object the caller passes. Option lists of a select hold objects, as its documentation
  says, and the ids of key-value pairs are numbers or absent.
\<close>

record control =
  ckey :: string
  ctype :: string
  clabel :: jsval
  cvalue :: jsval
  suggestions :: jsval
  valueSuggestions :: jsval
  expressionSuggestions :: jsval
  suggestionsByKey :: jsval
  props :: jsobj

abbreviation opt :: "jsobj \<Rightarrow> string \<Rightarrow> jsval" where
  "opt options k \<equiv> js_prop (JObj options) k"

definition array_or_empty :: "jsval \<Rightarrow> jsval" where
  "array_or_empty v = (if is_array v then v else JArr [])"

definition new_Control :: "string \<Rightarrow> jsobj \<Rightarrow> control" where
  "new_Control key options =
     \<lparr>ckey = key, ctype = ''base'',
      clabel = js_or (opt options ''label'') (JStr key),
      cvalue = (if opt options ''default'' \<noteq> JUndef then opt options ''default'' else JNull),
      suggestions = array_or_empty (opt options ''suggestions''),
      valueSuggestions = array_or_empty (opt options ''valueSuggestions''),
      expressionSuggestions = array_or_empty (opt options ''expressionSuggestions''),
      suggestionsByKey =
        (let v = opt options ''suggestionsByKey'' in if truthy v \<and> typeof_object v then v else JNull),
      props = []\<rparr>"

definition setValue :: "jsval \<Rightarrow> control \<Rightarrow> control" where
  "setValue v c = c\<lparr>cvalue := v\<rparr>"

definition getValue :: "control \<Rightarrow> jsval" where
  "getValue c = cvalue c"

definition control_toJSON :: "control \<Rightarrow> jsobj" where
  "control_toJSON c = [(''key'', JStr (ckey c)), (''type'', JStr (ctype c)), (''value'', cvalue c)]"

definition control_fromJSON :: "jsobj \<Rightarrow> control \<Rightarrow> control" where
  "control_fromJSON data c =
     (if opt data ''value'' \<noteq> JUndef then c\<lparr>cvalue := opt data ''value''\<rparr> else c)"

subsection \<open>Text, select, number, checkbox, code, auth and body controls\<close>

definition new_TextInputControl :: "string \<Rightarrow> jsobj \<Rightarrow> control" where
  "new_TextInputControl key options =
     (new_Control key options)\<lparr>ctype := ''text'',
       props := [(''placeholder'', js_or (opt options ''placeholder'') (JStr [])),
                 (''multiline'', js_or (opt options ''multiline'') (JBool False))]\<rparr>"

definition new_SelectControl :: "string \<Rightarrow> jsobj \<Rightarrow> control" where
  "new_SelectControl key options =
     (let c = (new_Control key options)\<lparr>ctype := ''select'',
                props := [(''options'', js_or (opt options ''options'') (JArr []))]\<rparr>;
          opts = opt (props c) ''options''
      in if cvalue c = JNull \<and> (case js_prop opts ''length'' of JNum n \<Rightarrow> n > 0 | _ \<Rightarrow> False)
         then c\<lparr>cvalue := js_prop (js_prop opts ''0'') ''value''\<rparr> else c)"

definition new_NumberControl :: "string \<Rightarrow> jsobj \<Rightarrow> control" where
  "new_NumberControl key options =
     (let c = (new_Control key options)\<lparr>ctype := ''number'',
                props := [(''min'', opt options ''min''), (''max'', opt options ''max''),
                          (''step'', js_or (opt options ''step'') (JNum 1))]\<rparr>
      in if cvalue c = JNull then c\<lparr>cvalue := js_or (opt options ''default'') (JNum 0)\<rparr> else c)"

definition new_CheckboxControl :: "string \<Rightarrow> jsobj \<Rightarrow> control" where
  "new_CheckboxControl key options =
     (let c = (new_Control key options)\<lparr>ctype := ''checkbox''\<rparr>
      in if cvalue c = JNull then c\<lparr>cvalue := js_or (opt options ''default'') (JBool False)\<rparr> else c)"

definition new_CodeControl :: "string \<Rightarrow> jsobj \<Rightarrow> control" where
  "new_CodeControl key options =
     (let c = (new_Control key options)\<lparr>ctype := ''code'',
                props := [(''language'', js_or (opt options ''language'') (JStr ''python'')),
                          (''height'', js_or (opt options ''height'') (JNum 200)),
                          (''placeholder'', js_or (opt options ''placeholder'') (JStr ''result = _json''))]\<rparr>
      in if cvalue c = JNull then c\<lparr>cvalue := js_or (opt options ''default'') (JStr [])\<rparr> else c)"

definition new_AuthControl :: "string \<Rightarrow> jsobj \<Rightarrow> control" where
  "new_AuthControl key options =
     (let c = (new_Control key options)\<lparr>ctype := ''auth''\<rparr>
      in if cvalue c = JNull then c\<lparr>cvalue := JObj [(''type'', JStr ''none'')]\<rparr> else c)"

definition new_BodyTypeControl :: "string \<Rightarrow> jsobj \<Rightarrow> control" where
  "new_BodyTypeControl key options =
     (let c = (new_Control key options)\<lparr>ctype := ''body_type''\<rparr>
      in if cvalue c = JNull
         then c\<lparr>cvalue := JObj [(''content_type'', JStr ''none''), (''body'', JStr []),
                                (''form_data'', JArr [])]\<rparr>
         else c)"

subsection \<open>Key-value and query-parameter controls\<close>

fun num_of :: "jsval \<Rightarrow> rat" where
  "num_of (JNum n) = n"
| "num_of _ = 0"

text \<open>\<open>value.reduce((max, p) => Math.max(max, p.id || 0), 0)\<close>\<close>

definition max_pair_id :: "jsval list \<Rightarrow> rat" where
  "max_pair_id ps = foldl (\<lambda>m p. max m (num_of (js_or (js_prop p ''id'') (JNum 0)))) 0 ps"

text \<open>\<open>value.map(p => ({ id: p.id || this._nextId++, ... }))\<close>: the counter moves only for a pair
  without an id. The last argument lists the fields after \<open>id\<close>.\<close>

fun number_pairs :: "(jsval \<Rightarrow> jsobj) \<Rightarrow> rat \<Rightarrow> jsval list \<Rightarrow> rat \<times> jsval list" where
  "number_pairs f next [] = (next, [])"
| "number_pairs f next (p # ps) =
     (let has = truthy (js_prop p ''id'');
          i = (if has then js_prop p ''id'' else JNum next);
          (next', qs) = number_pairs f (if has then next else next + 1) ps
      in (next', JObj ((''id'', i) # f p) # qs))"

definition kv_fields :: "jsval \<Rightarrow> jsobj" where
  "kv_fields p = [(''key'', js_or (js_prop p ''key'') (JStr [])),
                  (''value'', js_or (js_prop p ''value'') (JStr []))]"

definition new_KeyValueControl :: "string \<Rightarrow> jsobj \<Rightarrow> control" where
  "new_KeyValueControl key options =
     (let c = (new_Control key options)\<lparr>ctype := ''keyvalue''\<rparr>;
          ps = [(''keyPlaceholder'', js_or (opt options ''keyPlaceholder'') (JStr ''Key'')),
                (''valuePlaceholder'', js_or (opt options ''valuePlaceholder'') (JStr ''Value''))]
      in case cvalue c of
           JArr xs \<Rightarrow>
             (let (next, ys) = number_pairs kv_fields (max_pair_id xs + 1) xs
              in c\<lparr>props := ps @ [(''_nextId'', JNum next)], cvalue := JArr ys\<rparr>)
         | _ \<Rightarrow>
             c\<lparr>props := ps @ [(''_nextId'', JNum 2)],
               cvalue := JArr [JObj [(''id'', JNum 1), (''key'', JStr []), (''value'', JStr [])]]\<rparr>)"

definition nextId :: "control \<Rightarrow> rat" where
  "nextId c = num_of (opt (props c) ''_nextId'')"

definition addPair :: "control \<Rightarrow> control" where
  "addPair c =
     c\<lparr>cvalue := JArr (arr_items (cvalue c)
                 @ [JObj [(''id'', JNum (nextId c)), (''key'', JStr []), (''value'', JStr [])]]),
       props := obj_set ''_nextId'' (JNum (nextId c + 1)) (props c)\<rparr>"

definition removePair :: "nat \<Rightarrow> control \<Rightarrow> control" where
  "removePair index c =
     (let xs = arr_items (cvalue c)
      in if length xs > 1 then c\<lparr>cvalue := JArr (take index xs @ drop (Suc index) xs)\<rparr> else c)"

definition setPair :: "nat \<Rightarrow> jsval \<Rightarrow> jsval \<Rightarrow> control \<Rightarrow> control" where
  "setPair index key value c =
     (let xs = arr_items (cvalue c)
      in if index < length xs \<and> truthy (xs ! index)
         then c\<lparr>cvalue := JArr (xs[index := JObj (obj_assign (own_props (xs ! index))
                                               [(''key'', key), (''value'', value)])])\<rparr>
         else c)"

definition getPairs :: "control \<Rightarrow> jsval list" where
  "getPairs c = filter (\<lambda>p. truthy (js_prop p ''key'')) (arr_items (cvalue c))"

definition qp_fields :: "jsval \<Rightarrow> jsobj" where
  "qp_fields p = kv_fields p @ [(''enabled'', JBool (js_prop p ''enabled'' \<noteq> JBool False))]"

definition new_QueryParamsControl :: "string \<Rightarrow> jsobj \<Rightarrow> control" where
  "new_QueryParamsControl key options =
     (let c = (new_Control key options)\<lparr>ctype := ''query_params''\<rparr>
      in case cvalue c of
           JArr xs \<Rightarrow>
             (let (next, ys) = number_pairs qp_fields (max_pair_id xs + 1) xs
              in c\<lparr>props := [(''_nextId'', JNum next)], cvalue := JArr ys\<rparr>)
         | _ \<Rightarrow>
             c\<lparr>props := [(''_nextId'', JNum 2)],
               cvalue := JArr [JObj [(''id'', JNum 1), (''key'', JStr []), (''value'', JStr []),
                                     (''enabled'', JBool True)]]\<rparr>)"

subsection \<open>The pairs of a control keep distinct ids\<close>

definition pair_ids :: "control \<Rightarrow> jsval list" where
  "pair_ids c = map (\<lambda>p. js_prop p ''id'') (arr_items (cvalue c))"

text \<open>Every id is a positive number below the counter, no two pairs share one, and there is always
  a pair to edit.\<close>

definition kv_wf :: "control \<Rightarrow> bool" where
  "kv_wf c \<longleftrightarrow> is_array (cvalue c) \<and> arr_items (cvalue c) \<noteq> [] \<and> distinct (pair_ids c)
     \<and> list_all (\<lambda>i. \<exists>n. i = JNum n \<and> 0 < n \<and> n < nextId c) (pair_ids c)
     \<and> list_all (\<lambda>p. \<exists>ps. p = JObj ps) (arr_items (cvalue c))"

lemma max_pair_id_ge:
  "m \<le> foldl (\<lambda>m p. max m (num_of (js_or (js_prop p ''id'') (JNum 0)))) m ps"
  by (induction ps arbitrary: m) (auto intro: order_trans [OF max.cobounded1])

lemma max_pair_id_bound:
  "p \<in> set ps \<Longrightarrow> num_of (js_or (js_prop p ''id'') (JNum 0)) \<le> max_pair_id ps"
proof -
  have "p \<in> set ps \<Longrightarrow> num_of (js_or (js_prop p ''id'') (JNum 0))
      \<le> foldl (\<lambda>m p. max m (num_of (js_or (js_prop p ''id'') (JNum 0)))) m ps" for m
  proof (induction ps arbitrary: m)
    case (Cons q ps)
    then show ?case
      using max_pair_id_ge [of "max m (num_of (js_or (js_prop p ''id'') (JNum 0)))" ps]
      by (auto intro: order_trans [OF max.cobounded2])
  qed simp
  then show "p \<in> set ps \<Longrightarrow> ?thesis" by (simp add: max_pair_id_def)
qed

lemma number_pairs_Cons:
  "fst (number_pairs f next (p # ps)) =
     fst (number_pairs f (if truthy (js_prop p ''id'') then next else next + 1) ps)"
  "snd (number_pairs f next (p # ps)) =
     JObj ((''id'', if truthy (js_prop p ''id'') then js_prop p ''id'' else JNum next) # f p)
       # snd (number_pairs f (if truthy (js_prop p ''id'') then next else next + 1) ps)"
  by (simp_all add: Let_def split_beta)

declare number_pairs.simps(2) [simp del]
declare number_pairs_Cons [simp]

lemma number_pairs_length: "length (snd (number_pairs f next ps)) = length ps"
  by (induction ps arbitrary: "next") auto

lemma number_pairs_next: "next \<le> fst (number_pairs f next ps)"
proof (induction ps arbitrary: "next")
  case (Cons p ps)
  then show ?case using order_trans [OF _ Cons.IH, of "next" "next + 1"] by simp
qed simp

text \<open>The ids the numbering hands out lie between the counter before and after it; ids that were
  given stay.\<close>

lemma number_pairs_ids:
  assumes "q \<in> set (snd (number_pairs f next ps))"
  shows "(\<exists>n. js_prop q ''id'' = JNum n \<and> next \<le> n \<and> n < fst (number_pairs f next ps))
    \<or> (\<exists>p \<in> set ps. truthy (js_prop p ''id'') \<and> js_prop q ''id'' = js_prop p ''id'')"
  using assms
proof (induction ps arbitrary: "next")
  case (Cons p ps)
  have next_le: "next + 1 \<le> fst (number_pairs f (next + 1) ps)" by (rule number_pairs_next)
  show ?case
  proof (cases "truthy (js_prop p ''id'')")
    case True
    with Cons show ?thesis by auto
  next
    case False
    then consider "js_prop q ''id'' = JNum next" | "q \<in> set (snd (number_pairs f (next + 1) ps))"
      using Cons.prems by auto
    then show ?thesis
    proof cases
      case 1
      with False next_le show ?thesis by force
    next
      case 2
      from Cons.IH [OF this] False show ?thesis by force
    qed
  qed
qed simp

lemma number_pairs_distinct:
  assumes "distinct (filter truthy (map (\<lambda>p. js_prop p ''id'') ps))"
    and "\<forall>p \<in> set ps. truthy (js_prop p ''id'') \<longrightarrow> (\<exists>n. js_prop p ''id'' = JNum n \<and> n < next)"
  shows "distinct (map (\<lambda>q. js_prop q ''id'') (snd (number_pairs f next ps)))"
  using assms
proof (induction ps arbitrary: "next")
  case (Cons p ps)
  let ?id = "\<lambda>q. js_prop q ''id''"
  show ?case
  proof (cases "truthy (?id p)")
    case True
    obtain n where n: "?id p = JNum n" "n < next" using Cons.prems(2) True by auto
    have rest: "distinct (map ?id (snd (number_pairs f next ps)))"
      using Cons True by simp
    have "?id p \<notin> ?id ` set (snd (number_pairs f next ps))"
    proof
      assume "?id p \<in> ?id ` set (snd (number_pairs f next ps))"
      then obtain q where q: "q \<in> set (snd (number_pairs f next ps))" "?id q = ?id p" by auto
      from number_pairs_ids [OF q(1)] q(2) n Cons.prems(1) True show False by force
    qed
    with rest True show ?thesis by simp
  next
    case False
    have "\<forall>p \<in> set ps. truthy (?id p) \<longrightarrow> (\<exists>n. ?id p = JNum n \<and> n < next + 1)"
      using Cons.prems(2) by force
    then have rest: "distinct (map ?id (snd (number_pairs f (next + 1) ps)))"
      using Cons.IH [of "next + 1"] Cons.prems(1) False by simp
    have "JNum next \<notin> ?id ` set (snd (number_pairs f (next + 1) ps))"
    proof
      assume "JNum next \<in> ?id ` set (snd (number_pairs f (next + 1) ps))"
      then obtain q where q: "q \<in> set (snd (number_pairs f (next + 1) ps))" "?id q = JNum next"
        by auto
      from number_pairs_ids [OF q(1)] q(2) Cons.prems(2) show False by force
    qed
    with rest False show ?thesis by simp
  qed
qed simp

lemma number_pairs_objects: "q \<in> set (snd (number_pairs f next ps)) \<Longrightarrow> \<exists>qs. q = JObj qs"
  by (induction ps arbitrary: "next") (auto split: if_splits)

text \<open>The constructor establishes the invariant, for a default whose given ids are distinct
  positive numbers, or for no usable default at all.\<close>

definition kv_default_ok :: "jsval \<Rightarrow> bool" where
  "kv_default_ok v \<longleftrightarrow>
     (case v of
        JArr xs \<Rightarrow> xs \<noteq> [] \<and> distinct (filter truthy (map (\<lambda>p. js_prop p ''id'') xs))
          \<and> list_all (\<lambda>i. truthy i \<longrightarrow> 0 < num_of i \<and> i = JNum (num_of i)) (map (\<lambda>p. js_prop p ''id'') xs)
      | _ \<Rightarrow> True)"

lemma new_Control_cvalue:
  "cvalue (new_Control key options) =
     (if opt options ''default'' \<noteq> JUndef then opt options ''default'' else JNull)"
  by (simp add: new_Control_def)

lemma max_pair_id_nonneg: "0 \<le> max_pair_id ps"
  unfolding max_pair_id_def by (rule max_pair_id_ge)

lemma number_pairs_range:
  assumes ok: "kv_default_ok (JArr xs)" and q: "q \<in> set (snd (number_pairs f (max_pair_id xs + 1) xs))"
  shows "\<exists>n. js_prop q ''id'' = JNum n \<and> 0 < n \<and> n < fst (number_pairs f (max_pair_id xs + 1) xs)"
  using number_pairs_ids [OF q]
proof
  assume "\<exists>n. js_prop q ''id'' = JNum n \<and> max_pair_id xs + 1 \<le> n
    \<and> n < fst (number_pairs f (max_pair_id xs + 1) xs)"
  with max_pair_id_nonneg [of xs] show ?thesis by fastforce
next
  assume "\<exists>p \<in> set xs. truthy (js_prop p ''id'') \<and> js_prop q ''id'' = js_prop p ''id''"
  then obtain p where p: "p \<in> set xs" "truthy (js_prop p ''id'')" "js_prop q ''id'' = js_prop p ''id''"
    by blast
  with ok have pos: "0 < num_of (js_prop p ''id'')" "js_prop p ''id'' = JNum (num_of (js_prop p ''id''))"
    by (auto simp: kv_default_ok_def list_all_iff)
  have "num_of (js_prop p ''id'') \<le> max_pair_id xs"
    using max_pair_id_bound [OF p(1)] p(2) by (simp add: js_or_def)
  with number_pairs_next [of "max_pair_id xs + 1" f xs] pos p(3) show ?thesis by force
qed

lemma numbered_ids_distinct:
  assumes ok: "kv_default_ok (JArr xs)"
  shows "distinct (map (\<lambda>q. js_prop q ''id'') (snd (number_pairs f (max_pair_id xs + 1) xs)))"
proof (rule number_pairs_distinct)
  show "distinct (filter truthy (map (\<lambda>p. js_prop p ''id'') xs))"
    using ok by (simp add: kv_default_ok_def)
  show "\<forall>p \<in> set xs. truthy (js_prop p ''id'') \<longrightarrow> (\<exists>n. js_prop p ''id'' = JNum n \<and> n < max_pair_id xs + 1)"
  proof (intro ballI impI)
    fix p assume p: "p \<in> set xs" "truthy (js_prop p ''id'')"
    with ok have "js_prop p ''id'' = JNum (num_of (js_prop p ''id''))"
      by (auto simp: kv_default_ok_def list_all_iff)
    moreover have "num_of (js_prop p ''id'') \<le> max_pair_id xs"
      using max_pair_id_bound [OF p(1)] p(2) by (simp add: js_or_def)
    ultimately show "\<exists>n. js_prop p ''id'' = JNum n \<and> n < max_pair_id xs + 1"
      by (metis add.commute le_add_same_cancel2 le_less_trans less_add_one)
  qed
qed

lemma new_KeyValueControl_wf:
  assumes ok: "kv_default_ok (opt options ''default'')"
  shows "kv_wf (new_KeyValueControl key options)"
proof (cases "\<exists>xs. opt options ''default'' = JArr xs")
  case True
  then obtain xs where xs: "opt options ''default'' = JArr xs" by blast
  let ?r = "number_pairs kv_fields (max_pair_id xs + 1) xs"
  have ne: "snd ?r \<noteq> []"
    using number_pairs_length [of kv_fields "max_pair_id xs + 1" xs] ok xs
    by (auto simp: kv_default_ok_def)
  have c: "arr_items (cvalue (new_KeyValueControl key options)) = snd ?r"
    "is_array (cvalue (new_KeyValueControl key options))"
    "nextId (new_KeyValueControl key options) = fst ?r"
    using xs by (simp_all add: new_KeyValueControl_def new_Control_cvalue Let_def split_beta nextId_def)
  from ok xs have ok': "kv_default_ok (JArr xs)" by simp
  show ?thesis
    using ne c numbered_ids_distinct [OF ok'] number_pairs_range [OF ok'] number_pairs_objects
    by (fastforce simp: kv_wf_def pair_ids_def list_all_iff)
next
  case False
  then have "cvalue (new_KeyValueControl key options) =
      JArr [JObj [(''id'', JNum 1), (''key'', JStr []), (''value'', JStr [])]]"
    "nextId (new_KeyValueControl key options) = 2"
    by (auto simp: new_KeyValueControl_def new_Control_cvalue Let_def nextId_def split: jsval.splits)
  then show ?thesis by (simp add: kv_wf_def pair_ids_def)
qed

lemma addPair_wf: "kv_wf c \<Longrightarrow> kv_wf (addPair c)"
proof -
  assume wf: "kv_wf c"
  then have pos: "0 < nextId c"
    by (cases "arr_items (cvalue c)") (auto simp: kv_wf_def pair_ids_def)
  have "nextId (addPair c) = nextId c + 1"
    by (simp add: addPair_def nextId_def)
  with wf pos show "kv_wf (addPair c)"
    by (fastforce simp: kv_wf_def pair_ids_def addPair_def list_all_iff)
qed

lemma removePair_wf: "kv_wf c \<Longrightarrow> kv_wf (removePair index c)"
proof -
  assume wf: "kv_wf c"
  let ?xs = "arr_items (cvalue c)" and ?id = "\<lambda>p. js_prop p ''id''"
  have sub: "set (take index ?xs @ drop (Suc index) ?xs) \<subseteq> set ?xs" by (rule set_remove_nth)
  have dist: "distinct (map ?id (take index ?xs @ drop (Suc index) ?xs))"
    using distinct_remove_nth [of "map ?id ?xs" index] wf
    by (simp add: kv_wf_def pair_ids_def take_map drop_map)
  have ne: "take index ?xs @ drop (Suc index) ?xs \<noteq> []" if "length ?xs > 1"
    using that by auto
  show "kv_wf (removePair index c)"
    using wf sub dist ne
    by (auto simp: removePair_def kv_wf_def pair_ids_def nextId_def Let_def list_all_iff)
qed

lemma setPair_ids:
  assumes "kv_wf c" shows "pair_ids (setPair index key value c) = pair_ids c"
proof -
  let ?xs = "arr_items (cvalue c)"
  { assume i: "index < length ?xs"
    then obtain ps where ps: "?xs ! index = JObj ps"
      using assms by (auto simp: kv_wf_def list_all_length)
    have "js_prop (JObj (obj_assign ps [(''key'', key), (''value'', value)])) ''id'' = js_prop (JObj ps) ''id''"
      by (simp add: jso.get_put)
    with i ps have "map (\<lambda>p. js_prop p ''id'')
        (?xs[index := JObj (obj_assign ps [(''key'', key), (''value'', value)])]) = map (\<lambda>p. js_prop p ''id'') ?xs"
      by (intro nth_equalityI) (auto simp: nth_list_update)
    with ps have ?thesis by (simp add: setPair_def pair_ids_def Let_def) }
  then show ?thesis by (cases "index < length ?xs") (simp_all add: setPair_def)
qed

lemma setPair_wf: "kv_wf c \<Longrightarrow> kv_wf (setPair index key value c)"
proof -
  assume wf: "kv_wf c"
  have "nextId (setPair index key value c) = nextId c"
    and "is_array (cvalue (setPair index key value c))"
    and "arr_items (cvalue (setPair index key value c)) \<noteq> []"
    using wf by (auto simp: setPair_def nextId_def kv_wf_def Let_def)
  moreover have "list_all (\<lambda>p. \<exists>ps. p = JObj ps) (arr_items (cvalue (setPair index key value c)))"
    using wf by (auto simp: setPair_def kv_wf_def Let_def list_all_length nth_list_update)
  ultimately show ?thesis using wf setPair_ids [OF wf] by (simp add: kv_wf_def)
qed

text \<open>Editing a key-value control: any sequence of the operations the panel offers.\<close>

datatype kv_op = AddPair | RemovePair nat | SetPair nat jsval jsval

fun kv_step :: "kv_op \<Rightarrow> control \<Rightarrow> control" where
  "kv_step AddPair c = addPair c"
| "kv_step (RemovePair i) c = removePair i c"
| "kv_step (SetPair i k v) c = setPair i k v c"

interpretation kvs: op_system kv_step "\<lambda>_ _. True" kv_wf
proof unfold_locales
  fix c op assume "kv_wf c"
  then show "kv_wf (kv_step op c)"
    by (cases op) (simp_all add: addPair_wf removePair_wf setPair_wf)
qed

subsection \<open>Properties\<close>

text \<open>The pairs of a key-value control always have distinct ids. For any default whose given ids are distinct
  positive numbers, and after any sequence of adding, removing and editing pairs, the control holds a
  non-empty list of pairs whose ids are distinct, positive and below the next id it will hand out.\<close>

theorem keyvalue_ids_distinct:
  assumes "kv_default_ok (opt options ''default'')"
  shows "kv_wf (run_ops kv_step ops (new_KeyValueControl key options))"
  using kvs.run_invar [OF new_KeyValueControl_wf [OF assms]] by simp

theorem keyvalue_ids_distinct_witness:
  "kv_wf (run_ops kv_step [AddPair, RemovePair 0, AddPair] (new_KeyValueControl ''headers'' []))"
proof -
  have "kv_default_ok (opt [] ''default'')" by (simp add: kv_default_ok_def)
  then show ?thesis by (rule keyvalue_ids_distinct)
qed

end
