(* ===== verification/Node.thy ===== *)
theory Node
  imports Control
begin

section \<open>Nodes (core/node.js)\<close>

text \<open>
  The base class of the workflow nodes: sockets, controls, configuration and serialisation. A node
  class is its static fields and the body of its constructor after \<open>super()\<close>, a function on the
  fresh base node; the classes themselves are in theory \<open>Node_Types\<close>. The null id is \<open>None\<close>.
\<close>

type_synonym position = "rat \<times> rat"

record socket_def =
  sd_key :: string
  sd_socket :: socket
  sd_label :: "string option"
  sd_multiple :: "bool option" \<comment> \<open>only inputs have the field\<close>

record node =
  node_id :: "string option"
  node_type :: string
  node_label :: string
  icon :: string
  category :: string
  position :: position
  inputs :: "(string \<times> socket_def) list"
  outputs :: "(string \<times> socket_def) list"
  controls :: "(string \<times> control) list"
  meta :: jsobj
  hiddenDefaults :: jsobj \<comment> \<open>of the classes made from a schema; empty for the others\<close>

record node_class =
  cls_nodeType :: string
  cls_label :: string
  cls_icon :: string
  cls_category :: string
  cls_description :: string
  cls_group :: string
  cls_body :: "node \<Rightarrow> node"

record node_json =
  nj_id :: "string option"
  nj_type :: string
  nj_label :: "string option"
  nj_position :: "position option"
  nj_config :: "jsobj option"
  nj_meta :: "jsobj option"

definition base_meta :: jsobj where
  "base_meta = [(''disabled'', JBool False), (''notes'', JStr [])]"

definition new_BaseNode :: "node_class \<Rightarrow> node" where
  "new_BaseNode C =
     \<lparr>node_id = None, node_type = cls_nodeType C, node_label = cls_label C, icon = cls_icon C,
      category = cls_category C, position = (0, 0), inputs = [], outputs = [], controls = [],
      meta = base_meta, hiddenDefaults = []\<rparr>"

definition new_node :: "node_class \<Rightarrow> node" where
  "new_node C = cls_body C (new_BaseNode C)"

subsection \<open>Sockets and controls of a node\<close>

definition addInput :: "string \<Rightarrow> socket \<Rightarrow> string option \<Rightarrow> bool \<Rightarrow> node \<Rightarrow> node" where
  "addInput key s label multiple n =
     n\<lparr>inputs := obj_set key \<lparr>sd_key = key, sd_socket = s, sd_label = label, sd_multiple = Some multiple\<rparr>
                   (inputs n)\<rparr>"

definition addOutput :: "string \<Rightarrow> socket \<Rightarrow> string option \<Rightarrow> node \<Rightarrow> node" where
  "addOutput key s label n =
     n\<lparr>outputs := obj_set key \<lparr>sd_key = key, sd_socket = s, sd_label = label, sd_multiple = None\<rparr>
                    (outputs n)\<rparr>"

definition addControl :: "string \<Rightarrow> control \<Rightarrow> node \<Rightarrow> node" where
  "addControl key c n = n\<lparr>controls := obj_set key c (controls n)\<rparr>"

subsection \<open>Configuration\<close>

definition base_getConfig :: "node \<Rightarrow> jsobj" where
  "base_getConfig n = foldl (\<lambda>config (key, c). obj_set key (getValue c) config) [] (controls n)"

definition set_control_value :: "string \<Rightarrow> jsval \<Rightarrow> node \<Rightarrow> node" where
  "set_control_value key v n =
     (case map_of (controls n) key of
        None \<Rightarrow> n
      | Some c \<Rightarrow> n\<lparr>controls := obj_set key (setValue v c) (controls n)\<rparr>)"

definition base_setConfig :: "jsobj \<Rightarrow> node \<Rightarrow> node" where
  "base_setConfig config n = foldl (\<lambda>n (key, v). set_control_value key v n) n config"

text \<open>
  The classes made from a schema (utils/dynamic_node_factory.js) override both methods: values that have no
  control are kept as hidden defaults. For the other classes there are none, and the methods are those of the
  base class.
\<close>

definition getConfig :: "node \<Rightarrow> jsobj" where
  "getConfig n =
     foldl (\<lambda>config (key, v). if key \<in> set (map_keys config) then config else obj_set key v config)
       (base_getConfig n) (hiddenDefaults n)"

definition setConfig :: "jsobj \<Rightarrow> node \<Rightarrow> node" where
  "setConfig config n =
     (base_setConfig config n)\<lparr>hiddenDefaults :=
        map (\<lambda>(key, v). (key, case map_of config key of Some w \<Rightarrow> w | None \<Rightarrow> v)) (hiddenDefaults n)\<rparr>"

subsection \<open>Serialisation\<close>

definition node_toJSON :: "node \<Rightarrow> node_json" where
  "node_toJSON n =
     \<lparr>nj_id = node_id n, nj_type = node_type n, nj_label = Some (node_label n),
      nj_position = Some (position n), nj_config = Some (getConfig n), nj_meta = Some (meta n)\<rparr>"

definition node_fromJSON :: "node_json \<Rightarrow> (string \<times> node_class) list \<Rightarrow> js_error + node" where
  "node_fromJSON data reg =
     (case map_of reg (nj_type data) of
        None \<Rightarrow> Inl (JsError (''Unknown node type: '' @ nj_type data))
      | Some C \<Rightarrow>
          (let n0 = new_node C;
               n1 = n0\<lparr>node_id := nj_id data,
                       node_label := (case nj_label data of
                          Some l \<Rightarrow> if l \<noteq> [] then l else node_label n0 | None \<Rightarrow> node_label n0),
                       position := (case nj_position data of Some p \<Rightarrow> p | None \<Rightarrow> (0, 0)),
                       meta := obj_assign (meta n0) (case nj_meta data of Some m \<Rightarrow> m | None \<Rightarrow> [])\<rparr>
           in Inr (case nj_config data of Some cfg \<Rightarrow> setConfig cfg n1 | None \<Rightarrow> n1)))"

definition getInputKeys :: "node \<Rightarrow> string list" where
  "getInputKeys n = map_keys (inputs n)"

definition getOutputKeys :: "node \<Rightarrow> string list" where
  "getOutputKeys n = map_keys (outputs n)"

text \<open>\<open>clone\<close> reads the constructor of the node: here the class is an argument.\<close>

definition node_clone :: "node_class \<Rightarrow> node \<Rightarrow> js_error + node" where
  "node_clone C n = node_fromJSON ((node_toJSON n)\<lparr>nj_id := None\<rparr>) [(node_type n, C)]"

subsection \<open>Reading the configuration back\<close>

lemma set_control_value_fields [simp]:
  "node_id (set_control_value k v n) = node_id n"
  "node_type (set_control_value k v n) = node_type n"
  "node_label (set_control_value k v n) = node_label n"
  "icon (set_control_value k v n) = icon n"
  "category (set_control_value k v n) = category n"
  "position (set_control_value k v n) = position n"
  "inputs (set_control_value k v n) = inputs n"
  "outputs (set_control_value k v n) = outputs n"
  "meta (set_control_value k v n) = meta n"
  "hiddenDefaults (set_control_value k v n) = hiddenDefaults n"
  by (simp_all add: set_control_value_def split: option.splits)

lemma base_setConfig_Nil [simp]: "base_setConfig [] n = n"
  by (simp add: base_setConfig_def)

lemma base_setConfig_Cons [simp]: "base_setConfig ((k, v) # cfg) n = base_setConfig cfg (set_control_value k v n)"
  by (simp add: base_setConfig_def)

lemma base_setConfig_fields [simp]:
  "node_id (base_setConfig cfg n) = node_id n"
  "node_type (base_setConfig cfg n) = node_type n"
  "node_label (base_setConfig cfg n) = node_label n"
  "icon (base_setConfig cfg n) = icon n"
  "category (base_setConfig cfg n) = category n"
  "position (base_setConfig cfg n) = position n"
  "inputs (base_setConfig cfg n) = inputs n"
  "outputs (base_setConfig cfg n) = outputs n"
  "meta (base_setConfig cfg n) = meta n"
  "hiddenDefaults (base_setConfig cfg n) = hiddenDefaults n"
  by (induction cfg arbitrary: n; force)+

lemma map_of_set_control_value:
  "map_of (controls (set_control_value k v n)) =
     (case map_of (controls n) k of None \<Rightarrow> map_of (controls n)
      | Some c \<Rightarrow> (map_of (controls n))(k \<mapsto> setValue v c))"
  by (simp add: set_control_value_def jso.get_put split: option.splits)

lemma obj_set_keys_present:
  "k \<in> set (map_keys ps) \<Longrightarrow> map_keys (obj_set k v ps) = map_keys ps"
  by (simp add: obj_set_def update_keys)

lemma keys_set_control_value [simp]:
  "map_keys (controls (set_control_value k v n)) = map_keys (controls n)"
proof (cases "map_of (controls n) k")
  case (Some c)
  then have "k \<in> set (map_keys (controls n))" by (auto simp: map_of_SomeD rev_image_eqI dest!: map_of_SomeD)
  with Some show ?thesis by (simp add: set_control_value_def obj_set_keys_present del: set_map)
qed (simp add: set_control_value_def)

lemma base_keys_setConfig [simp]: "map_keys (controls (base_setConfig cfg n)) = map_keys (controls n)"
  by (induction cfg arbitrary: n) auto

text \<open>A control holds, after \<open>base_setConfig\<close>, the last value the configuration has for its key.\<close>

lemma base_map_of_setConfig:
  "map_of (controls (base_setConfig cfg n)) k =
     map_option (\<lambda>c. case map_of (rev cfg) k of Some v \<Rightarrow> setValue v c | None \<Rightarrow> c) (map_of (controls n) k)"
proof (induction cfg arbitrary: n)
  case (Cons q cfg)
  obtain k' v' where q: "q = (k', v')" by (cases q)
  show ?case
    by (cases "map_of (controls n) k'"; cases "map_of (controls n) k"; cases "map_of (rev cfg) k")
       (auto simp: q Cons.IH map_of_set_control_value map_add_def setValue_def)
qed (simp add: option.map_ident)

lemma map_of_map_snd: "map_of (map (\<lambda>(k, v). (k, f v)) xs) k = map_option f (map_of xs k)"
  by (induction xs) auto

lemma base_getConfig_eq: "base_getConfig n = foldl (\<lambda>acc (k, v). obj_set k v acc) [] (map (\<lambda>(k, c). (k, getValue c)) (controls n))"
proof -
  have "foldl (\<lambda>acc (k, v). obj_set k v acc) a (map (\<lambda>(k, c). (k, getValue c)) xs)
      = foldl (\<lambda>config (key, c). obj_set key (getValue c) config) a xs" for a xs
    by (induction xs arbitrary: a) auto
  then show ?thesis by (simp add: base_getConfig_def)
qed

lemma base_map_of_getConfig:
  assumes "distinct (map_keys (controls n))"
  shows "map_of (base_getConfig n) k = map_option getValue (map_of (controls n) k)"
proof -
  let ?vs = "map (\<lambda>(k, c). (k, getValue c)) (controls n)"
  have "map_keys ?vs = map_keys (controls n)" by (simp add: case_prod_beta' comp_def)
  then have "distinct (map_keys ?vs)" using assms by (simp only:)
  then have "map_of (rev ?vs) = map_of ?vs" by (rule map_of_rev_distinct)
  then show ?thesis by (simp add: base_getConfig_eq jso.get_put_all map_of_map_snd)
qed

lemma base_distinct_keys_getConfig: "distinct (map_keys (base_getConfig n))"
  by (simp add: base_getConfig_eq jso.distinct_put_all)

lemma setConfig_fields [simp]:
  "node_id (setConfig cfg n) = node_id n"
  "node_type (setConfig cfg n) = node_type n"
  "node_label (setConfig cfg n) = node_label n"
  "icon (setConfig cfg n) = icon n"
  "category (setConfig cfg n) = category n"
  "position (setConfig cfg n) = position n"
  "inputs (setConfig cfg n) = inputs n"
  "outputs (setConfig cfg n) = outputs n"
  "meta (setConfig cfg n) = meta n"
  "controls (setConfig cfg n) = controls (base_setConfig cfg n)"
  "map_keys (hiddenDefaults (setConfig cfg n)) = map_keys (hiddenDefaults n)"
  by (simp_all add: setConfig_def case_prod_beta' comp_def)

lemma map_of_getConfig:
  "map_of (getConfig n) k = (case map_of (base_getConfig n) k of Some v \<Rightarrow> Some v | None \<Rightarrow> map_of (hiddenDefaults n) k)"
proof -
  have "map_of (foldl (\<lambda>config (key, v). if key \<in> set (map_keys config) then config else obj_set key v config) c hs) k
      = (case map_of c k of Some v \<Rightarrow> Some v | None \<Rightarrow> map_of hs k)" for c hs
  proof (induction hs arbitrary: c)
    case (Cons h hs)
    obtain k' v' where h: "h = (k', v')" by (cases h)
    have "k' \<in> set (map_keys c) \<longleftrightarrow> map_of c k' \<noteq> None" by (simp add: map_of_eq_None_iff)
    then show ?case
      by (cases "k' = k"; cases "map_of c k") (simp_all add: h Cons.IH jso.get_put del: set_map)
  qed (simp split: option.splits)
  then show ?thesis by (simp add: getConfig_def)
qed

lemma distinct_keys_getConfig: "distinct (map_keys (getConfig n))"
proof -
  have "distinct (map_keys (foldl (\<lambda>config (key, v). if key \<in> set (map_keys config) then config else obj_set key v config) c hs))"
    if "distinct (map_keys c)" for c hs
    using that by (induction hs arbitrary: c) (auto simp: jso.distinct_put split: prod.splits simp del: distinct_map)
  from this [OF base_distinct_keys_getConfig] show ?thesis unfolding getConfig_def .
qed

subsection \<open>Instances of a class\<close>

text \<open>
  A node is an instance of a class when it has the sockets and the controls the constructor makes,
  up to the values of the controls; its meta object starts with the fields of the base class. Every
  operation of the editor keeps this (theory \<open>Editor\<close>).
\<close>

definition instance_of :: "node_class \<Rightarrow> node \<Rightarrow> bool" where
  "instance_of C n \<longleftrightarrow>
     node_type n = node_type (new_node C) \<and> icon n = icon (new_node C) \<and> category n = category (new_node C)
     \<and> inputs n = inputs (new_node C) \<and> outputs n = outputs (new_node C)
     \<and> list_all2 (\<lambda>(k, c) (k0, c0). k = k0 \<and> c = c0\<lparr>cvalue := cvalue c\<rparr>) (controls n) (controls (new_node C))
     \<and> distinct (map_keys (controls n))
     \<and> plain_meta (map_keys (meta (new_node C))) (meta n)
     \<and> map_keys (hiddenDefaults n) = map_keys (hiddenDefaults (new_node C))
     \<and> distinct (map_keys (hiddenDefaults (new_node C)))
     \<and> set (map_keys (hiddenDefaults (new_node C))) \<inter> set (map_keys (controls (new_node C))) = {}"

lemma keys_list_all2:
  "list_all2 (\<lambda>(k, c) (k0, c0). k = k0 \<and> P c c0) xs ys \<Longrightarrow> map_keys xs = map_keys ys"
  by (induction rule: list_all2_induct) auto

lemma map_of_list_all2:
  "list_all2 (\<lambda>(k, c) (k0, c0). k = k0 \<and> P c c0) xs ys \<Longrightarrow> map_of xs k = Some c \<Longrightarrow>
   \<exists>c0. map_of ys k = Some c0 \<and> P c c0"
  by (induction rule: list_all2_induct) (auto split: if_splits)

lemma alist_eqI:
  assumes "map_keys xs = map_keys ys" and "distinct (map_keys xs)" and "map_of xs = map_of ys"
  shows "xs = ys"
proof (rule nth_equalityI)
  show len: "length xs = length ys" using assms(1) by (metis length_map)
  fix i assume i: "i < length xs"
  then have keys: "fst (xs ! i) = fst (ys ! i)" using assms(1) len by (metis nth_map)
  have "map_of xs (fst (xs ! i)) = Some (snd (xs ! i))"
    using assms(2) i by (metis map_of_is_SomeI nth_mem prod.collapse)
  moreover have "map_of ys (fst (ys ! i)) = Some (snd (ys ! i))"
    using assms(1,2) i len by (metis map_of_is_SomeI nth_mem prod.collapse)
  ultimately show "xs ! i = ys ! i" using assms(3) keys by (simp add: prod_eq_iff)
qed

text \<open>Restoring the configuration of an instance into a fresh node gives its controls back.\<close>

lemma setConfig_getConfig:
  assumes inst: "instance_of C n"
  shows "controls (base_setConfig (getConfig n) (new_node C)) = controls n"
proof (rule alist_eqI)
  let ?n0 = "new_node C"
  have la: "list_all2 (\<lambda>(k, c) (k0, c0). k = k0 \<and> c = c0\<lparr>cvalue := cvalue c\<rparr>) (controls n) (controls ?n0)"
    and dist: "distinct (map_keys (controls n))"
    using inst by (simp_all add: instance_of_def)
  have keys: "map_keys (controls n) = map_keys (controls ?n0)" by (rule keys_list_all2 [OF la])
  then show "map_keys (controls (base_setConfig (getConfig n) ?n0)) = map_keys (controls n)" by simp
  show "distinct (map_keys (controls (base_setConfig (getConfig n) ?n0)))"
    using dist keys by (simp del: distinct_map)
  show "map_of (controls (base_setConfig (getConfig n) ?n0)) = map_of (controls n)"
  proof
    fix k
    have cfg: "map_of (rev (getConfig n)) k = (case map_of (controls n) k of Some c \<Rightarrow> Some (getValue c)
        | None \<Rightarrow> map_of (hiddenDefaults n) k)"
      using base_map_of_getConfig [OF dist] distinct_keys_getConfig [of n] map_of_getConfig [of n k]
      by (simp add: map_of_rev_distinct split: option.splits)
    show "map_of (controls (base_setConfig (getConfig n) ?n0)) k = map_of (controls n) k"
    proof (cases "map_of (controls n) k")
      case None
      then have "k \<notin> set (map_keys (controls ?n0))" using keys by (metis map_of_eq_None_iff set_map)
      then show ?thesis by (simp add: base_map_of_setConfig None map_of_eq_None_iff)
    next
      case (Some c)
      from map_of_list_all2 [OF la Some] obtain c0
        where "map_of (controls ?n0) k = Some c0" "c = c0\<lparr>cvalue := cvalue c\<rparr>" by blast
      with Some cfg show ?thesis by (simp add: base_map_of_setConfig setValue_def getValue_def)
    qed
  qed
qed

lemma setConfig_hidden:
  assumes "instance_of C n"
  shows "hiddenDefaults (setConfig (getConfig n) (new_node C)) = hiddenDefaults n"
proof (rule alist_eqI)
  let ?init = "hiddenDefaults (new_node C)" and ?h = "hiddenDefaults n"
  have i: "map_keys ?h = map_keys ?init" "distinct (map_keys ?init)" "distinct (map_keys (controls n))"
    and disj: "set (map_keys ?init) \<inter> set (map_keys (controls (new_node C))) = {}"
    and la: "list_all2 (\<lambda>(k, c) (k0, c0). k = k0 \<and> c = c0\<lparr>cvalue := cvalue c\<rparr>) (controls n) (controls (new_node C))"
    using assms by (simp_all add: instance_of_def)
  have keys: "map_keys (controls n) = map_keys (controls (new_node C))" by (rule keys_list_all2 [OF la])
  show "map_keys (hiddenDefaults (setConfig (getConfig n) (new_node C))) = map_keys ?h"
    by (rule trans [OF setConfig_fields(11) i(1) [symmetric]])
  show "distinct (map_keys (hiddenDefaults (setConfig (getConfig n) (new_node C))))"
    unfolding setConfig_fields(11) by (rule i(2))
  show "map_of (hiddenDefaults (setConfig (getConfig n) (new_node C))) = map_of ?h"
  proof
    fix k
    have dom: "map_of ?init k = None \<longleftrightarrow> map_of ?h k = None" using i(1) by (simp only: map_of_eq_None_iff flip: set_map)
    have cfg: "map_of (getConfig n) k = map_of ?h k" if "map_of ?h k \<noteq> None"
    proof -
      have "k \<in> set (map_keys ?h)" using that by (simp add: map_of_eq_None_iff)
      then have "k \<notin> set (map_keys (controls n))" unfolding i(1) keys using disj by blast
      then have "map_of (controls n) k = None" by (simp add: map_of_eq_None_iff)
      then show ?thesis using map_of_getConfig [of n k] base_map_of_getConfig [OF i(3), of k] by simp
    qed
    have upd: "map_of (map (\<lambda>(key, v). (key, f key v)) xs) k = map_option (f k) (map_of xs k)" for f and xs :: jsobj
      by (induction xs) auto
    show "map_of (hiddenDefaults (setConfig (getConfig n) (new_node C))) k = map_of ?h k"
      using dom cfg by (cases "map_of ?h k"; cases "map_of ?init k") (simp_all add: setConfig_def upd)
  qed
qed

lemma base_setConfig_controls_cong:
  "controls x = controls y \<Longrightarrow> controls (base_setConfig cfg x) = controls (base_setConfig cfg y)"
proof (induction cfg arbitrary: x y)
  case (Cons q cfg)
  obtain k v where q: "q = (k, v)" by (cases q)
  from Cons.prems have "controls (set_control_value k v x) = controls (set_control_value k v y)"
    by (simp add: set_control_value_def split: option.splits)
  from Cons.IH [OF this] show ?case by (simp add: q)
qed simp

text \<open>A node written and read back is the node, for every instance with a non-empty label.\<close>

lemma node_roundtrip:
  assumes inst: "instance_of C n" and reg: "map_of reg (node_type n) = Some C"
    and lab: "node_label n \<noteq> []"
  shows "node_fromJSON (node_toJSON n) reg = Inr n"
proof -
  let ?n0 = "new_node C"
  let ?n1 = "?n0\<lparr>node_id := node_id n, node_label := node_label n, position := position n, meta := meta n\<rparr>"
  have m: "obj_assign (meta ?n0) (meta n) = meta n"
    using inst by (intro plain_meta_assign) (simp add: instance_of_def)
  have "controls (base_setConfig (getConfig n) ?n1) = controls n"
    using base_setConfig_controls_cong [of ?n1 ?n0 "getConfig n"] setConfig_getConfig [OF inst] by simp
  moreover have "hiddenDefaults (setConfig (getConfig n) ?n1) = hiddenDefaults n"
    using setConfig_hidden [OF inst] by (simp add: setConfig_def)
  ultimately have "setConfig (getConfig n) ?n1 = n"
    using inst by (intro node.equality) (simp_all add: instance_of_def)
  with reg lab m show ?thesis by (simp add: node_fromJSON_def node_toJSON_def Let_def)
qed

end
