(* ===== verification/Editor.thy ===== *)
theory Editor
  imports Node
begin

section \<open>The workflow editor (core/editor.js)\<close>

text \<open>
  The state manager of the workflow graph. Its data is the record \<open>editor_core\<close>; the full editor
  adds the subscribed callbacks and the state those callbacks own. A callback reads the editor at
  the moment it is called and updates its own state (the adapter's mirror of the graph is the only
  subscriber of the sources), so its function takes the payload, the core and the observer state.
  The number beside a callback stands for the identity of the function object, which \<open>off\<close> compares.
\<close>

subsection \<open>State\<close>

record editor_core =
  nodes :: "(string, node) js_map"
  connections :: "connection list"
  nodeRegistry :: "(string \<times> node_class) list"
  idCounter :: nat

datatype ed_data =
    DNode node
  | DConn connection
  | DMove node position
  | DMeta string jsobj
  | DLabel string string
  | DNone

text \<open>What a callback receives: the data of its own event, or \<open>{ event, data }\<close> for \<open>onChange\<close>.\<close>

datatype ed_payload = Direct ed_data | Change string ed_data

type_synonym 'u ed_callback = "nat \<times> (ed_payload \<Rightarrow> editor_core \<Rightarrow> 'u \<Rightarrow> 'u)"

record 'u editor =
  core :: editor_core
  callbacks :: "(string \<times> 'u ed_callback list) list"
  observer :: 'u

definition new_WorkflowEditor :: "(string \<times> node_class) list \<Rightarrow> 'u \<Rightarrow> 'u editor" where
  "new_WorkflowEditor reg u =
     \<lparr>core = \<lparr>nodes = [], connections = [], nodeRegistry = reg, idCounter = 0\<rparr>,
      callbacks = [(''onNodeAdd'', []), (''onNodeRemove'', []), (''onNodeMove'', []),
                   (''onConnectionAdd'', []), (''onConnectionRemove'', []), (''onChange'', [])],
      observer = u\<rparr>"

subsection \<open>Events\<close>

definition editor_on :: "string \<Rightarrow> 'u ed_callback \<Rightarrow> 'u editor \<Rightarrow> 'u editor" where
  "editor_on event cb ed =
     (case map_of (callbacks ed) event of
        None \<Rightarrow> ed
      | Some cbs \<Rightarrow> ed\<lparr>callbacks := obj_set event (cbs @ [cb]) (callbacks ed)\<rparr>)"

definition editor_off :: "string \<Rightarrow> nat \<Rightarrow> 'u editor \<Rightarrow> 'u editor" where
  "editor_off event cb ed =
     (case map_of (callbacks ed) event of
        None \<Rightarrow> ed
      | Some cbs \<Rightarrow> ed\<lparr>callbacks := obj_set event (filter (\<lambda>c. fst c \<noteq> cb) cbs) (callbacks ed)\<rparr>)"

definition run_callbacks :: "'u ed_callback list \<Rightarrow> ed_payload \<Rightarrow> 'u editor \<Rightarrow> 'u editor" where
  "run_callbacks cbs p ed = ed\<lparr>observer := foldl (\<lambda>u (i, f). f p (core ed) u) (observer ed) cbs\<rparr>"

fun payload_data :: "ed_payload \<Rightarrow> ed_data" where
  "payload_data (Direct d) = d"
| "payload_data (Change _ d) = d"

definition editor_emit :: "string \<Rightarrow> ed_payload \<Rightarrow> 'u editor \<Rightarrow> 'u editor" where
  "editor_emit event p ed =
     (let ed1 = (case map_of (callbacks ed) event of None \<Rightarrow> ed | Some cbs \<Rightarrow> run_callbacks cbs p ed)
      in if event \<noteq> ''onChange''
         then (case map_of (callbacks ed1) ''onChange'' of
                 None \<Rightarrow> ed1 | Some cbs \<Rightarrow> run_callbacks cbs (Change event (payload_data p)) ed1)
         else ed1)"

abbreviation update_core :: "(editor_core \<Rightarrow> editor_core) \<Rightarrow> 'u editor \<Rightarrow> 'u editor" where
  "update_core f ed \<equiv> ed\<lparr>core := f (core ed)\<rparr>"

subsection \<open>Nodes\<close>

definition generate_node_id :: "editor_core \<Rightarrow> string \<times> editor_core" where
  "generate_node_id c = (''n_'' @ show_nat (Suc (idCounter c)), c\<lparr>idCounter := Suc (idCounter c)\<rparr>)"

text \<open>\<open>addNode\<close> takes a node instance (\<open>Inl\<close>) or a class to instantiate (\<open>Inr\<close>).\<close>

definition core_addNode :: "node + node_class \<Rightarrow> position \<Rightarrow> editor_core \<Rightarrow> node \<times> editor_core" where
  "core_addNode nodeOrClass p c =
     (let n0 = (case nodeOrClass of Inl n \<Rightarrow> n | Inr C \<Rightarrow> new_node C);
          (i, c1) = (case node_id n0 of
                       Some i \<Rightarrow> if i \<noteq> [] then (i, c) else generate_node_id c
                     | None \<Rightarrow> generate_node_id c);
          n1 = n0\<lparr>node_id := Some i, position := p\<rparr>
      in (n1, c1\<lparr>nodes := map_set i n1 (nodes c1)\<rparr>))"

definition editor_addNode :: "node + node_class \<Rightarrow> position \<Rightarrow> 'u editor \<Rightarrow> node \<times> 'u editor" where
  "editor_addNode nodeOrClass p ed =
     (let (n, c) = core_addNode nodeOrClass p (core ed)
      in (n, editor_emit ''onNodeAdd'' (Direct (DNode n)) (ed\<lparr>core := c\<rparr>)))"

definition editor_removeNode :: "string \<Rightarrow> 'u editor \<Rightarrow> bool \<times> 'u editor" where
  "editor_removeNode nodeId ed =
     (case map_of (nodes (core ed)) nodeId of
        None \<Rightarrow> (False, ed)
      | Some n \<Rightarrow>
          (let removed = filter (\<lambda>c. involvesNode c nodeId) (connections (core ed));
               ed1 = update_core (\<lambda>c. c\<lparr>connections := filter (\<lambda>k. \<not> involvesNode k nodeId) (connections c)\<rparr>) ed;
               ed2 = foldl (\<lambda>e c. editor_emit ''onConnectionRemove'' (Direct (DConn c)) e) ed1 removed;
               ed3 = update_core (\<lambda>c. c\<lparr>nodes := map_del nodeId (nodes c)\<rparr>) ed2
           in (True, editor_emit ''onNodeRemove'' (Direct (DNode n)) ed3)))"

definition editor_updateNodePosition :: "string \<Rightarrow> position \<Rightarrow> 'u editor \<Rightarrow> bool \<times> 'u editor" where
  "editor_updateNodePosition nodeId p ed =
     (case map_of (nodes (core ed)) nodeId of
        None \<Rightarrow> (False, ed)
      | Some n \<Rightarrow>
          (let n' = n\<lparr>position := p\<rparr>
           in (True, editor_emit ''onNodeMove'' (Direct (DMove n' p))
                       (update_core (\<lambda>c. c\<lparr>nodes := map_set nodeId n' (nodes c)\<rparr>) ed))))"

definition editor_getNodeMeta :: "string \<Rightarrow> 'u editor \<Rightarrow> jsobj" where
  "editor_getNodeMeta nodeId ed =
     (case map_of (nodes (core ed)) nodeId of None \<Rightarrow> [] | Some n \<Rightarrow> meta n)"

text \<open>\<open>{...a, ...b}\<close> for two values.\<close>

definition spread2 :: "jsval \<Rightarrow> jsval \<Rightarrow> jsobj" where
  "spread2 a b = obj_assign (own_props a) (own_props b)"

definition merge_modes :: "string \<Rightarrow> jsval \<Rightarrow> jsval \<Rightarrow> jsobj \<Rightarrow> jsobj" where
  "merge_modes k prevUi patchUi ui =
     (if truthy (js_prop patchUi k)
      then obj_set k (JObj (spread2 (js_or (js_prop prevUi k) (JObj [])) (js_prop patchUi k))) ui
      else ui)"

definition merge_meta :: "jsobj \<Rightarrow> jsobj \<Rightarrow> jsobj" where
  "merge_meta prev metaPatch =
     (let patchUi = js_prop (JObj metaPatch) ''ui'';
          merged = obj_assign prev metaPatch
      in if truthy patchUi
         then (let prevUi = js_or (js_prop (JObj prev) ''ui'') (JObj []);
                   nextUi = merge_modes ''pairModes'' prevUi patchUi
                              (merge_modes ''controlModes'' prevUi patchUi (spread2 prevUi patchUi))
               in obj_set ''ui'' (JObj nextUi) merged)
         else merged)"

definition editor_setNodeMeta :: "string \<Rightarrow> jsobj \<Rightarrow> 'u editor \<Rightarrow> bool \<times> 'u editor" where
  "editor_setNodeMeta nodeId metaPatch ed =
     (case map_of (nodes (core ed)) nodeId of
        None \<Rightarrow> (False, ed)
      | Some n \<Rightarrow>
          (let n' = n\<lparr>meta := merge_meta (meta n) metaPatch\<rparr>
           in (True, editor_emit ''onChange'' (Change ''meta'' (DMeta nodeId (meta n')))
                       (update_core (\<lambda>c. c\<lparr>nodes := map_set nodeId n' (nodes c)\<rparr>) ed))))"

definition editor_setNodeLabel :: "string \<Rightarrow> string \<Rightarrow> 'u editor \<Rightarrow> bool \<times> 'u editor" where
  "editor_setNodeLabel nodeId l ed =
     (case map_of (nodes (core ed)) nodeId of
        None \<Rightarrow> (False, ed)
      | Some n \<Rightarrow>
          (True, editor_emit ''onChange'' (Change ''label'' (DLabel nodeId l))
                   (update_core (\<lambda>c. c\<lparr>nodes := map_set nodeId (n\<lparr>node_label := l\<rparr>) (nodes c)\<rparr>) ed)))"

definition editor_getNode :: "string \<Rightarrow> 'u editor \<Rightarrow> node option" where
  "editor_getNode nodeId ed = map_of (nodes (core ed)) nodeId"

definition editor_getNodes :: "'u editor \<Rightarrow> node list" where
  "editor_getNodes ed = map snd (nodes (core ed))"

subsection \<open>Connections\<close>

text \<open>The checks of \<open>addConnection\<close>, in its order; \<open>None\<close> is the value null.\<close>

definition core_addConnection ::
    "string \<Rightarrow> string \<Rightarrow> string \<Rightarrow> string \<Rightarrow> editor_core \<Rightarrow> connection option" where
  "core_addConnection sourceId sourceH targetId targetH c =
     (case (map_of (nodes c) sourceId, map_of (nodes c) targetId) of
        (Some s, Some t) \<Rightarrow>
          (case (map_of (outputs s) sourceH, map_of (inputs t) targetH) of
             (Some out, Some inp) \<Rightarrow>
               if \<not> isCompatible (sd_socket out) (Some (sd_socket inp)) then None
               else if list_ex (\<lambda>k. conn_id k = generateId sourceId sourceH targetId targetH) (connections c)
               then None
               else if sourceId = targetId then None
               else Some (new_Connection sourceId sourceH targetId targetH)
           | _ \<Rightarrow> None)
      | _ \<Rightarrow> None)"

definition editor_addConnection ::
    "string \<Rightarrow> string \<Rightarrow> string \<Rightarrow> string \<Rightarrow> 'u editor \<Rightarrow> connection option \<times> 'u editor" where
  "editor_addConnection sourceId sourceH targetId targetH ed =
     (case core_addConnection sourceId sourceH targetId targetH (core ed) of
        None \<Rightarrow> (None, ed)
      | Some k \<Rightarrow>
          (Some k, editor_emit ''onConnectionAdd'' (Direct (DConn k))
                     (update_core (\<lambda>c. c\<lparr>connections := connections c @ [k]\<rparr>) ed)))"

text \<open>\<open>findIndex\<close> and \<open>splice(index, 1)\<close>: the first connection with the id goes.\<close>

fun remove_first :: "('a \<Rightarrow> bool) \<Rightarrow> 'a list \<Rightarrow> 'a list" where
  "remove_first p [] = []"
| "remove_first p (x # xs) = (if p x then xs else x # remove_first p xs)"

definition editor_removeConnection :: "string \<Rightarrow> 'u editor \<Rightarrow> bool \<times> 'u editor" where
  "editor_removeConnection connectionId ed =
     (case List.find (\<lambda>k. conn_id k = connectionId) (connections (core ed)) of
        None \<Rightarrow> (False, ed)
      | Some k \<Rightarrow>
          (True, editor_emit ''onConnectionRemove'' (Direct (DConn k))
                   (update_core (\<lambda>c. c\<lparr>connections := remove_first (\<lambda>k. conn_id k = connectionId) (connections c)\<rparr>) ed)))"

definition editor_getNodeConnections :: "string \<Rightarrow> 'u editor \<Rightarrow> connection list" where
  "editor_getNodeConnections nodeId ed = filter (\<lambda>c. involvesNode c nodeId) (connections (core ed))"

definition editor_getConnections :: "'u editor \<Rightarrow> connection list" where
  "editor_getConnections ed = connections (core ed)"

subsection \<open>Serialisation\<close>

record snapshot =
  sn_version :: string
  sn_nodes :: "node_json list"
  sn_connections :: "conn_json list"

definition core_toJSON :: "editor_core \<Rightarrow> snapshot" where
  "core_toJSON c =
     \<lparr>sn_version = ''1.0'', sn_nodes = map (\<lambda>(k, n). node_toJSON n) (nodes c),
      sn_connections = map connection_toJSON (connections c)\<rparr>"

definition editor_toJSON :: "'u editor \<Rightarrow> snapshot" where
  "editor_toJSON ed = core_toJSON (core ed)"

definition editor_clear :: "'u editor \<Rightarrow> 'u editor" where
  "editor_clear ed =
     editor_emit ''onChange'' (Change ''clear'' DNone)
       (update_core (\<lambda>c. c\<lparr>nodes := [], connections := [], idCounter := 0\<rparr>) ed)"

text \<open>
  The loop over the nodes of a snapshot. It stops with an exception at the first node of an unknown
  type, and at a node without an id, where \<open>node.id.replace\<close> throws (the entry the \<open>Map\<close> then has
  under the key null is not represented). The second result is the state at that point.
\<close>

fun load_nodes :: "node_json list \<Rightarrow> nat \<Rightarrow> editor_core \<Rightarrow> (js_error + nat) \<times> editor_core" where
  "load_nodes [] maxId c = (Inr maxId, c)"
| "load_nodes (d # ds) maxId c =
     (case node_fromJSON d (nodeRegistry c) of
        Inl e \<Rightarrow> (Inl e, c)
      | Inr n \<Rightarrow>
          (case node_id n of
             None \<Rightarrow> (Inl (JsError ''TypeError''), c)
           | Some i \<Rightarrow>
               load_nodes ds
                 (case id_number i of Some k \<Rightarrow> if k > maxId then k else maxId | None \<Rightarrow> maxId)
                 (c\<lparr>nodes := map_set i n (nodes c)\<rparr>)))"

definition editor_fromJSON :: "snapshot \<Rightarrow> 'u editor \<Rightarrow> (js_error + unit) \<times> 'u editor" where
  "editor_fromJSON data ed =
     (let ed1 = editor_clear ed
      in case load_nodes (sn_nodes data) 0 (core ed1) of
           (Inl e, c) \<Rightarrow> (Inl e, ed1\<lparr>core := c\<rparr>)
         | (Inr maxId, c) \<Rightarrow>
             (Inr (), editor_emit ''onChange'' (Change ''load'' DNone)
                (ed1\<lparr>core := c\<lparr>idCounter := maxId,
                              connections := connections c @ map connection_fromJSON (sn_connections data)\<rparr>\<rparr>)))"

definition registerNodes :: "node_class list \<Rightarrow> 'u editor \<Rightarrow> 'u editor" where
  "registerNodes cs ed =
     update_core (\<lambda>c. c\<lparr>nodeRegistry := foldl (\<lambda>r C. obj_set (cls_nodeType C) C r) (nodeRegistry c) cs\<rparr>) ed"

end
