(* ===== verification/Editor_Inv.thy ===== *)
theory Editor_Inv
  imports Editor
begin

section \<open>The invariant of the workflow graph\<close>

text \<open>
  What the editor keeps true of its data, and that each operation keeps it: node keys are the ids of
  the nodes and are distinct, every connection joins two present nodes through compatible sockets
  and never a node with itself, connection ids are those of the end points and distinct, and the id
  counter is not behind any id in use, so that generated ids are fresh.
\<close>

definition conn_ok :: "editor_core \<Rightarrow> connection \<Rightarrow> bool" where
  "conn_ok c k \<longleftrightarrow>
     (case (map_of (nodes c) (source k), map_of (nodes c) (target k)) of
        (Some s, Some t) \<Rightarrow>
          (case (map_of (outputs s) (sourceHandle k), map_of (inputs t) (targetHandle k)) of
             (Some out, Some inp) \<Rightarrow> isCompatible (sd_socket out) (Some (sd_socket inp))
           | _ \<Rightarrow> False)
      | _ \<Rightarrow> False)
     \<and> source k \<noteq> target k
     \<and> conn_id k = generateId (source k) (sourceHandle k) (target k) (targetHandle k)"

definition ids_below :: "nat \<Rightarrow> string list \<Rightarrow> bool" where
  "ids_below b ks \<longleftrightarrow> list_all (\<lambda>k. case id_number k of Some i \<Rightarrow> i \<le> b | None \<Rightarrow> True) ks"

definition nodes_wf :: "editor_core \<Rightarrow> bool" where
  "nodes_wf c \<longleftrightarrow> distinct (map_keys (nodes c))
     \<and> list_all (\<lambda>(k, n). k \<noteq> [] \<and> node_id n = Some k) (nodes c)
     \<and> ids_below (idCounter c) (map_keys (nodes c))"

definition conns_wf :: "editor_core \<Rightarrow> bool" where
  "conns_wf c \<longleftrightarrow> distinct (map conn_id (connections c)) \<and> list_all (conn_ok c) (connections c)"

definition core_wf :: "editor_core \<Rightarrow> bool" where
  "core_wf c \<longleftrightarrow> nodes_wf c \<and> conns_wf c"

subsection \<open>Emitting an event changes neither the data nor the subscriptions\<close>

lemma run_callbacks_simps [simp]:
  "core (run_callbacks cbs p ed) = core ed"
  "callbacks (run_callbacks cbs p ed) = callbacks ed"
  by (simp_all add: run_callbacks_def)

lemma editor_emit_simps [simp]:
  "core (editor_emit event p ed) = core ed"
  "callbacks (editor_emit event p ed) = callbacks ed"
  by (simp_all add: editor_emit_def Let_def split: option.splits)

lemma emit_all_simps [simp]:
  "core (foldl (\<lambda>e c. editor_emit ev (f c) e) ed ks) = core ed"
  "callbacks (foldl (\<lambda>e c. editor_emit ev (f c) e) ed ks) = callbacks ed"
  by (induction ks arbitrary: ed) auto

subsection \<open>Ids\<close>

lemma id_number_generated [simp]: "id_number (''n_'' @ show_nat n) = Some n"
  by (simp add: id_number_def is_digit_def)

lemma ids_below_mono: "ids_below b ks \<Longrightarrow> b \<le> b' \<Longrightarrow> ids_below b' ks"
  by (fastforce simp: ids_below_def list_all_iff split: option.splits)

text \<open>The id \<open>_generateId\<close> returns is not in use.\<close>

lemma generated_id_fresh:
  assumes "ids_below (idCounter c) ks"
  shows "fst (generate_node_id c) \<notin> set ks"
proof
  assume "fst (generate_node_id c) \<in> set ks"
  then have "''n_'' @ show_nat (Suc (idCounter c)) \<in> set ks" by (simp add: generate_node_id_def)
  with assms have "Suc (idCounter c) \<le> idCounter c"
    unfolding ids_below_def list_all_iff using id_number_generated [of "Suc (idCounter c)"] by force
  then show False by simp
qed

subsection \<open>Changing nodes\<close>

text \<open>A change of the node map that keeps the sockets of the nodes of the connections keeps the
  connections well formed.\<close>

definition same_sockets :: "editor_core \<Rightarrow> editor_core \<Rightarrow> string \<Rightarrow> bool" where
  "same_sockets c c' i \<longleftrightarrow>
     map_option (\<lambda>n. (inputs n, outputs n)) (map_of (nodes c') i)
       = map_option (\<lambda>n. (inputs n, outputs n)) (map_of (nodes c) i)"

lemma conn_ok_cong:
  assumes "same_sockets c c' (source k)" and "same_sockets c c' (target k)"
  shows "conn_ok c' k = conn_ok c k"
  using assms
  by (auto simp: conn_ok_def same_sockets_def split: option.splits)

lemma conns_wf_cong:
  assumes "connections c' = connections c"
    and "\<And>k i. k \<in> set (connections c) \<Longrightarrow> involvesNode k i \<Longrightarrow> same_sockets c c' i"
    and "conns_wf c"
  shows "conns_wf c'"
  using assms conn_ok_cong [of c c'] by (simp add: conns_wf_def list_all_iff involvesNode_def)

lemma conns_wf_endpoint:
  assumes "conns_wf c" and "k \<in> set (connections c)" and "involvesNode k i"
  shows "i \<in> set (map_keys (nodes c))"
proof -
  from assms have "map_of (nodes c) i \<noteq> None"
    by (auto simp: conns_wf_def list_all_iff conn_ok_def involvesNode_def split: option.splits)
  then show ?thesis by (simp add: map_of_eq_None_iff)
qed

text \<open>Storing a node under its id: a fresh id, or the id of a node with the same sockets.\<close>

lemma core_wf_set_node:
  assumes wf: "core_wf c" and i: "i \<noteq> []" "node_id n = Some i"
    and below: "case id_number i of Some k \<Rightarrow> k \<le> b | None \<Rightarrow> True" and b: "idCounter c \<le> b"
    and old: "\<And>m. map_of (nodes c) i = Some m \<Longrightarrow> inputs n = inputs m \<and> outputs n = outputs m"
  shows "core_wf (c\<lparr>nodes := map_set i n (nodes c), idCounter := b\<rparr>)"
proof -
  let ?c = "c\<lparr>nodes := map_set i n (nodes c), idCounter := b\<rparr>"
  have keys: "set (map_keys (nodes ?c)) = insert i (set (map_keys (nodes c)))"
    using jsm.set_keys_put [of i n "nodes c"] by simp
  have "list_all (\<lambda>(k, n). k \<noteq> [] \<and> node_id n = Some k) (map_set i n (nodes c))"
    if "list_all (\<lambda>(k, n). k \<noteq> [] \<and> node_id n = Some k) (nodes c)"
    using that i by (intro list_all_map_set) auto
  moreover have "ids_below b (map_keys (nodes ?c))"
  proof -
    have "ids_below b (map_keys (nodes c))"
      using wf by (intro ids_below_mono [OF _ b]) (simp add: core_wf_def nodes_wf_def)
    then show ?thesis using below keys by (simp add: ids_below_def list_all_iff)
  qed
  ultimately have "nodes_wf ?c"
    using wf jsm.distinct_put [of "nodes c" i n] by (simp add: core_wf_def nodes_wf_def)
  moreover have "conns_wf ?c"
  proof (rule conns_wf_cong [where c = c])
    show "conns_wf c" using wf by (simp add: core_wf_def)
    fix k j assume "k \<in> set (connections c)" "involvesNode k j"
    then have "j \<in> set (map_keys (nodes c))"
      by (rule conns_wf_endpoint [rotated]) (use wf in \<open>simp add: core_wf_def\<close>)
    then have "map_of (nodes c) j \<noteq> None" by (simp add: map_of_eq_None_iff)
    then obtain m where "map_of (nodes c) j = Some m" by blast
    with old show "same_sockets c ?c j"
      by (cases "j = i") (auto simp: same_sockets_def jsm.get_put)
  qed simp
  ultimately show ?thesis by (simp add: core_wf_def)
qed

lemma core_wf_update_node:
  assumes wf: "core_wf c" and n: "map_of (nodes c) i = Some m"
    and same: "node_id n = node_id m" "inputs n = inputs m" "outputs n = outputs m"
  shows "core_wf (c\<lparr>nodes := map_set i n (nodes c)\<rparr>)"
proof -
  from wf n have i: "i \<noteq> []" "node_id m = Some i"
    by (auto simp: core_wf_def nodes_wf_def list_all_iff dest!: map_of_SomeD)
  have "i \<in> set (map_keys (nodes c))" using n by (force dest: map_of_SomeD)
  with wf have "case id_number i of Some k \<Rightarrow> k \<le> idCounter c | None \<Rightarrow> True"
    by (auto simp: core_wf_def nodes_wf_def ids_below_def list_all_iff)
  with core_wf_set_node [OF wf i(1), of n "idCounter c"] n same i(2) show ?thesis by simp
qed

subsection \<open>The operations on nodes\<close>

text \<open>What a class must make: a node without id. Every class of the sources does, since only the
  editor and the adapter assign ids.\<close>

definition class_ok :: "node_class \<Rightarrow> bool" where
  "class_ok C \<longleftrightarrow> node_id (new_node C) = None"

lemma core_addNode_class:
  assumes "class_ok C"
  shows "core_addNode (Inr C) p c =
    (let i = ''n_'' @ show_nat (Suc (idCounter c)); n = (new_node C)\<lparr>node_id := Some i, position := p\<rparr>
     in (n, c\<lparr>nodes := map_set i n (nodes c), idCounter := Suc (idCounter c)\<rparr>))"
  using assms by (simp add: core_addNode_def class_ok_def generate_node_id_def Let_def)

lemma core_addNode_class_fresh:
  assumes "core_wf c" shows "''n_'' @ show_nat (Suc (idCounter c)) \<notin> set (map_keys (nodes c))"
  using generated_id_fresh [of c "map_keys (nodes c)"] assms
  by (simp add: core_wf_def nodes_wf_def generate_node_id_def)

lemma core_addNode_class_wf:
  assumes wf: "core_wf c" and C: "class_ok C"
  shows "core_wf (snd (core_addNode (Inr C) p c))"
proof -
  let ?i = "''n_'' @ show_nat (Suc (idCounter c))"
  let ?n = "(new_node C)\<lparr>node_id := Some ?i, position := p\<rparr>"
  have "map_of (nodes c) ?i = None"
    using core_addNode_class_fresh [OF wf] by (simp add: map_of_eq_None_iff)
  then have "core_wf (c\<lparr>nodes := map_set ?i ?n (nodes c), idCounter := Suc (idCounter c)\<rparr>)"
    using id_number_generated [of "Suc (idCounter c)"] by (intro core_wf_set_node [OF wf]) auto
  then show ?thesis by (simp add: core_addNode_class [OF C] Let_def)
qed

lemma editor_addNode_core [simp]: "core (snd (editor_addNode x p ed)) = snd (core_addNode x p (core ed))"
  by (simp add: editor_addNode_def split_beta)

lemma editor_removeNode_core:
  "core (snd (editor_removeNode i ed)) =
     (if map_of (nodes (core ed)) i = None then core ed
      else (core ed)\<lparr>nodes := map_del i (nodes (core ed)),
                     connections := filter (\<lambda>k. \<not> involvesNode k i) (connections (core ed))\<rparr>)"
  by (simp add: editor_removeNode_def Let_def split: option.splits)

lemma core_wf_removeNode:
  assumes wf: "core_wf c"
  shows "core_wf (c\<lparr>nodes := map_del i (nodes c), connections := filter (\<lambda>k. \<not> involvesNode k i) (connections c)\<rparr>)"
proof -
  let ?c = "c\<lparr>nodes := map_del i (nodes c), connections := filter (\<lambda>k. \<not> involvesNode k i) (connections c)\<rparr>"
  have "nodes_wf ?c"
    using wf jsm.distinct_remove [of "nodes c" i]
    by (auto simp: core_wf_def nodes_wf_def list_all_iff ids_below_def set_map_del)
  moreover have "conn_ok ?c k" if "k \<in> set (connections ?c)" for k
  proof -
    from that have k: "k \<in> set (connections c)" "\<not> involvesNode k i" by auto
    then have "same_sockets c ?c (source k)" "same_sockets c ?c (target k)"
      by (auto simp: same_sockets_def jsm.get_remove involvesNode_def)
    from conn_ok_cong [OF this] k(1) wf show ?thesis
      by (simp add: core_wf_def conns_wf_def list_all_iff)
  qed
  then have "conns_wf ?c"
    using wf by (auto simp: core_wf_def conns_wf_def list_all_iff distinct_map_filter)
  ultimately show ?thesis by (simp add: core_wf_def)
qed

lemma editor_update_core:
  "core (snd (editor_updateNodePosition i p ed)) =
     (case map_of (nodes (core ed)) i of None \<Rightarrow> core ed
      | Some n \<Rightarrow> (core ed)\<lparr>nodes := map_set i (n\<lparr>position := p\<rparr>) (nodes (core ed))\<rparr>)"
  "core (snd (editor_setNodeMeta i m ed)) =
     (case map_of (nodes (core ed)) i of None \<Rightarrow> core ed
      | Some n \<Rightarrow> (core ed)\<lparr>nodes := map_set i (n\<lparr>meta := merge_meta (meta n) m\<rparr>) (nodes (core ed))\<rparr>)"
  "core (snd (editor_setNodeLabel i l ed)) =
     (case map_of (nodes (core ed)) i of None \<Rightarrow> core ed
      | Some n \<Rightarrow> (core ed)\<lparr>nodes := map_set i (n\<lparr>node_label := l\<rparr>) (nodes (core ed))\<rparr>)"
  by (simp_all add: editor_updateNodePosition_def editor_setNodeMeta_def editor_setNodeLabel_def Let_def
        split: option.splits)

subsection \<open>The operations on connections\<close>

text \<open>\<open>addConnection\<close> succeeds exactly for two different present nodes, through present and
  compatible sockets, and when no connection has the id yet.\<close>

definition connectable :: "string \<Rightarrow> string \<Rightarrow> string \<Rightarrow> string \<Rightarrow> editor_core \<Rightarrow> bool" where
  "connectable a h b g c \<longleftrightarrow>
     conn_ok c (new_Connection a h b g) \<and> generateId a h b g \<notin> set (map conn_id (connections c))"

lemma core_addConnection_iff:
  "core_addConnection a h b g c = (if connectable a h b g c then Some (new_Connection a h b g) else None)"
  by (auto simp: core_addConnection_def connectable_def conn_ok_def new_Connection_def list_ex_iff
        intro: rev_image_eqI split: option.splits)

lemma conns_wf_add:
  assumes wf: "core_wf c" and k: "connectable a h b g c"
  shows "core_wf (c\<lparr>connections := connections c @ [new_Connection a h b g]\<rparr>)"
proof -
  let ?c = "c\<lparr>connections := connections c @ [new_Connection a h b g]\<rparr>"
  have ok: "conn_ok ?c x = conn_ok c x" for x by (intro conn_ok_cong) (simp_all add: same_sockets_def)
  have "conn_id (new_Connection a h b g) = generateId a h b g" by (simp add: new_Connection_def)
  with wf k ok show ?thesis
    by (auto simp: core_wf_def nodes_wf_def conns_wf_def connectable_def list_all_iff)
qed

lemma remove_first_set: "set (remove_first p xs) \<subseteq> set xs"
  by (induction xs) auto

lemma remove_first_distinct: "distinct (map f xs) \<Longrightarrow> distinct (map f (remove_first p xs))"
proof (induction xs)
  case (Cons x xs)
  then show ?case using remove_first_set [of p xs] by auto
qed simp

text \<open>With distinct ids, removing the first match is filtering.\<close>

lemma remove_first_filter:
  "distinct (map f xs) \<Longrightarrow> remove_first (\<lambda>x. f x = a) xs = filter (\<lambda>x. f x \<noteq> a) xs"
proof (induction xs)
  case (Cons x xs)
  have "f x = a \<Longrightarrow> filter (\<lambda>x. f x \<noteq> a) xs = xs"
    using Cons.prems by (intro filter_True ballI) (auto simp: image_iff)
  with Cons show ?case by auto
qed simp

lemma conns_wf_remove:
  assumes "core_wf c" shows "core_wf (c\<lparr>connections := remove_first p (connections c)\<rparr>)"
proof -
  let ?c = "c\<lparr>connections := remove_first p (connections c)\<rparr>"
  have "conn_ok ?c x = conn_ok c x" for x by (intro conn_ok_cong) (simp_all add: same_sockets_def)
  with assms remove_first_set [of p "connections c"] remove_first_distinct [of conn_id "connections c" p]
  show ?thesis by (auto simp: core_wf_def nodes_wf_def conns_wf_def list_all_iff)
qed

lemma editor_conn_core:
  "core (snd (editor_addConnection a h b g ed)) =
     (if connectable a h b g (core ed)
      then (core ed)\<lparr>connections := connections (core ed) @ [new_Connection a h b g]\<rparr> else core ed)"
  "fst (editor_addConnection a h b g ed) =
     (if connectable a h b g (core ed) then Some (new_Connection a h b g) else None)"
  "core (snd (editor_removeConnection i ed)) =
     (if i \<in> set (map conn_id (connections (core ed)))
      then (core ed)\<lparr>connections := remove_first (\<lambda>k. conn_id k = i) (connections (core ed))\<rparr> else core ed)"
  "fst (editor_removeConnection i ed) = (i \<in> set (map conn_id (connections (core ed))))"
  by (auto simp: editor_addConnection_def core_addConnection_iff editor_removeConnection_def
        find_None_iff find_Some_iff split: option.splits)

subsection \<open>Loading a snapshot\<close>

fun max_id :: "string list \<Rightarrow> nat \<Rightarrow> nat" where
  "max_id [] b = b"
| "max_id (k # ks) b = max_id ks (case id_number k of Some i \<Rightarrow> if i > b then i else b | None \<Rightarrow> b)"

lemma max_id_ge: "b \<le> max_id ks b"
proof (induction ks arbitrary: b)
  case (Cons k ks)
  show ?case using Cons.IH [of b] order_trans [OF _ Cons.IH] by (auto split: option.splits)
qed simp

lemma ids_below_max_id: "ids_below (max_id ks b) ks"
proof (induction ks arbitrary: b)
  case (Cons k ks)
  have "case id_number k of Some i \<Rightarrow> i \<le> max_id (k # ks) b | None \<Rightarrow> True"
    using max_id_ge [of "case id_number k of Some i \<Rightarrow> if i > b then i else b | None \<Rightarrow> b" ks]
    by (auto split: option.splits if_splits)
  with Cons show ?case by (cases "id_number k") (simp_all add: ids_below_def)
qed (simp add: ids_below_def)

text \<open>The nodes a snapshot can restore exactly: instances of the class their type is registered
  for, with a title.\<close>

definition restorable :: "(string \<times> node_class) list \<Rightarrow> (string \<times> node) \<Rightarrow> bool" where
  "restorable reg kn \<longleftrightarrow>
     (case map_of reg (node_type (snd kn)) of
        None \<Rightarrow> False | Some C \<Rightarrow> instance_of C (snd kn) \<and> node_label (snd kn) \<noteq> [])"

lemma load_nodes_toJSON:
  assumes "list_all (restorable (nodeRegistry c)) ns" and "list_all (\<lambda>(k, n). node_id n = Some k) ns"
    and "distinct (map_keys (nodes c @ ns))"
  shows "load_nodes (map (\<lambda>(k, n). node_toJSON n) ns) b c
    = (Inr (max_id (map_keys ns) b), c\<lparr>nodes := nodes c @ ns\<rparr>)"
  using assms
proof (induction ns arbitrary: b c)
  case (Cons kn ns)
  obtain k n where kn: "kn = (k, n)" by (cases kn)
  with Cons.prems obtain C where C: "map_of (nodeRegistry c) (node_type n) = Some C" "instance_of C n"
      "node_label n \<noteq> []" and k: "node_id n = Some k"
    by (auto simp: restorable_def split: option.splits)
  have "k \<notin> set (map_keys (nodes c))" using Cons.prems(3) kn by auto
  then have set: "map_set k n (nodes c) = nodes c @ [kn]" by (simp add: map_set_fresh kn)
  show ?case
    using Cons.IH [of "c\<lparr>nodes := nodes c @ [kn]\<rparr>"] Cons.prems kn k set node_roundtrip [OF C(2,1,3)]
    by simp
qed simp

text \<open>Whatever the snapshot, loading it leaves a well-formed node map: the keys are the ids, they
  are distinct, and the counter is not behind them.\<close>

lemma load_nodes_wf:
  assumes "load_nodes ds b c = (Inr m, c')"
    and "distinct (map_keys (nodes c))" and "list_all (\<lambda>(k, n). node_id n = Some k) (nodes c)"
    and "ids_below b (map_keys (nodes c))"
  shows "distinct (map_keys (nodes c')) \<and> list_all (\<lambda>(k, n). node_id n = Some k) (nodes c')
    \<and> ids_below m (map_keys (nodes c')) \<and> connections c' = connections c"
  using assms
proof (induction ds arbitrary: b c)
  case (Cons d ds)
  from Cons.prems(1) obtain n i where n: "node_fromJSON d (nodeRegistry c) = Inr n" "node_id n = Some i"
    by (auto split: sum.splits option.splits)
  let ?b = "case id_number i of Some k \<Rightarrow> if k > b then k else b | None \<Rightarrow> b"
  let ?c = "c\<lparr>nodes := map_set i n (nodes c)\<rparr>"
  have "ids_below ?b (map_keys (nodes c))"
    using Cons.prems(4) by (rule ids_below_mono) (auto split: option.splits)
  then have below: "ids_below ?b (map_keys (nodes ?c))"
    using jsm.set_keys_put [of i n "nodes c"] by (auto simp: ids_below_def list_all_iff split: option.splits)
  have "load_nodes ds ?b ?c = (Inr m, c')" using Cons.prems(1) n by simp
  from Cons.IH [OF this _ _ below] Cons.prems n show ?case
    using jsm.distinct_put [of "nodes c" i n] list_all_map_set [of _ "nodes c" i n] by simp
qed simp

lemma core_editor_clear [simp]:
  "core (editor_clear ed) = (core ed)\<lparr>nodes := [], connections := [], idCounter := 0\<rparr>"
  by (simp add: editor_clear_def)

definition conn_restorable :: "connection \<Rightarrow> bool" where
  "conn_restorable k \<longleftrightarrow> conn_id k \<noteq> [] \<and> plain_meta [''label'', ''animated''] (conn_meta k)"

lemma editor_fromJSON_toJSON_core:
  assumes "nodes_wf c" and "list_all (restorable (nodeRegistry (core ed))) (nodes c)"
    and "list_all conn_restorable (connections c)"
  shows "fst (editor_fromJSON (core_toJSON c) ed) = Inr ()"
    and "core (snd (editor_fromJSON (core_toJSON c) ed)) =
      (core ed)\<lparr>nodes := nodes c, connections := connections c, idCounter := max_id (map_keys (nodes c)) 0\<rparr>"
proof -
  let ?c0 = "(core ed)\<lparr>nodes := [], connections := [], idCounter := 0\<rparr>"
  have "list_all (\<lambda>(k, n). node_id n = Some k) (nodes c)" and "distinct (map_keys (nodes c))"
    using assms(1) by (auto simp: nodes_wf_def list_all_iff)
  with assms(2) load_nodes_toJSON [of ?c0 "nodes c" 0]
  have load: "load_nodes (map (\<lambda>(k, n). node_toJSON n) (nodes c)) 0 ?c0
      = (Inr (max_id (map_keys (nodes c)) 0), ?c0\<lparr>nodes := nodes c\<rparr>)"
    by simp
  have conns: "map (connection_fromJSON \<circ> connection_toJSON) (connections c) = connections c"
    using assms(3) by (intro map_idI) (simp add: conn_restorable_def list_all_iff connection_roundtrip)
  show "fst (editor_fromJSON (core_toJSON c) ed) = Inr ()"
    using load by (simp add: editor_fromJSON_def core_toJSON_def Let_def)
  show "core (snd (editor_fromJSON (core_toJSON c) ed)) =
      (core ed)\<lparr>nodes := nodes c, connections := connections c, idCounter := max_id (map_keys (nodes c)) 0\<rparr>"
    using load conns by (simp add: editor_fromJSON_def core_toJSON_def Let_def)
qed

subsection \<open>Properties\<close>

text \<open>C9: \<open>addConnection\<close> adds a connection exactly when both nodes and both sockets exist, the sockets are
  compatible, the ends differ and no connection has the same id; it then appends that connection and
  returns it, and otherwise returns null and changes nothing. In both cases a well-formed graph stays
  well-formed.\<close>

theorem addConnection_spec:
  assumes "core_wf (core ed)"
  shows "fst (editor_addConnection a h b g ed) = (if connectable a h b g (core ed) then Some (new_Connection a h b g) else None)
    \<and> core (snd (editor_addConnection a h b g ed)) =
        (if connectable a h b g (core ed)
         then (core ed)\<lparr>connections := connections (core ed) @ [new_Connection a h b g]\<rparr> else core ed)
    \<and> core_wf (core (snd (editor_addConnection a h b g ed)))"
  using assms conns_wf_add by (auto simp: editor_conn_core)

theorem addConnection_spec_witness:
  "core_wf \<lparr>nodes = [], connections = [], nodeRegistry = [], idCounter = 0\<rparr>
   \<and> fst (editor_addConnection ''n_1'' ''output'' ''n_2'' ''data'' (new_WorkflowEditor [] ())) = None"
proof -
  have wf: "core_wf \<lparr>nodes = [], connections = [], nodeRegistry = [], idCounter = 0\<rparr>"
    by (simp add: core_wf_def nodes_wf_def conns_wf_def ids_below_def)
  then have "core_wf (core (new_WorkflowEditor [] ()))" by (simp add: new_WorkflowEditor_def)
  from addConnection_spec [OF this, of "''n_1''" "''output''" "''n_2''" "''data''"] wf show ?thesis
    by (simp add: connectable_def conn_ok_def new_WorkflowEditor_def)
qed

text \<open>C10: Removing a node removes it and exactly the connections at it; the other nodes and connections stay, in
  their order, and no connection of the remaining graph refers to a missing node.\<close>

theorem removeNode_no_dangling:
  assumes "core_wf (core ed)" and "i \<in> set (map_keys (nodes (core ed)))"
  shows "fst (editor_removeNode i ed)
    \<and> map_of (nodes (core (snd (editor_removeNode i ed)))) = (map_of (nodes (core ed)))(i := None)
    \<and> connections (core (snd (editor_removeNode i ed))) = filter (\<lambda>k. \<not> involvesNode k i) (connections (core ed))
    \<and> (\<forall>k \<in> set (connections (core (snd (editor_removeNode i ed)))).
         source k \<in> set (map_keys (nodes (core (snd (editor_removeNode i ed)))))
         \<and> target k \<in> set (map_keys (nodes (core (snd (editor_removeNode i ed))))))"
proof -
  from assms(2) obtain n where n: "map_of (nodes (core ed)) i = Some n" by (metis map_of_eq_None_iff not_None_eq set_map)
  have c: "core (snd (editor_removeNode i ed)) = (core ed)\<lparr>nodes := map_del i (nodes (core ed)),
      connections := filter (\<lambda>k. \<not> involvesNode k i) (connections (core ed))\<rparr>"
    using n by (simp add: editor_removeNode_core)
  have "core_wf (core (snd (editor_removeNode i ed)))" unfolding c by (rule core_wf_removeNode [OF assms(1)])
  then have wf: "conns_wf (core (snd (editor_removeNode i ed)))" by (simp add: core_wf_def)
  have "fst (editor_removeNode i ed)" using n by (simp add: editor_removeNode_def Let_def)
  moreover have "source k \<in> set (map_keys (nodes (core (snd (editor_removeNode i ed)))))
      \<and> target k \<in> set (map_keys (nodes (core (snd (editor_removeNode i ed)))))"
    if "k \<in> set (connections (core (snd (editor_removeNode i ed))))" for k
    using conns_wf_endpoint [OF wf that] by (simp add: involvesNode_def)
  ultimately show ?thesis unfolding c by (simp add: jsm.get_remove)
qed

theorem removeNode_no_dangling_witness:
  "\<exists>ed :: unit editor. core_wf (core ed) \<and> ''n_1'' \<in> set (map_keys (nodes (core ed)))
     \<and> connections (core (snd (editor_removeNode ''n_1'' ed))) = []"
proof -
  let ?C = "\<lparr>cls_nodeType = ''t'', cls_label = ''T'', cls_icon = [], cls_category = [], cls_description = [], cls_group = [], cls_body = id\<rparr>"
  let ?ed = "snd (editor_addNode (Inr ?C) (0, 0) (new_WorkflowEditor [] ()))"
  have c0: "core (new_WorkflowEditor [] ()) = \<lparr>nodes = [], connections = [], nodeRegistry = [], idCounter = 0\<rparr>"
    by (simp add: new_WorkflowEditor_def)
  have ok: "class_ok ?C" by (simp add: class_ok_def new_node_def new_BaseNode_def)
  have "core_wf (core (new_WorkflowEditor [] ()))"
    unfolding c0 by (simp add: core_wf_def nodes_wf_def conns_wf_def ids_below_def)
  from core_addNode_class_wf [OF this ok] have wf: "core_wf (core ?ed)" by simp
  have "show_nat (Suc 0) = ''1''" by code_simp
  then have k: "''n_1'' \<in> set (map_keys (nodes (core ?ed)))" "connections (core ?ed) = []"
    by (simp_all add: core_addNode_class [OF ok] c0 Let_def map_set_def)
  from removeNode_no_dangling [OF wf k(1)] k(2)
  have "connections (core (snd (editor_removeNode ''n_1'' ?ed))) = []" by simp
  with wf k(1) show ?thesis by blast
qed

end
