(* ===== verification/Adapter.thy ===== *)
theory Adapter
  imports Editor_Inv
begin

section \<open>The adapter (core/adapter.js)\<close>

text \<open>
  The bridge between the editor and the user interface: it owns an editor, subscribes one callback
  to its \<open>onChange\<close> event, and keeps in its reactive state a mirror of the graph made of plain
  objects. The adapter is thus an editor whose observer state is that mirror. The registry of node
  types of the host framework is not part of the sources: it is the argument \<open>odoo\<close>, the entries
  the framework returns, each already resolved to its class.
\<close>

subsection \<open>The mirror\<close>

record ui_node =
  ui_id :: "string option"
  ui_type :: string
  ui_title :: string
  ui_titleIsCustom :: bool
  ui_x :: rat
  ui_y :: rat
  ui_icon :: string
  ui_category :: string
  ui_inputs :: "(string \<times> string option) list"
  ui_outputs :: "(string \<times> string option) list"
  ui_disabled :: bool

record ui_conn =
  uc_id :: string
  uc_source :: string
  uc_sourceHandle :: string
  uc_target :: string
  uc_targetHandle :: string

record ui_state =
  ui_nodes :: "ui_node list"
  ui_conns :: "ui_conn list"

definition socketsToUI :: "(string \<times> socket_def) list \<Rightarrow> (string \<times> string option) list" where
  "socketsToUI sockets = foldl (\<lambda>acc (key, s). obj_set key (sd_label s) acc) [] sockets"

definition node_to_ui :: "node \<Rightarrow> ui_node" where
  "node_to_ui n =
     \<lparr>ui_id = node_id n, ui_type = node_type n, ui_title = node_label n,
      ui_titleIsCustom = truthy (js_prop (js_prop (JObj (meta n)) ''ui'') ''titleIsCustom''),
      ui_x = fst (position n), ui_y = snd (position n), ui_icon = icon n, ui_category = category n,
      ui_inputs = socketsToUI (inputs n), ui_outputs = socketsToUI (outputs n),
      ui_disabled = (js_prop (JObj (meta n)) ''disabled'' = JBool True)\<rparr>"

definition getNodesForUI :: "editor_core \<Rightarrow> ui_node list" where
  "getNodesForUI c = map node_to_ui (map snd (nodes c))"

definition conn_to_ui :: "connection \<Rightarrow> ui_conn" where
  "conn_to_ui k = \<lparr>uc_id = conn_id k, uc_source = source k, uc_sourceHandle = sourceHandle k,
                   uc_target = target k, uc_targetHandle = targetHandle k\<rparr>"

definition getConnectionsForUI :: "editor_core \<Rightarrow> ui_conn list" where
  "getConnectionsForUI c = map conn_to_ui (connections c)"

definition mirror :: "editor_core \<Rightarrow> ui_state" where
  "mirror c = \<lparr>ui_nodes = getNodesForUI c, ui_conns = getConnectionsForUI c\<rparr>"

type_synonym adapter = "ui_state editor"

definition syncState :: "adapter \<Rightarrow> adapter" where
  "syncState a = a\<lparr>observer := mirror (core a)\<rparr>"

text \<open>The callback the constructor subscribes: a move is skipped, \<open>updatePosition\<close> handles it.\<close>

definition sync_callback :: "ed_payload \<Rightarrow> editor_core \<Rightarrow> ui_state \<Rightarrow> ui_state" where
  "sync_callback p c u =
     (case p of
        Change event d \<Rightarrow> if event = ''onNodeMove'' then u else mirror c
      | Direct d \<Rightarrow> mirror c)"

definition buildNodeRegistryFromOdoo :: "(string \<times> node_class) list \<Rightarrow> (string \<times> node_class) list" where
  "buildNodeRegistryFromOdoo odoo = foldl (\<lambda>reg (key, C). obj_set key C reg) [] odoo"

definition new_WorkflowAdapter :: "(string \<times> node_class) list \<Rightarrow> adapter" where
  "new_WorkflowAdapter odoo =
     editor_on ''onChange'' (0, sync_callback)
       (new_WorkflowEditor (buildNodeRegistryFromOdoo odoo) \<lparr>ui_nodes = [], ui_conns = []\<rparr>)"

subsection \<open>Operations\<close>

definition adapter_getNodeClass :: "(string \<times> node_class) list \<Rightarrow> string \<Rightarrow> node_class option" where
  "adapter_getNodeClass odoo type = map_of odoo type"

definition adapter_addNode ::
    "(string \<times> node_class) list \<Rightarrow> string \<Rightarrow> position \<Rightarrow> adapter \<Rightarrow> string option \<times> adapter" where
  "adapter_addNode odoo type p a =
     (case adapter_getNodeClass odoo type of
        None \<Rightarrow> (None, a)
      | Some C \<Rightarrow>
          (let (n, a') = editor_addNode (Inr C) p a
           in (case node_id n of Some i \<Rightarrow> if i \<noteq> [] then Some i else None | None \<Rightarrow> None, a')))"

definition adapter_addNodeWithId ::
    "(string \<times> node_class) list \<Rightarrow> string \<Rightarrow> position \<Rightarrow> string \<Rightarrow> jsobj option \<Rightarrow> adapter
       \<Rightarrow> string option \<times> adapter" where
  "adapter_addNodeWithId odoo type p forcedId config a =
     (case adapter_getNodeClass odoo type of
        None \<Rightarrow> (None, a)
      | Some C \<Rightarrow>
          (let n0 = (new_node C)\<lparr>node_id := Some forcedId\<rparr>;
               n1 = (case config of None \<Rightarrow> n0 | Some cfg \<Rightarrow> setConfig cfg n0);
               (n, a') = editor_addNode (Inl n1) p a
           in (Some forcedId,
               case id_number forcedId of
                 None \<Rightarrow> a'
               | Some k \<Rightarrow> update_core (\<lambda>c. c\<lparr>idCounter := max (idCounter c) k\<rparr>) a')))"

definition adapter_removeNode :: "string \<Rightarrow> adapter \<Rightarrow> bool \<times> adapter" where
  "adapter_removeNode nodeId a = editor_removeNode nodeId a"

fun update_first :: "('a \<Rightarrow> bool) \<Rightarrow> ('a \<Rightarrow> 'a) \<Rightarrow> 'a list \<Rightarrow> 'a list" where
  "update_first p f [] = []"
| "update_first p f (x # xs) = (if p x then f x # xs else x # update_first p f xs)"

definition adapter_updatePosition :: "string \<Rightarrow> position \<Rightarrow> adapter \<Rightarrow> bool \<times> adapter" where
  "adapter_updatePosition nodeId p a =
     (case editor_getNode nodeId a of
        None \<Rightarrow> (False, a)
      | Some n \<Rightarrow>
          if fst (position n) = fst p \<and> snd (position n) = snd p then (True, a)
          else
            (let (result, a') = editor_updateNodePosition nodeId p a
             in (result,
                 a'\<lparr>observer := (observer a')\<lparr>ui_nodes :=
                      update_first (\<lambda>u. ui_id u = Some nodeId) (\<lambda>u. u\<lparr>ui_x := fst p, ui_y := snd p\<rparr>)
                        (ui_nodes (observer a'))\<rparr>\<rparr>)))"

definition adapter_getNodeConfig :: "string \<Rightarrow> adapter \<Rightarrow> jsobj" where
  "adapter_getNodeConfig nodeId a =
     (case editor_getNode nodeId a of None \<Rightarrow> [] | Some n \<Rightarrow> getConfig n)"

definition adapter_getNodeMeta :: "string \<Rightarrow> adapter \<Rightarrow> jsobj" where
  "adapter_getNodeMeta nodeId a = editor_getNodeMeta nodeId a"

definition adapter_setNodeMeta :: "string \<Rightarrow> jsobj \<Rightarrow> adapter \<Rightarrow> bool \<times> adapter" where
  "adapter_setNodeMeta nodeId metaPatch a = editor_setNodeMeta nodeId metaPatch a"

definition adapter_setNodeLabel :: "string \<Rightarrow> string \<Rightarrow> adapter \<Rightarrow> bool \<times> adapter" where
  "adapter_setNodeLabel nodeId l a =
     (let (result, a') = editor_setNodeLabel nodeId l a
      in (result, if result then syncState a' else a'))"

definition adapter_setNodeConfig :: "string \<Rightarrow> jsobj \<Rightarrow> adapter \<Rightarrow> bool \<times> adapter" where
  "adapter_setNodeConfig nodeId config a =
     (case editor_getNode nodeId a of
        None \<Rightarrow> (False, a)
      | Some n \<Rightarrow>
          (True, syncState (update_core (\<lambda>c. c\<lparr>nodes := map_set nodeId (setConfig config n) (nodes c)\<rparr>) a)))"

definition control_view :: "string \<times> control \<Rightarrow> jsobj" where
  "control_view kc =
     (let (key, c) = kc; p = opt (props c)
      in [(''key'', JStr key), (''type'', JStr (ctype c)), (''label'', clabel c), (''value'', getValue c),
          (''section'', p ''section''), (''visibleWhen'', p ''visibleWhen''),
          (''suggestions'', suggestions c), (''valueSuggestions'', valueSuggestions c),
          (''expressionSuggestions'', expressionSuggestions c), (''suggestionsByKey'', suggestionsByKey c),
          (''placeholder'', p ''placeholder''), (''multiline'', p ''multiline''), (''options'', p ''options''),
          (''keyPlaceholder'', p ''keyPlaceholder''), (''valuePlaceholder'', p ''valuePlaceholder''),
          (''min'', p ''min''), (''max'', p ''max''), (''step'', p ''step'')])"

definition adapter_getNodeControls :: "string \<Rightarrow> adapter \<Rightarrow> jsobj list" where
  "adapter_getNodeControls nodeId a =
     (case editor_getNode nodeId a of None \<Rightarrow> [] | Some n \<Rightarrow> map control_view (controls n))"

definition adapter_setControlValue :: "string \<Rightarrow> string \<Rightarrow> jsval \<Rightarrow> adapter \<Rightarrow> bool \<times> adapter" where
  "adapter_setControlValue nodeId controlKey v a =
     (case editor_getNode nodeId a of
        None \<Rightarrow> (False, a)
      | Some n \<Rightarrow>
          (case map_of (controls n) controlKey of
             None \<Rightarrow> (False, a)
           | Some c \<Rightarrow>
               (True, update_core (\<lambda>c. c\<lparr>nodes := map_set nodeId (set_control_value controlKey v n) (nodes c)\<rparr>) a)))"

definition adapter_refreshNodeRegistry :: "(string \<times> node_class) list \<Rightarrow> adapter \<Rightarrow> adapter" where
  "adapter_refreshNodeRegistry odoo a =
     update_core (\<lambda>c. c\<lparr>nodeRegistry := buildNodeRegistryFromOdoo odoo\<rparr>) a"

definition adapter_addConnection ::
    "string \<Rightarrow> string \<Rightarrow> string \<Rightarrow> string \<Rightarrow> adapter \<Rightarrow> connection option \<times> adapter" where
  "adapter_addConnection sourceId sourceH targetId targetH a =
     editor_addConnection sourceId sourceH targetId targetH a"

definition adapter_removeConnection :: "string \<Rightarrow> adapter \<Rightarrow> bool \<times> adapter" where
  "adapter_removeConnection connectionId a = editor_removeConnection connectionId a"

definition adapter_clear :: "adapter \<Rightarrow> adapter" where
  "adapter_clear a = editor_clear a"

definition adapter_toJSON :: "adapter \<Rightarrow> snapshot" where
  "adapter_toJSON a = editor_toJSON a"

definition adapter_fromJSON :: "snapshot \<Rightarrow> adapter \<Rightarrow> (js_error + unit) \<times> adapter" where
  "adapter_fromJSON data a = editor_fromJSON data a"

subsection \<open>Sequences of graph operations\<close>

datatype graph_op =
    GAdd string position
  | GAddWithId string position string "jsobj option"
  | GRemove string
  | GMove string position
  | GSetMeta string jsobj
  | GSetLabel string string
  | GSetConfig string jsobj
  | GSetControl string string jsval
  | GConnect string string string string
  | GDisconnect string
  | GRefresh "(string \<times> node_class) list"
  | GClear

fun adapter_step :: "(string \<times> node_class) list \<Rightarrow> graph_op \<Rightarrow> adapter \<Rightarrow> adapter" where
  "adapter_step odoo (GAdd type p) a = snd (adapter_addNode odoo type p a)"
| "adapter_step odoo (GAddWithId type p i cfg) a = snd (adapter_addNodeWithId odoo type p i cfg a)"
| "adapter_step odoo (GRemove i) a = snd (adapter_removeNode i a)"
| "adapter_step odoo (GMove i p) a = snd (adapter_updatePosition i p a)"
| "adapter_step odoo (GSetMeta i m) a = snd (adapter_setNodeMeta i m a)"
| "adapter_step odoo (GSetLabel i l) a = snd (adapter_setNodeLabel i l a)"
| "adapter_step odoo (GSetConfig i cfg) a = snd (adapter_setNodeConfig i cfg a)"
| "adapter_step odoo (GSetControl i k v) a = snd (adapter_setControlValue i k v a)"
| "adapter_step odoo (GConnect a h b g) ad = snd (adapter_addConnection a h b g ad)"
| "adapter_step odoo (GDisconnect i) a = snd (adapter_removeConnection i a)"
| "adapter_step odoo (GRefresh reg) a = adapter_refreshNodeRegistry reg a"
| "adapter_step odoo GClear a = adapter_clear a"

text \<open>When an operation is permitted: a class must not assign an id itself, and the id a restored
  node is forced to must be a free one.\<close>

definition adapter_ok :: "(string \<times> node_class) list \<Rightarrow> graph_op \<Rightarrow> adapter \<Rightarrow> bool" where
  "adapter_ok odoo op a \<longleftrightarrow>
     (case op of
        GAdd type p \<Rightarrow> (case map_of odoo type of Some C \<Rightarrow> class_ok C | None \<Rightarrow> True)
      | GAddWithId type p i cfg \<Rightarrow> i \<noteq> [] \<and> i \<notin> set (map_keys (nodes (core a)))
      | _ \<Rightarrow> True)"

definition wired :: "adapter \<Rightarrow> bool" where
  "wired a \<longleftrightarrow> callbacks a = callbacks (new_WorkflowAdapter [])"

definition adapter_inv :: "adapter \<Rightarrow> bool" where
  "adapter_inv a \<longleftrightarrow> wired a \<and> core_wf (core a) \<and> observer a = mirror (core a)"

end
