(* ===== verification/Adapter_Inv.thy ===== *)
theory Adapter_Inv
  imports Adapter
begin

section \<open>The mirror of the user interface is exact\<close>

text \<open>
  Every operation of the adapter keeps the invariant of the graph and leaves the reactive state
  equal to the projection of the editor's data; the incremental update of a move gives what the full
  refresh would give.
\<close>

lemma wired_new [simp]: "wired (new_WorkflowAdapter odoo)"
  by (simp add: wired_def new_WorkflowAdapter_def new_WorkflowEditor_def editor_on_def obj_set_def)

lemma wired_callbacks:
  "wired a \<Longrightarrow> callbacks a = [(''onNodeAdd'', []), (''onNodeRemove'', []), (''onNodeMove'', []),
     (''onConnectionAdd'', []), (''onConnectionRemove'', []), (''onChange'', [(0, sync_callback)])]"
  by (simp add: wired_def new_WorkflowAdapter_def new_WorkflowEditor_def editor_on_def obj_set_def)

definition graph_event :: "string \<Rightarrow> bool" where
  "graph_event ev \<longleftrightarrow> ev \<in> {''onNodeAdd'', ''onNodeRemove'', ''onConnectionAdd'', ''onConnectionRemove''}"

lemma emit_graph_event:
  assumes "wired a" and "graph_event ev"
  shows "observer (editor_emit ev p a) = mirror (core a)"
  using assms wired_callbacks [OF assms(1)]
  by (auto simp: editor_emit_def run_callbacks_def sync_callback_def graph_event_def Let_def)

lemma emit_change:
  assumes "wired a" and "ev \<noteq> ''onNodeMove''"
  shows "observer (editor_emit ''onChange'' (Change ev d) a) = mirror (core a)"
  using assms wired_callbacks [OF assms(1)]
  by (simp add: editor_emit_def run_callbacks_def sync_callback_def Let_def)

lemma emit_move:
  assumes "wired a"
  shows "observer (editor_emit ''onNodeMove'' p a) = observer a"
  using wired_callbacks [OF assms]
  by (simp add: editor_emit_def run_callbacks_def sync_callback_def Let_def)

lemma wired_emit [simp]: "wired (editor_emit ev p a) = wired a"
  by (simp add: wired_def)

lemma wired_emit_all [simp]: "wired (foldl (\<lambda>e c. editor_emit ev (f c) e) a ks) = wired a"
  by (simp add: wired_def)

lemma wired_core [simp]: "wired (a\<lparr>core := c\<rparr>) = wired a" and wired_observer [simp]: "wired (a\<lparr>observer := u\<rparr>) = wired a"
  by (simp_all add: wired_def)

text \<open>An emitted graph event, or a refresh, establishes the mirror; the invariant is then that of
  the graph.\<close>

lemma adapter_inv_emit:
  assumes "wired a" and "core_wf (core a)" and "graph_event ev"
  shows "adapter_inv (editor_emit ev p a)"
  using assms by (simp add: adapter_inv_def emit_graph_event)

lemma adapter_inv_change:
  assumes "wired a" and "core_wf (core a)" and "ev \<noteq> ''onNodeMove''"
  shows "adapter_inv (editor_emit ''onChange'' (Change ev d) a)"
  using assms by (simp add: adapter_inv_def emit_change)

lemma adapter_inv_sync:
  "wired a \<Longrightarrow> core_wf (core a) \<Longrightarrow> adapter_inv (syncState a)"
  by (simp add: adapter_inv_def syncState_def)

lemma adapter_invD:
  assumes "adapter_inv a"
  shows "wired a" and "core_wf (core a)" and "observer a = mirror (core a)"
  using assms by (simp_all add: adapter_inv_def)

subsection \<open>Adding and removing nodes\<close>

lemma adapter_addNode_inv:
  assumes inv: "adapter_inv a" and cls: "\<And>C. map_of odoo type = Some C \<Longrightarrow> class_ok C"
  shows "adapter_inv (snd (adapter_addNode odoo type p a))"
proof (cases "map_of odoo type")
  case None
  with inv show ?thesis by (simp add: adapter_addNode_def adapter_getNodeClass_def)
next
  case (Some C)
  then have "class_ok C" by (rule cls)
  then have "core_wf (snd (core_addNode (Inr C) p (core a)))"
    using adapter_invD(2) [OF inv] by (intro core_addNode_class_wf)
  with adapter_invD(1) [OF inv] have "adapter_inv (snd (editor_addNode (Inr C) p a))"
    by (simp add: editor_addNode_def split_beta adapter_inv_emit graph_event_def)
  with Some show ?thesis by (simp add: adapter_addNode_def adapter_getNodeClass_def split_beta)
qed

text \<open>The node that \<open>addNodeWithId\<close> builds.\<close>

definition forced_node :: "node_class \<Rightarrow> position \<Rightarrow> string \<Rightarrow> jsobj option \<Rightarrow> node" where
  "forced_node C p i config =
     (case config of None \<Rightarrow> (new_node C)\<lparr>node_id := Some i\<rparr>
      | Some cfg \<Rightarrow> setConfig cfg ((new_node C)\<lparr>node_id := Some i\<rparr>))\<lparr>position := p\<rparr>"

lemma forced_node_id [simp]: "node_id (forced_node C p i config) = Some i"
  by (simp add: forced_node_def split: option.splits)

lemma node_eq_same_id: "node_id n = Some i \<Longrightarrow> n\<lparr>node_id := Some i, position := p\<rparr> = n\<lparr>position := p\<rparr>"
  by (cases n) simp

lemma adapter_addNodeWithId_eq:
  assumes "map_of odoo type = Some C" and "i \<noteq> []"
  shows "adapter_addNodeWithId odoo type p i config a =
    (Some i,
     let n = forced_node C p i config;
         a' = editor_emit ''onNodeAdd'' (Direct (DNode n)) (update_core (\<lambda>c. c\<lparr>nodes := map_set i n (nodes c)\<rparr>) a)
     in case id_number i of None \<Rightarrow> a' | Some k \<Rightarrow> update_core (\<lambda>c. c\<lparr>idCounter := max (idCounter c) k\<rparr>) a')"
  using assms
  by (simp add: adapter_addNodeWithId_def adapter_getNodeClass_def editor_addNode_def core_addNode_def
        forced_node_def Let_def node_eq_same_id split: option.splits)

lemma mirror_idCounter [simp]: "mirror (c\<lparr>idCounter := b\<rparr>) = mirror c"
  by (simp add: mirror_def getNodesForUI_def getConnectionsForUI_def)

lemma adapter_addNodeWithId_core:
  assumes "map_of odoo type = Some C" and "i \<noteq> []"
  shows "core (snd (adapter_addNodeWithId odoo type p i config a)) =
    (core a)\<lparr>nodes := map_set i (forced_node C p i config) (nodes (core a)),
            idCounter := (case id_number i of None \<Rightarrow> idCounter (core a) | Some k \<Rightarrow> max (idCounter (core a)) k)\<rparr>"
  using assms by (simp add: adapter_addNodeWithId_eq Let_def split: option.splits)

lemma adapter_addNodeWithId_inv:
  assumes inv: "adapter_inv a" and i: "i \<noteq> []" "i \<notin> set (map_keys (nodes (core a)))"
  shows "adapter_inv (snd (adapter_addNodeWithId odoo type p i config a))"
proof (cases "map_of odoo type")
  case None
  with inv show ?thesis by (simp add: adapter_addNodeWithId_def adapter_getNodeClass_def)
next
  case (Some C)
  let ?a = "snd (adapter_addNodeWithId odoo type p i config a)"
  have "map_of (nodes (core a)) i = None" using i(2) by (simp add: map_of_eq_None_iff)
  then have "core_wf (core ?a)"
    unfolding adapter_addNodeWithId_core [OF Some i(1)]
    by (intro core_wf_set_node [OF adapter_invD(2) [OF inv] i(1)]) (auto split: option.splits)
  moreover have "wired ?a" and "observer ?a = mirror (core ?a)"
    using adapter_invD [OF inv]
    by (simp_all add: adapter_addNodeWithId_eq [OF Some i(1)] Let_def emit_graph_event graph_event_def split: option.splits)
  ultimately show ?thesis by (simp add: adapter_inv_def)
qed

lemma adapter_removeNode_inv:
  assumes inv: "adapter_inv a" shows "adapter_inv (snd (adapter_removeNode i a))"
proof (cases "map_of (nodes (core a)) i")
  case None
  with inv show ?thesis by (simp add: adapter_removeNode_def editor_removeNode_def)
next
  case (Some n)
  then have "core_wf (core (snd (editor_removeNode i a)))"
    using adapter_invD(2) [OF inv] by (simp add: editor_removeNode_core core_wf_removeNode)
  with Some adapter_invD(1) [OF inv] show ?thesis
    by (simp add: adapter_removeNode_def editor_removeNode_def Let_def adapter_inv_emit graph_event_def)
qed

subsection \<open>Moving a node: the incremental update\<close>

text \<open>The projection is determined by the node list: changing the one node with an id in the core,
  and the one entry with that id in the mirror, agree.\<close>

lemma mirror_update_first:
  assumes "distinct (map_keys ns)" and "list_all (\<lambda>(k, n). node_id n = Some k) ns"
    and "map_of ns i = Some n" and "node_id n' = Some i"
    and "f (node_to_ui n) = node_to_ui n'"
  shows "map node_to_ui (map snd (map_set i n' ns))
    = update_first (\<lambda>u. ui_id u = Some i) f (map node_to_ui (map snd ns))"
  using assms unfolding map_set_def
proof (induction ns)
  case (Cons kn ns)
  obtain k m where kn: "kn = (k, m)" by (cases kn)
  then have "ui_id (node_to_ui m) = Some k" using Cons.prems(2) by (simp add: node_to_ui_def)
  with Cons kn show ?case by auto
qed simp

lemma adapter_updatePosition_inv:
  assumes inv: "adapter_inv a" shows "adapter_inv (snd (adapter_updatePosition i p a))"
proof (cases "map_of (nodes (core a)) i")
  case None
  with inv show ?thesis by (simp add: adapter_updatePosition_def editor_getNode_def)
next
  case (Some n)
  let ?n = "n\<lparr>position := p\<rparr>" and ?a = "snd (adapter_updatePosition i p a)"
  have wf: "nodes_wf (core a)" using adapter_invD(2) [OF inv] by (simp add: core_wf_def)
  then have ids: "list_all (\<lambda>(k, n). node_id n = Some k) (nodes (core a))"
    "distinct (map_keys (nodes (core a)))"
    by (auto simp: nodes_wf_def list_all_iff)
  show ?thesis
  proof (cases "position n = p")
    case True
    with inv Some show ?thesis by (auto simp: adapter_updatePosition_def editor_getNode_def)
  next
    case False
    then have moved: "\<not> (fst (position n) = fst p \<and> snd (position n) = snd p)"
      by (metis prod.expand)
    have id: "node_id n = Some i" using ids(1) Some by (auto simp: list_all_iff dest!: map_of_SomeD)
    have c: "core ?a = (core a)\<lparr>nodes := map_set i ?n (nodes (core a))\<rparr>"
      using Some moved
      by (auto simp: adapter_updatePosition_def editor_getNode_def editor_updateNodePosition_def Let_def)
    have u: "observer ?a = (observer a)\<lparr>ui_nodes :=
        update_first (\<lambda>u. ui_id u = Some i) (\<lambda>u. u\<lparr>ui_x := fst p, ui_y := snd p\<rparr>) (ui_nodes (observer a))\<rparr>"
      and w: "wired ?a"
      using Some moved adapter_invD(1) [OF inv]
      by (auto simp: adapter_updatePosition_def editor_getNode_def editor_updateNodePosition_def Let_def emit_move)
    have "map node_to_ui (map snd (map_set i ?n (nodes (core a))))
        = update_first (\<lambda>u. ui_id u = Some i) (\<lambda>u. u\<lparr>ui_x := fst p, ui_y := snd p\<rparr>)
            (map node_to_ui (map snd (nodes (core a))))"
      using ids Some id by (intro mirror_update_first) (auto simp: node_to_ui_def)
    then have "observer ?a = mirror (core ?a)"
      using u c adapter_invD(3) [OF inv]
      by (simp add: mirror_def getNodesForUI_def getConnectionsForUI_def)
    moreover have "core_wf (core ?a)"
      unfolding c by (rule core_wf_update_node [OF adapter_invD(2) [OF inv] Some]) simp_all
    ultimately show ?thesis using w by (simp add: adapter_inv_def)
  qed
qed

subsection \<open>The other operations\<close>

lemma adapter_setNodeMeta_inv:
  assumes inv: "adapter_inv a" shows "adapter_inv (snd (adapter_setNodeMeta i m a))"
proof (cases "map_of (nodes (core a)) i")
  case None
  with inv show ?thesis by (simp add: adapter_setNodeMeta_def editor_setNodeMeta_def)
next
  case (Some n)
  have "core_wf ((core a)\<lparr>nodes := map_set i (n\<lparr>meta := merge_meta (meta n) m\<rparr>) (nodes (core a))\<rparr>)"
    by (rule core_wf_update_node [OF adapter_invD(2) [OF inv] Some]) simp_all
  with Some adapter_invD(1) [OF inv] show ?thesis
    by (simp add: adapter_setNodeMeta_def editor_setNodeMeta_def Let_def adapter_inv_change)
qed

lemma adapter_setNodeLabel_inv:
  assumes inv: "adapter_inv a" shows "adapter_inv (snd (adapter_setNodeLabel i l a))"
proof (cases "map_of (nodes (core a)) i")
  case None
  with inv show ?thesis by (simp add: adapter_setNodeLabel_def editor_setNodeLabel_def)
next
  case (Some n)
  have "core_wf ((core a)\<lparr>nodes := map_set i (n\<lparr>node_label := l\<rparr>) (nodes (core a))\<rparr>)"
    by (rule core_wf_update_node [OF adapter_invD(2) [OF inv] Some]) simp_all
  with Some adapter_invD(1) [OF inv] show ?thesis
    by (simp add: adapter_setNodeLabel_def editor_setNodeLabel_def Let_def adapter_inv_sync)
qed

lemma core_wf_config:
  assumes "core_wf c" and "map_of (nodes c) i = Some n"
  shows "core_wf (c\<lparr>nodes := map_set i (setConfig cfg n) (nodes c)\<rparr>)"
    and "core_wf (c\<lparr>nodes := map_set i (set_control_value k v n) (nodes c)\<rparr>)"
  by (rule core_wf_update_node [OF assms]; simp)+

lemma adapter_setNodeConfig_inv:
  assumes inv: "adapter_inv a" shows "adapter_inv (snd (adapter_setNodeConfig i cfg a))"
proof (cases "map_of (nodes (core a)) i")
  case None
  with inv show ?thesis by (simp add: adapter_setNodeConfig_def editor_getNode_def)
next
  case (Some n)
  with core_wf_config(1) [OF adapter_invD(2) [OF inv] Some] adapter_invD(1) [OF inv] show ?thesis
    by (simp add: adapter_setNodeConfig_def editor_getNode_def adapter_inv_sync)
qed

text \<open>\<open>setControlValue\<close> does not refresh the mirror, and need not: no value of a control is in it.\<close>

lemma mirror_same_view:
  assumes "map_of (nodes c) i = Some n" and "node_to_ui n' = node_to_ui n"
  shows "mirror (c\<lparr>nodes := map_set i n' (nodes c)\<rparr>) = mirror c"
proof -
  have "map_of ns i = Some n \<Longrightarrow> map (node_to_ui \<circ> snd) (map_set i n' ns) = map (node_to_ui \<circ> snd) ns" for ns
    unfolding map_set_def using assms(2) by (induction ns) auto
  with assms(1) show ?thesis by (simp add: mirror_def getNodesForUI_def getConnectionsForUI_def)
qed

lemma adapter_setControlValue_inv:
  assumes inv: "adapter_inv a" shows "adapter_inv (snd (adapter_setControlValue i k v a))"
proof (cases "map_of (nodes (core a)) i")
  case None
  with inv show ?thesis by (simp add: adapter_setControlValue_def editor_getNode_def)
next
  case (Some n)
  have "node_to_ui (set_control_value k v n) = node_to_ui n" by (simp add: node_to_ui_def)
  with mirror_same_view [OF Some] core_wf_config(2) [OF adapter_invD(2) [OF inv] Some] adapter_invD [OF inv] Some
  show ?thesis
    by (simp add: adapter_inv_def adapter_setControlValue_def editor_getNode_def split: option.splits)
qed

lemma adapter_connection_inv:
  assumes inv: "adapter_inv a"
  shows "adapter_inv (snd (adapter_addConnection s h t g a))"
    and "adapter_inv (snd (adapter_removeConnection i a))"
proof -
  let ?add = "snd (editor_addConnection s h t g a)" and ?rem = "snd (editor_removeConnection i a)"
  have "core_wf (core ?add)" "core_wf (core ?rem)"
    using adapter_invD(2) [OF inv] by (simp_all add: editor_conn_core conns_wf_add conns_wf_remove)
  with inv adapter_invD(1) [OF inv] show "adapter_inv (snd (adapter_addConnection s h t g a))"
    "adapter_inv (snd (adapter_removeConnection i a))"
    by (auto simp: adapter_addConnection_def editor_addConnection_def adapter_removeConnection_def
          editor_removeConnection_def adapter_inv_emit graph_event_def split: option.splits)
qed

lemma adapter_refresh_inv:
  assumes "adapter_inv a" shows "adapter_inv (adapter_refreshNodeRegistry odoo a)"
proof -
  have "conn_ok (c\<lparr>nodeRegistry := r\<rparr>) = conn_ok c" for c r
    by (intro ext conn_ok_cong) (simp_all add: same_sockets_def)
  with assms show ?thesis
    by (simp add: adapter_inv_def adapter_refreshNodeRegistry_def core_wf_def nodes_wf_def conns_wf_def
          mirror_def getNodesForUI_def getConnectionsForUI_def)
qed

lemma adapter_clear_inv: "adapter_inv a \<Longrightarrow> adapter_inv (adapter_clear a)"
  unfolding adapter_clear_def editor_clear_def
  by (intro adapter_inv_change) (simp_all add: adapter_inv_def core_wf_def nodes_wf_def conns_wf_def ids_below_def)

lemmas adapter_op_invs =
  adapter_addNode_inv adapter_addNodeWithId_inv adapter_removeNode_inv adapter_updatePosition_inv
  adapter_setNodeMeta_inv adapter_setNodeLabel_inv adapter_setNodeConfig_inv adapter_setControlValue_inv
  adapter_connection_inv adapter_refresh_inv adapter_clear_inv

interpretation ads: op_system "adapter_step odoo" "adapter_ok odoo" adapter_inv for odoo
proof unfold_locales
  fix a op assume "adapter_inv a" and "adapter_ok odoo op a"
  then show "adapter_inv (adapter_step odoo op a)"
    by (cases op) (auto simp: adapter_ok_def intro!: adapter_op_invs)
qed

lemma adapter_inv_new: "adapter_inv (new_WorkflowAdapter odoo)"
proof -
  have "core (new_WorkflowAdapter odoo) =
      \<lparr>nodes = [], connections = [], nodeRegistry = buildNodeRegistryFromOdoo odoo, idCounter = 0\<rparr>"
    "observer (new_WorkflowAdapter odoo) = \<lparr>ui_nodes = [], ui_conns = []\<rparr>"
    by (simp_all add: new_WorkflowAdapter_def new_WorkflowEditor_def editor_on_def)
  then show ?thesis
    by (simp add: adapter_inv_def core_wf_def nodes_wf_def conns_wf_def ids_below_def mirror_def
          getNodesForUI_def getConnectionsForUI_def)
qed

end
