(* ===== verification/Node_Types.thy ===== *)
theory Node_Types
  imports Editor_Inv
begin

section \<open>The node classes of the editor (nodes/*.js)\<close>

text \<open>
  The node types the editor ships with, each a class with the sockets and the controls its
  constructor adds. A string is its UTF-8 bytes, which shows only in one label.
\<close>

abbreviation choice :: "string \<Rightarrow> string \<Rightarrow> jsval" where
  "choice v l \<equiv> JObj [(''value'', JStr v), (''label'', JStr l)]"

abbreviation addDataInput :: "string \<Rightarrow> string \<Rightarrow> node \<Rightarrow> node" where
  "addDataInput key label \<equiv> addInput key DataSocket (Some label) False"

subsection \<open>Flow nodes\<close>

definition LoopNode :: node_class where
  "LoopNode =
     \<lparr>cls_nodeType = ''loop'', cls_label = ''Loop Over Items'', cls_icon = ''fa-repeat'', cls_category = ''flow'',
      cls_description = ''Iterate over array items in batches'', cls_group = [],
      cls_body = (\<lambda>n0.
        let n1 = addDataInput ''data'' ''Data'' n0;
            n2 = addOutput ''done'' DataSocket (Some ''Done'') n1;
            n3 = addOutput ''loop'' DataSocket (Some ''Loop'') n2;
            n4 = addControl ''inputItems'' (new_TextInputControl ''inputItems''
                   [(''label'', JStr ''Input Items''), (''placeholder'', JStr ''{{ _json.response.data.items }}'')]) n3;
            n5 = addControl ''batchSize'' (new_TextInputControl ''batchSize''
                   [(''label'', JStr ''Batch Size''), (''placeholder'', JStr ''1'')]) n4
        in addControl ''reset'' (new_SelectControl ''reset''
             [(''label'', JStr ''Reset''),
              (''options'', JArr [choice ''false'' ''No'', choice ''true'' ''Yes'']),
              (''defaultValue'', JStr ''false'')]) n5)\<rparr>"

definition IfNode :: node_class where
  "IfNode =
     \<lparr>cls_nodeType = ''if'', cls_label = ''If'', cls_icon = ''split'', cls_category = ''flow'',
      cls_description = ''Route data based on condition'', cls_group = [],
      cls_body = (\<lambda>n0.
        let n1 = addDataInput ''data'' ''Data'' n0;
            n2 = addOutput ''true'' DataSocket (Some ''True'') n1;
            n3 = addOutput ''false'' DataSocket (Some ''False'') n2;
            n4 = addControl ''leftOperand'' (new_TextInputControl ''leftOperand''
                   [(''label'', JStr ''Left Operand''),
                    (''placeholder'', JStr ''{{ _vars.count }} or {{ _json.status }}'')]) n3;
            n5 = addControl ''operator'' (new_SelectControl ''operator''
                   [(''label'', JStr ''Operator''),
                    (''options'', JArr [choice ''eq'' ''Equals (==)'', choice ''neq'' ''Not Equals (!=)'',
                       choice ''gt'' ''Greater Than (>)'', choice ''gte'' ''Greater or Equal (>=)'',
                       choice ''lt'' ''Less Than (<)'', choice ''lte'' ''Less or Equal (<=)'',
                       choice ''contains'' ''Contains'', choice ''startsWith'' ''Starts With'',
                       choice ''endsWith'' ''Ends With'', choice ''empty'' ''Is Empty'',
                       choice ''notEmpty'' ''Is Not Empty'', choice ''truthy'' ''Is Truthy'',
                       choice ''falsy'' ''Is Falsy'']),
                    (''defaultValue'', JStr ''eq'')]) n4
        in addControl ''rightOperand'' (new_TextInputControl ''rightOperand''
             [(''label'', JStr ''Right Operand''), (''placeholder'', JStr ''Value to compare against'')]) n5)\<rparr>"

definition SwitchNode :: node_class where
  "SwitchNode =
     \<lparr>cls_nodeType = ''switch'', cls_label = ''Switch'', cls_icon = ''fa-random'', cls_category = ''flow'',
      cls_description = ''Route data based on matching cases'', cls_group = [],
      cls_body = (\<lambda>n0.
        let n1 = addDataInput ''data'' ''Data'' n0;
            n2 = addOutput ''case_1'' DataSocket (Some ''Case 1'') n1;
            n3 = addOutput ''case_2'' DataSocket (Some ''Case 2'') n2;
            n4 = addOutput ''case_3'' DataSocket (Some ''Case 3'') n3;
            n5 = addOutput ''default'' DataSocket (Some ''Default'') n4;
            n6 = addControl ''switchValue'' (new_TextInputControl ''switchValue''
                   [(''label'', JStr ''Switch Value''), (''placeholder'', JStr ''{{ _json.status }}'')]) n5;
            n7 = addControl ''case1'' (new_TextInputControl ''case1''
                   [(''label'', JStr ''Case 1''), (''placeholder'', JStr ''Value to match'')]) n6;
            n8 = addControl ''case2'' (new_TextInputControl ''case2''
                   [(''label'', JStr ''Case 2''), (''placeholder'', JStr ''Value to match'')]) n7
        in addControl ''case3'' (new_TextInputControl ''case3''
             [(''label'', JStr ''Case 3''), (''placeholder'', JStr ''Value to match'')]) n8)\<rparr>"

definition NoOpNode :: node_class where
  "NoOpNode =
     \<lparr>cls_nodeType = ''noop'', cls_label = ''Replace Me'', cls_icon = ''fa-circle-o'', cls_category = ''flow'',
      cls_description = ''Placeholder node'', cls_group = [],
      cls_body = (\<lambda>n0.
        let n1 = addDataInput ''data'' ''Data'' n0
        in addOutput ''result'' DataSocket None n1)\<rparr>"

subsection \<open>Data nodes\<close>

definition DataValidationNode :: node_class where
  "DataValidationNode =
     \<lparr>cls_nodeType = ''validation'', cls_label = ''Data Validation'', cls_icon = ''fa-check-circle'',
      cls_category = ''transform'',
      cls_description = ''Validate data against rules'', cls_group = [],
      cls_body = (\<lambda>n0.
        let n1 = addDataInput ''data'' ''Input Data'' n0;
            n2 = addOutput ''valid'' DataSocket (Some ''Valid Data'') n1;
            n3 = addOutput ''invalid'' ErrorSocket (Some ''Validation Errors'') n2;
            n4 = addControl ''requiredFields'' (new_TextInputControl ''requiredFields''
                   [(''label'', JStr ''Required Fields''), (''placeholder'', JStr ''field1, field2, field3'')]) n3;
            n5 = addControl ''schema'' (new_TextInputControl ''schema''
                   [(''label'', JStr ''Validation Schema (JSON)''),
                    (''placeholder'', JStr ''{\"field\": {\"type\": \"string\", \"minLength\": 1}}''),
                    (''multiline'', JBool True)]) n4
        in addControl ''customRules'' (new_KeyValueControl ''customRules''
             [(''label'', JStr ''Custom Rules''), (''keyPlaceholder'', JStr ''Field path''),
              (''valuePlaceholder'', JStr ''Regex pattern'')]) n5)\<rparr>"

definition SetDataNode :: node_class where
  "SetDataNode =
     \<lparr>cls_nodeType = ''set_data'', cls_label = ''Set Data'', cls_icon = ''fa-pencil'', cls_category = ''transform'',
      cls_description = ''Set or transform data fields'', cls_group = [],
      cls_body = (\<lambda>n0.
        let n1 = addDataInput ''data'' ''Input Data'' n0;
            n2 = addOutput ''output'' DataSocket None n1;
            n3 = addControl ''fields'' (new_KeyValueControl ''fields''
                   [(''label'', JStr ''Fields to Set''), (''keyPlaceholder'', JStr ''Field name''),
                    (''valuePlaceholder'', JStr ''Value or {{ expression }}'')]) n2
        in addControl ''keepOnlySet'' (new_SelectControl ''keepOnlySet''
             [(''label'', JStr ''Output Mode''),
              (''options'', JArr [choice ''merge'' ''Merge with input'', choice ''replace'' ''Only set fields'']),
              (''default'', JStr ''merge'')]) n3)\<rparr>"

definition VariableNode :: node_class where
  "VariableNode =
     \<lparr>cls_nodeType = ''variable'', cls_label = ''Set Variable'', cls_icon = ''fa-cube'', cls_category = ''data'',
      cls_description = ''Set or get workflow variables'', cls_group = [],
      cls_body = (\<lambda>n0.
        let n1 = addDataInput ''trigger'' ''Trigger'' n0;
            n2 = addOutput ''output'' DataSocket None n1;
            n3 = addControl ''operation'' (new_SelectControl ''operation''
                   [(''label'', JStr ''Operation''),
                    (''options'', JArr [choice ''set'' ''Set'', choice ''get'' ''Get'',
                       choice ''append'' ''Append to Array'', choice ''merge'' ''Merge Object'',
                       choice ''increment'' ''Increment'', choice ''delete'' ''Delete'']),
                    (''defaultValue'', JStr ''set'')]) n2;
            n4 = addControl ''variableName'' (new_TextInputControl ''variableName''
                   [(''label'', JStr ''Variable Name''), (''placeholder'', JStr ''e.g., result.order_lines'')]) n3
        in addControl ''value'' (new_TextInputControl ''value''
             [(''label'', JStr ''Value (supports expressions)''),
              (''placeholder'', JStr ''{{ _json.data }} or static value''), (''multiline'', JBool True)]) n4)\<rparr>"

definition CodeNode :: node_class where
  "CodeNode =
     \<lparr>cls_nodeType = ''code'', cls_label = ''Code'', cls_icon = ''fa-code'', cls_category = ''transform'',
      cls_description = ''Execute Python code (set result for output)'', cls_group = [],
      cls_body = (\<lambda>n0.
        let n1 = addDataInput ''data'' [] n0;
            n2 = addOutput ''output'' DataSocket None n1
        in addControl ''code'' (new_CodeControl ''code''
             [(''label'', JStr ''Python Code''), (''height'', JNum 250),
              (''placeholder'', JStr (''result = _json.get('' @ [CHR 0x27] @ ''value'' @ [CHR 0x27] @ '')'')),
              (''language'', JStr ''python'')]) n2)\<rparr>"

subsection \<open>Integration nodes and the trigger\<close>

definition HttpRequestNode :: node_class where
  "HttpRequestNode =
     \<lparr>cls_nodeType = ''http'', cls_label = ''HTTP Request'', cls_icon = ''fa-globe'', cls_category = ''integration'',
      cls_description = ''Make HTTP API calls to external services'', cls_group = [],
      cls_body = (\<lambda>n0.
        let n1 = addDataInput ''data'' ''Input Data'' n0;
            n2 = addOutput ''response'' DataSocket (Some ''Response'') n1;
            n3 = addOutput ''error'' ErrorSocket (Some ''Error'') n2;
            n4 = addControl ''method'' (new_SelectControl ''method''
                   [(''label'', JStr ''Method''),
                    (''options'', JArr [choice ''GET'' ''GET'', choice ''POST'' ''POST'', choice ''PUT'' ''PUT'',
                       choice ''PATCH'' ''PATCH'', choice ''DELETE'' ''DELETE'']),
                    (''default'', JStr ''GET'')]) n3;
            n5 = addControl ''url'' (new_TextInputControl ''url''
                   [(''label'', JStr ''URL''), (''placeholder'', JStr ''https://api.example.com/endpoint'')]) n4;
            n6 = addControl ''headers'' (new_KeyValueControl ''headers''
                   [(''label'', JStr ''Headers''), (''keyPlaceholder'', JStr ''Header name''),
                    (''valuePlaceholder'', JStr ''Header value'')]) n5
        in addControl ''body'' (new_TextInputControl ''body''
             [(''label'', JStr ''Request Body''), (''placeholder'', JStr ''{\"key\": \"value\"}''),
              (''multiline'', JBool True)]) n6)\<rparr>"

definition ConnectorRequestNode :: node_class where
  "ConnectorRequestNode =
     \<lparr>cls_nodeType = ''connector_request'', cls_label = ''Connector Request'', cls_icon = ''fa-plug'',
      cls_category = ''integration'',
      cls_description = ''Managed HTTP call via a reusable connector'', cls_group = [],
      cls_body = (\<lambda>n0.
        let n1 = addDataInput ''data'' ''Input Data'' n0;
            n2 = addOutput ''response'' DataSocket (Some ''Response'') n1;
            n3 = addOutput ''error'' ErrorSocket (Some ''Error'') n2;
            n4 = addControl ''operation_code'' (new_TextInputControl ''operation_code''
                   [(''label'', JStr ''Operation Code''), (''placeholder'', JStr ''e.g. create_order''),
                    (''help'', JStr (''Stable logical identifier for this API call. '' @
                                     ''Used to look up backend config.''))]) n3;
            n5 = addControl ''url'' (new_TextInputControl ''url''
                   [(''label'', JStr ''URL Override''), (''placeholder'', JStr ''Leave empty to use endpoint preset'')]) n4;
            n6 = addControl ''method'' (new_SelectControl ''method''
                   [(''label'', JStr ''Method Override''),
                    (''options'', JArr
                       [choice [] ([CHR 0xE2, CHR 0x80, CHR 0x94] @ '' Use endpoint preset '' @ [CHR 0xE2, CHR 0x80, CHR 0x94]),
                        choice ''GET'' ''GET'', choice ''POST'' ''POST'', choice ''PUT'' ''PUT'',
                        choice ''PATCH'' ''PATCH'', choice ''DELETE'' ''DELETE'']),
                    (''default'', JStr [])]) n5
        in addControl ''timeout'' (new_TextInputControl ''timeout''
             [(''label'', JStr ''Timeout Override (s)''),
              (''placeholder'', JStr ''Leave empty for endpoint/connector default''),
              (''inputType'', JStr ''number'')]) n6)\<rparr>"

definition ManualTriggerNode :: node_class where
  "ManualTriggerNode =
     \<lparr>cls_nodeType = ''manual_trigger'', cls_label = ''Manual Trigger'', cls_icon = ''fa-play'',
      cls_category = ''trigger'',
      cls_description = ''Manually start a workflow execution'', cls_group = [], cls_body = addOutput ''output'' DataSocket None\<rparr>"

text \<open>The classes under the keys their files give them (\<open>static nodeType\<close>).\<close>

definition builtin_classes :: "(string \<times> node_class) list" where
  "builtin_classes =
     map (\<lambda>C. (cls_nodeType C, C))
       [ManualTriggerNode, HttpRequestNode, ConnectorRequestNode, LoopNode, IfNode, SwitchNode, NoOpNode,
        DataValidationNode, SetDataNode, VariableNode, CodeNode]"

lemmas class_defs = LoopNode_def IfNode_def SwitchNode_def NoOpNode_def DataValidationNode_def SetDataNode_def
  VariableNode_def CodeNode_def HttpRequestNode_def ConnectorRequestNode_def ManualTriggerNode_def

end
