(* ===== verification/Persistence.thy ===== *)
theory Persistence
  imports Adapter_Inv Node_Types
begin

section \<open>Saving and reopening a workflow\<close>

text \<open>
  Every graph the adapter's operations can build is one its snapshot restores exactly. The classes
  of the registry must be sound: built from the base class by adding sockets and controls, and
  registered under their own type. The classes the editor ships with are.
\<close>

definition class_sound :: "string \<times> node_class \<Rightarrow> bool" where
  "class_sound kC \<longleftrightarrow> (let n = new_node (snd kC)
     in node_id n = None \<and> node_type n = fst kC \<and> node_label n \<noteq> [] \<and> meta n = base_meta
        \<and> distinct (map_keys (controls n)) \<and> distinct (map_keys (hiddenDefaults n))
        \<and> set (map_keys (hiddenDefaults n)) \<inter> set (map_keys (controls n)) = {})"

definition registry_sound :: "(string \<times> node_class) list \<Rightarrow> bool" where
  "registry_sound odoo \<longleftrightarrow> distinct (map_keys odoo) \<and> list_all class_sound odoo"

lemma add_fields [simp]:
  "node_id (addInput k s l m n) = node_id n" "node_id (addOutput k s l n) = node_id n"
  "node_id (addControl k c n) = node_id n"
  "node_type (addInput k s l m n) = node_type n" "node_type (addOutput k s l n) = node_type n"
  "node_type (addControl k c n) = node_type n"
  "node_label (addInput k s l m n) = node_label n" "node_label (addOutput k s l n) = node_label n"
  "node_label (addControl k c n) = node_label n"
  "meta (addInput k s l m n) = meta n" "meta (addOutput k s l n) = meta n"
  "meta (addControl k c n) = meta n"
  "controls (addInput k s l m n) = controls n" "controls (addOutput k s l n) = controls n"
  "hiddenDefaults (addInput k s l m n) = hiddenDefaults n" "hiddenDefaults (addOutput k s l n) = hiddenDefaults n"
  "hiddenDefaults (addControl k c n) = hiddenDefaults n"
  by (simp_all add: addInput_def addOutput_def addControl_def)

lemma distinct_addControl [simp]:
  "distinct (map_keys (controls n)) \<Longrightarrow> distinct (map_keys (controls (addControl k c n)))"
  by (simp add: addControl_def jso.distinct_put)

lemma new_BaseNode_fields [simp]:
  "node_id (new_BaseNode C) = None" "node_type (new_BaseNode C) = cls_nodeType C"
  "node_label (new_BaseNode C) = cls_label C" "meta (new_BaseNode C) = base_meta"
  "controls (new_BaseNode C) = []" "hiddenDefaults (new_BaseNode C) = []"
  by (simp_all add: new_BaseNode_def)

lemma builtin_sound: "registry_sound builtin_classes"
  by (simp add: registry_sound_def builtin_classes_def class_sound_def new_node_def Let_def class_defs)

subsection \<open>Operations keep a node an instance of its class\<close>

lemma index_key_digits: "is_index_key k \<Longrightarrow> list_all is_digit k"
  using show_nat_digits [of "nat_of_digits k"] unfolding is_index_key_def list_all_iff by metis

lemma not_index_key [simp]: "\<not> is_index_key ''disabled''" "\<not> is_index_key ''notes''" "\<not> is_index_key ''ui''"
  by (auto dest: index_key_digits simp: is_digit_def)

lemma class_sound_instance:
  assumes "class_sound (k, C)" shows "instance_of C (new_node C)"
proof -
  have "list_all2 (\<lambda>(k, c) (k0, c0). k = k0 \<and> c = c0\<lparr>cvalue := cvalue c\<rparr>) xs xs" for xs :: "(string \<times> control) list"
    by (rule list_all2_refl) auto
  with assms show ?thesis
    by (simp add: class_sound_def Let_def instance_of_def plain_meta_def base_meta_def)
qed

lemma instance_of_fields:
  assumes "instance_of C n"
  shows "instance_of C (n\<lparr>node_id := i\<rparr>)" "instance_of C (n\<lparr>position := p\<rparr>)" "instance_of C (n\<lparr>node_label := l\<rparr>)"
  using assms by (simp_all add: instance_of_def)

lemma same_but_value: "c = c0\<lparr>cvalue := cvalue c\<rparr> \<Longrightarrow> c\<lparr>cvalue := v\<rparr> = c0\<lparr>cvalue := v\<rparr>"
  by (cases c; cases c0) simp

lemma instance_of_set_control:
  assumes "instance_of C n" shows "instance_of C (set_control_value k v n)"
proof -
  have rel: "list_all2 (\<lambda>(k, c) (k0, c0). k = k0 \<and> c = c0\<lparr>cvalue := cvalue c\<rparr>) (AList.update k (setValue v c) xs) ys"
    if "list_all2 (\<lambda>(k, c) (k0, c0). k = k0 \<and> c = c0\<lparr>cvalue := cvalue c\<rparr>) xs ys" "map_of xs k = Some c"
    for c xs ys
    using that by (induction rule: list_all2_induct) (auto simp: setValue_def split: if_splits dest: same_but_value)
  have "instance_of C (set_control_value k v n)" if c: "map_of (controls n) k = Some c" for c
  proof -
    have "k \<in> set (map_keys (controls n))" using c by (force dest: map_of_SomeD)
    then have "controls (set_control_value k v n) = AList.update k (setValue v c) (controls n)"
      using c by (simp add: set_control_value_def obj_set_def)
    moreover have "distinct (map_keys (controls (set_control_value k v n)))"
      using assms by (simp only: keys_set_control_value instance_of_def)
    moreover have "map_keys (controls (set_control_value k v n)) = map_keys (controls n)" by simp
    ultimately show ?thesis using assms rel [OF _ c] unfolding instance_of_def
      by (simp only: set_control_value_fields keys_set_control_value)
  qed
  then show ?thesis using assms
    by (cases "map_of (controls n) k") (simp_all add: set_control_value_def)
qed

lemma instance_of_setConfig:
  assumes "instance_of C n" shows "instance_of C (setConfig cfg n)"
proof -
  have "instance_of C (base_setConfig cfg n)"
    using assms
  proof (induction cfg arbitrary: n)
    case (Cons q cfg)
    obtain k v where "q = (k, v)" by (cases q)
    then show ?case using Cons.IH [OF instance_of_set_control [OF Cons.prems]] by simp
  qed simp
  then show ?thesis unfolding instance_of_def by (simp only: setConfig_fields base_setConfig_fields)
qed

text \<open>A patch of the meta object without array indices for keys, as every caller makes it.\<close>

definition plain_patch :: "jsobj \<Rightarrow> bool" where
  "plain_patch m \<longleftrightarrow> list_all (\<lambda>k. \<not> is_index_key k) (map_keys m)"

lemma plain_meta_set:
  assumes "plain_meta ks m" and "\<not> is_index_key k"
  shows "plain_meta ks (obj_set k v m)"
proof (cases "k \<in> set (map_keys m)")
  case True
  then have "map_keys (obj_set k v m) = map_keys m" by (rule obj_set_keys_present)
  then show ?thesis using assms(1) by (simp only: plain_meta_def)
next
  case False
  then have "obj_set k v m = m @ [(k, v)]" using assms(2) by (rule obj_set_fresh)
  moreover have "length ks \<le> length m"
    using assms(1) unfolding plain_meta_def by (metis length_map length_take min.bounded_iff order_refl)
  ultimately show ?thesis using assms False by (auto simp: plain_meta_def)
qed

lemma plain_meta_patch:
  "plain_meta ks m \<Longrightarrow> plain_patch p \<Longrightarrow> plain_meta ks (obj_assign m p)"
proof (induction p arbitrary: m)
  case (Cons q p)
  obtain k v where q: "q = (k, v)" by (cases q)
  have "plain_meta ks (obj_set k v m)"
    using Cons.prems by (intro plain_meta_set) (simp_all add: q plain_patch_def)
  with Cons show ?case by (simp add: q plain_patch_def)
qed simp

lemma plain_meta_merge: "plain_meta ks m \<Longrightarrow> plain_patch p \<Longrightarrow> plain_meta ks (merge_meta m p)"
  by (auto simp: merge_meta_def Let_def intro!: plain_meta_set plain_meta_patch)

lemma instance_of_meta:
  "instance_of C n \<Longrightarrow> plain_patch p \<Longrightarrow> instance_of C (n\<lparr>meta := merge_meta (meta n) p\<rparr>)"
  by (simp add: instance_of_def plain_meta_merge)

subsection \<open>The invariant of an editing session\<close>

definition restorable_core :: "(string \<times> node_class) list \<Rightarrow> editor_core \<Rightarrow> bool" where
  "restorable_core reg c \<longleftrightarrow> nodeRegistry c = reg \<and> list_all (restorable reg) (nodes c)
     \<and> list_all conn_restorable (connections c)"

definition session_inv :: "(string \<times> node_class) list \<Rightarrow> adapter \<Rightarrow> bool" where
  "session_inv odoo a \<longleftrightarrow> adapter_inv a \<and> restorable_core (buildNodeRegistryFromOdoo odoo) (core a)"

definition session_ok :: "(string \<times> node_class) list \<Rightarrow> graph_op \<Rightarrow> adapter \<Rightarrow> bool" where
  "session_ok odoo op a \<longleftrightarrow> registry_sound odoo \<and> adapter_ok odoo op a \<and>
     (case op of GSetMeta i m \<Rightarrow> plain_patch m | GSetLabel i l \<Rightarrow> l \<noteq> [] | GRefresh reg \<Rightarrow> reg = odoo | _ \<Rightarrow> True)"

lemma registry_lookup:
  assumes "registry_sound odoo"
  shows "map_of (buildNodeRegistryFromOdoo odoo) k = map_of odoo k"
  using assms jso.get_put_all [of "[]" odoo]
  by (simp add: buildNodeRegistryFromOdoo_def registry_sound_def map_of_rev_distinct)

lemma registry_class_ok: "registry_sound odoo \<Longrightarrow> map_of odoo type = Some C \<Longrightarrow> class_ok C"
  by (auto simp: registry_sound_def list_all_iff class_sound_def class_ok_def Let_def dest!: map_of_SomeD)

lemma restorable_new:
  assumes "registry_sound odoo" and "map_of odoo type = Some C"
  shows "restorable (buildNodeRegistryFromOdoo odoo) (i, (new_node C)\<lparr>node_id := j, position := p\<rparr>)"
    and "restorable (buildNodeRegistryFromOdoo odoo) (i, forced_node C p k cfg)"
proof -
  have s: "class_sound (type, C)"
    using assms by (auto simp: registry_sound_def list_all_iff dest: map_of_SomeD)
  then have n: "node_type (new_node C) = type" "node_label (new_node C) \<noteq> []"
    by (simp_all add: class_sound_def Let_def)
  note inst = class_sound_instance [OF s]
  show "restorable (buildNodeRegistryFromOdoo odoo) (i, (new_node C)\<lparr>node_id := j, position := p\<rparr>)"
    using n assms inst by (simp add: restorable_def registry_lookup instance_of_fields)
  show "restorable (buildNodeRegistryFromOdoo odoo) (i, forced_node C p k cfg)"
    using n assms inst
    by (simp add: restorable_def registry_lookup forced_node_def instance_of_fields instance_of_setConfig
        split: option.splits)
qed

lemma restorable_core_set:
  "restorable_core reg c \<Longrightarrow> restorable reg (i, n) \<Longrightarrow>
   restorable_core reg (c\<lparr>nodes := map_set i n (nodes c)\<rparr>)"
  "restorable_core reg c \<Longrightarrow> restorable reg (i, n) \<Longrightarrow>
   restorable_core reg (c\<lparr>nodes := map_set i n (nodes c), idCounter := b\<rparr>)"
  by (simp_all add: restorable_core_def list_all_map_set)

text \<open>Changing a node in place, where the new node is still an instance of the class.\<close>

lemma restorable_core_update:
  assumes "restorable_core reg c" and "map_of (nodes c) i = Some n"
    and "\<And>C. instance_of C n \<Longrightarrow> instance_of C n'" and "node_type n' = node_type n"
    and "node_label n \<noteq> [] \<Longrightarrow> node_label n' \<noteq> []"
  shows "restorable_core reg (c\<lparr>nodes := map_set i n' (nodes c)\<rparr>)"
proof (rule restorable_core_set(1) [OF assms(1)])
  have "restorable reg (i, n)"
    using assms(1,2) by (auto simp: restorable_core_def list_all_iff dest: map_of_SomeD)
  with assms(3-5) show "restorable reg (i, n')" by (auto simp: restorable_def split: option.splits)
qed

lemma restorable_core_remove:
  assumes "restorable_core reg c"
  shows "restorable_core reg (c\<lparr>nodes := map_del i (nodes c), connections := filter P (connections c)\<rparr>)"
    and "restorable_core reg (c\<lparr>connections := remove_first Q (connections c)\<rparr>)"
  using assms remove_first_set [of Q "connections c"]
  by (auto simp: restorable_core_def list_all_iff set_map_del)

lemma conn_restorable_new [simp]: "conn_restorable (new_Connection a h b g)"
proof -
  have "\<not> is_index_key ''label''" "\<not> is_index_key ''animated''" by (auto dest: index_key_digits simp: is_digit_def)
  then show ?thesis by (simp add: conn_restorable_def new_Connection_def generateId_def plain_meta_def)
qed

lemma restorable_core_connect:
  "restorable_core reg c \<Longrightarrow> restorable_core reg (c\<lparr>connections := connections c @ [new_Connection a h b g]\<rparr>)"
  by (simp add: restorable_core_def)

text \<open>The graph after each operation of the adapter.\<close>

lemma adapter_updatePosition_core:
  "core (snd (adapter_updatePosition i p a)) =
     (case map_of (nodes (core a)) i of None \<Rightarrow> core a
      | Some n \<Rightarrow> if position n = p then core a
                  else (core a)\<lparr>nodes := map_set i (n\<lparr>position := p\<rparr>) (nodes (core a))\<rparr>)"
  by (auto simp: adapter_updatePosition_def editor_getNode_def editor_updateNodePosition_def Let_def
      prod_eq_iff split: option.splits)

lemma adapter_in_place_core:
  "core (snd (adapter_setNodeMeta i m a)) =
     (case map_of (nodes (core a)) i of None \<Rightarrow> core a
      | Some n \<Rightarrow> (core a)\<lparr>nodes := map_set i (n\<lparr>meta := merge_meta (meta n) m\<rparr>) (nodes (core a))\<rparr>)"
  "core (snd (adapter_setNodeLabel i l a)) =
     (case map_of (nodes (core a)) i of None \<Rightarrow> core a
      | Some n \<Rightarrow> (core a)\<lparr>nodes := map_set i (n\<lparr>node_label := l\<rparr>) (nodes (core a))\<rparr>)"
  "core (snd (adapter_setNodeConfig i cfg a)) =
     (case map_of (nodes (core a)) i of None \<Rightarrow> core a
      | Some n \<Rightarrow> (core a)\<lparr>nodes := map_set i (setConfig cfg n) (nodes (core a))\<rparr>)"
  "core (snd (adapter_setControlValue i k v a)) =
     (case map_of (nodes (core a)) i of None \<Rightarrow> core a
      | Some n \<Rightarrow> if map_of (controls n) k = None then core a
                  else (core a)\<lparr>nodes := map_set i (set_control_value k v n) (nodes (core a))\<rparr>)"
  by (auto simp: adapter_setNodeMeta_def editor_update_core adapter_setNodeLabel_def split_beta syncState_def
      adapter_setNodeConfig_def adapter_setControlValue_def editor_getNode_def split: option.splits)

lemma restorable_core_in_place:
  assumes "restorable_core reg (core a)"
  shows "restorable_core reg (core (snd (adapter_updatePosition i p a)))"
    and "plain_patch m \<Longrightarrow> restorable_core reg (core (snd (adapter_setNodeMeta i m a)))"
    and "l \<noteq> [] \<Longrightarrow> restorable_core reg (core (snd (adapter_setNodeLabel i l a)))"
    and "restorable_core reg (core (snd (adapter_setNodeConfig i cfg a)))"
    and "restorable_core reg (core (snd (adapter_setControlValue i k v a)))"
  using assms unfolding adapter_updatePosition_core adapter_in_place_core
  by (auto split: option.splits intro!: restorable_core_update
      intro: instance_of_fields instance_of_meta instance_of_setConfig instance_of_set_control)

lemma restorable_core_add:
  assumes r: "restorable_core (buildNodeRegistryFromOdoo odoo) (core a)" and s: "registry_sound odoo"
  shows "restorable_core (buildNodeRegistryFromOdoo odoo) (core (snd (adapter_addNode odoo type p a)))"
    and "i \<noteq> [] \<Longrightarrow> restorable_core (buildNodeRegistryFromOdoo odoo)
          (core (snd (adapter_addNodeWithId odoo type p i cfg a)))"
proof -
  show "restorable_core (buildNodeRegistryFromOdoo odoo) (core (snd (adapter_addNode odoo type p a)))"
  proof (cases "map_of odoo type")
    case (Some C)
    then have "class_ok C" using s by (simp add: registry_class_ok)
    with Some r restorable_new(1) [OF s Some] show ?thesis
      by (simp add: adapter_addNode_def adapter_getNodeClass_def split_beta Let_def core_addNode_class
          restorable_core_set(2))
  qed (use r in \<open>simp add: adapter_addNode_def adapter_getNodeClass_def\<close>)
  show "restorable_core (buildNodeRegistryFromOdoo odoo) (core (snd (adapter_addNodeWithId odoo type p i cfg a)))"
    if "i \<noteq> []"
  proof (cases "map_of odoo type")
    case (Some C)
    with r that restorable_new(2) [OF s Some] show ?thesis
      by (simp add: adapter_addNodeWithId_core restorable_core_set(2))
  qed (use r in \<open>simp add: adapter_addNodeWithId_def adapter_getNodeClass_def\<close>)
qed

lemma restorable_core_reset:
  "restorable_core reg c \<Longrightarrow> restorable_core reg (c\<lparr>nodes := [], connections := [], idCounter := 0\<rparr>)"
  "restorable_core reg c \<Longrightarrow> restorable_core reg (c\<lparr>nodeRegistry := reg\<rparr>)"
  by (simp_all add: restorable_core_def)

interpretation ses: op_system "adapter_step odoo" "session_ok odoo" "session_inv odoo" for odoo
proof unfold_locales
  fix a op assume i: "session_inv odoo a" and ok: "session_ok odoo op a"
  then have "adapter_inv (adapter_step odoo op a)"
    by (intro ads.step_invar) (simp_all add: session_inv_def session_ok_def)
  moreover from i have r: "restorable_core (buildNodeRegistryFromOdoo odoo) (core a)"
    by (simp add: session_inv_def)
  then have "restorable_core (buildNodeRegistryFromOdoo odoo) (core (adapter_step odoo op a))"
    using ok
    by (cases op)
       (auto simp: session_ok_def adapter_ok_def restorable_core_in_place restorable_core_add
         adapter_removeNode_def editor_removeNode_core restorable_core_remove adapter_addConnection_def
         adapter_removeConnection_def editor_conn_core restorable_core_connect
         adapter_refreshNodeRegistry_def adapter_clear_def restorable_core_reset)
  ultimately show "session_inv odoo (adapter_step odoo op a)" by (simp add: session_inv_def)
qed

lemma session_inv_new: "session_inv odoo (new_WorkflowAdapter odoo)"
  using adapter_inv_new [of odoo]
  by (simp add: session_inv_def restorable_core_def new_WorkflowAdapter_def new_WorkflowEditor_def editor_on_def)

text \<open>Loading the snapshot of a session into any adapter over the same registry.\<close>

lemma session_reload:
  assumes "session_inv odoo a" and b: "wired b" "nodeRegistry (core b) = buildNodeRegistryFromOdoo odoo"
  shows "fst (adapter_fromJSON (adapter_toJSON a) b) = Inr ()
    \<and> nodes (core (snd (adapter_fromJSON (adapter_toJSON a) b))) = nodes (core a)
    \<and> connections (core (snd (adapter_fromJSON (adapter_toJSON a) b))) = connections (core a)
    \<and> session_inv odoo (snd (adapter_fromJSON (adapter_toJSON a) b))"
proof -
  let ?b = "snd (adapter_fromJSON (adapter_toJSON a) b)"
  let ?m = "max_id (map_keys (nodes (core a))) 0"
  from assms(1) have inv: "core_wf (core a)" and r: "restorable_core (buildNodeRegistryFromOdoo odoo) (core a)"
    by (simp_all add: session_inv_def adapter_inv_def)
  have load: "fst (adapter_fromJSON (adapter_toJSON a) b) = Inr ()"
    "core ?b = (core b)\<lparr>nodes := nodes (core a), connections := connections (core a), idCounter := ?m\<rparr>"
    using editor_fromJSON_toJSON_core [of "core a" b] inv r b(2)
    by (simp_all add: adapter_fromJSON_def adapter_toJSON_def editor_toJSON_def core_wf_def restorable_core_def)
  have "wired ?b" "observer ?b = mirror (core ?b)"
    using b(1) load(1)
    by (auto simp: adapter_fromJSON_def editor_fromJSON_def editor_clear_def Let_def emit_change
        split: prod.splits sum.splits)
  moreover have "core_wf (core ?b)"
  proof -
    have "conn_ok (core ?b) = conn_ok (core a)"
      by (intro ext conn_ok_cong) (simp_all add: same_sockets_def load(2))
    with inv show ?thesis using ids_below_max_id [of "map_keys (nodes (core a))" 0]
      by (simp add: load(2) core_wf_def nodes_wf_def conns_wf_def)
  qed
  ultimately show ?thesis using load r b(2) by (simp add: session_inv_def adapter_inv_def restorable_core_def)
qed

end
