(* ===== verification/History.thy ===== *)
theory History
  imports Js_Prelude
begin

section \<open>Undo and redo (core/history.js, class HistoryManager)\<close>

text \<open>
  The history manager over any world \<open>'s\<close> the actions work on. The closures \<open>undo\<close> and \<open>redo\<close> of an
  action are functions that return the new world and the exception they threw, if any. The stacks
  grow at the end of the list, as \<open>push\<close> and \<open>pop\<close> work. Subscribers own the state \<open>'u\<close>; the number
  beside a callback is the identity of its function object. The time stamp of an action and the
  console messages, which nothing reads, are left out.
\<close>

record 's action =
  description :: string
  act_undo :: "'s \<Rightarrow> 's \<times> js_error option"
  act_redo :: "'s \<Rightarrow> 's \<times> js_error option"

record hist_info =
  canUndo_flag :: bool
  canRedo_flag :: bool

record ('s, 'u) history =
  undoStack :: "'s action list"
  redoStack :: "'s action list"
  maxSize :: nat
  recording :: bool
  hcallbacks :: "(nat \<times> (hist_info \<Rightarrow> 'u \<Rightarrow> 'u)) list"
  currentBatch :: "'s action list option"
  hobserver :: 'u

definition new_HistoryManager :: "nat option \<Rightarrow> 'u \<Rightarrow> ('s, 'u) history" where
  "new_HistoryManager sz u =
     \<lparr>undoStack = [], redoStack = [],
      maxSize = (case sz of Some n \<Rightarrow> if n \<noteq> 0 then n else 50 | None \<Rightarrow> 50),
      recording = True, hcallbacks = [], currentBatch = None, hobserver = u\<rparr>"

definition startBatch :: "('s, 'u) history \<Rightarrow> ('s, 'u) history" where
  "startBatch h = h\<lparr>currentBatch := Some []\<rparr>"

definition hist_onChange :: "nat \<times> (hist_info \<Rightarrow> 'u \<Rightarrow> 'u) \<Rightarrow> ('s, 'u) history \<Rightarrow> ('s, 'u) history" where
  "hist_onChange cb h = h\<lparr>hcallbacks := hcallbacks h @ [cb]\<rparr>"

text \<open>The function \<open>onChange\<close> returns, which unsubscribes the callback.\<close>

definition hist_unsubscribe :: "nat \<Rightarrow> ('s, 'u) history \<Rightarrow> ('s, 'u) history" where
  "hist_unsubscribe cb h = h\<lparr>hcallbacks := filter (\<lambda>c. fst c \<noteq> cb) (hcallbacks h)\<rparr>"

definition canUndo :: "('s, 'u) history \<Rightarrow> bool" where
  "canUndo h \<longleftrightarrow> length (undoStack h) > 0"

definition canRedo :: "('s, 'u) history \<Rightarrow> bool" where
  "canRedo h \<longleftrightarrow> length (redoStack h) > 0"

definition hist_notify :: "('s, 'u) history \<Rightarrow> ('s, 'u) history" where
  "hist_notify h =
     h\<lparr>hobserver := foldl (\<lambda>u (i, f). f \<lparr>canUndo_flag = canUndo h, canRedo_flag = canRedo h\<rparr> u)
                     (hobserver h) (hcallbacks h)\<rparr>"

definition hist_push :: "'s action \<Rightarrow> ('s, 'u) history \<Rightarrow> ('s, 'u) history" where
  "hist_push a h =
     (if \<not> recording h then h
      else case currentBatch h of
             Some batch \<Rightarrow> h\<lparr>currentBatch := Some (batch @ [a])\<rparr>
           | None \<Rightarrow>
               (let st = undoStack h @ [a];
                    st' = (if length st > maxSize h then tl st else st)
                in hist_notify (h\<lparr>undoStack := st', redoStack := []\<rparr>)))"

text \<open>Calling a list of closures in turn; an exception stops the loop.\<close>

fun run_all :: "('s \<Rightarrow> 's \<times> js_error option) list \<Rightarrow> 's \<Rightarrow> 's \<times> js_error option" where
  "run_all [] s = (s, None)"
| "run_all (f # fs) s = (case f s of (s', Some e) \<Rightarrow> (s', Some e) | (s', None) \<Rightarrow> run_all fs s')"

definition batch_action :: "string \<Rightarrow> 's action list \<Rightarrow> 's action" where
  "batch_action desc batch =
     \<lparr>description = desc,
      act_undo = run_all (rev (map act_undo batch)),
      act_redo = run_all (map act_redo batch)\<rparr>"

definition commitBatch :: "string \<Rightarrow> ('s, 'u) history \<Rightarrow> ('s, 'u) history" where
  "commitBatch desc h =
     (case currentBatch h of
        None \<Rightarrow> h\<lparr>currentBatch := None\<rparr>
      | Some batch \<Rightarrow>
          if batch = [] then h\<lparr>currentBatch := None\<rparr>
          else hist_push (batch_action desc batch) (h\<lparr>currentBatch := None\<rparr>))"

text \<open>
  \<open>undo\<close> and \<open>redo\<close> return whether there was an action, or the exception of its closure. The
  \<open>finally\<close> clause switches recording back on in both cases; after an exception the popped action is
  on neither stack.
\<close>

definition hist_undo :: "('s, 'u) history \<Rightarrow> 's \<Rightarrow> (js_error + bool) \<times> ('s, 'u) history \<times> 's" where
  "hist_undo h s =
     (if undoStack h = [] then (Inr False, h, s)
      else
        (let a = last (undoStack h);
             h1 = h\<lparr>undoStack := butlast (undoStack h), recording := False\<rparr>
         in case act_undo a s of
              (s', Some e) \<Rightarrow> (Inl e, h1\<lparr>recording := True\<rparr>, s')
            | (s', None) \<Rightarrow>
                (Inr True, hist_notify (h1\<lparr>recording := True, redoStack := redoStack h @ [a]\<rparr>), s')))"

definition hist_redo :: "('s, 'u) history \<Rightarrow> 's \<Rightarrow> (js_error + bool) \<times> ('s, 'u) history \<times> 's" where
  "hist_redo h s =
     (if redoStack h = [] then (Inr False, h, s)
      else
        (let a = last (redoStack h);
             h1 = h\<lparr>redoStack := butlast (redoStack h), recording := False\<rparr>
         in case act_redo a s of
              (s', Some e) \<Rightarrow> (Inl e, h1\<lparr>recording := True\<rparr>, s')
            | (s', None) \<Rightarrow>
                (Inr True, hist_notify (h1\<lparr>recording := True, undoStack := undoStack h @ [a]\<rparr>), s')))"

definition hist_clear :: "('s, 'u) history \<Rightarrow> ('s, 'u) history" where
  "hist_clear h = hist_notify (h\<lparr>undoStack := [], redoStack := []\<rparr>)"

definition hist_pause :: "('s, 'u) history \<Rightarrow> ('s, 'u) history" where
  "hist_pause h = h\<lparr>recording := False\<rparr>"

definition hist_resume :: "('s, 'u) history \<Rightarrow> ('s, 'u) history" where
  "hist_resume h = h\<lparr>recording := True\<rparr>"

subsection \<open>The size of the history\<close>

lemma hist_notify_simps [simp]:
  "undoStack (hist_notify h) = undoStack h" "redoStack (hist_notify h) = redoStack h"
  "maxSize (hist_notify h) = maxSize h" "recording (hist_notify h) = recording h"
  "hcallbacks (hist_notify h) = hcallbacks h" "currentBatch (hist_notify h) = currentBatch h"
  by (simp_all add: hist_notify_def)

text \<open>\<open>redo\<close> pushes without a limit check; what bounds the undo stack is the bound on both stacks
  together.\<close>

definition hist_bounded :: "('s, 'u) history \<Rightarrow> bool" where
  "hist_bounded h \<longleftrightarrow> length (undoStack h) + length (redoStack h) \<le> maxSize h"

lemma hist_push_bounded: "hist_bounded h \<Longrightarrow> hist_bounded (hist_push a h)"
  by (auto simp: hist_bounded_def hist_push_def Let_def split: option.splits)

lemma commitBatch_bounded: "hist_bounded h \<Longrightarrow> hist_bounded (commitBatch d h)"
proof -
  assume "hist_bounded h"
  then have "hist_bounded (h\<lparr>currentBatch := None\<rparr>)" by (simp add: hist_bounded_def)
  then show "hist_bounded (commitBatch d h)"
    by (simp add: commitBatch_def hist_push_bounded split: option.splits)
qed

lemma hist_undo_bounded: "hist_bounded h \<Longrightarrow> hist_bounded (fst (snd (hist_undo h s)))"
  by (cases "undoStack h" rule: rev_cases)
     (auto simp: hist_bounded_def hist_undo_def Let_def split: prod.splits option.splits)

lemma hist_redo_bounded: "hist_bounded h \<Longrightarrow> hist_bounded (fst (snd (hist_redo h s)))"
  by (cases "redoStack h" rule: rev_cases)
     (auto simp: hist_bounded_def hist_redo_def Let_def split: prod.splits option.splits)

lemma hist_frame_bounded:
  assumes "hist_bounded h"
  shows "hist_bounded (startBatch h)" "hist_bounded (hist_clear h)" "hist_bounded (hist_pause h)"
    "hist_bounded (hist_resume h)"
  using assms by (simp_all add: hist_bounded_def startBatch_def hist_clear_def hist_pause_def hist_resume_def)

datatype 's hist_op =
    HPush "'s action" | HStart | HCommit string | HUndo | HRedo | HClear | HPause | HResume

text \<open>One call on the history and the world it acts on; an exception leaves the state it leaves.\<close>

fun hist_step :: "'s hist_op \<Rightarrow> ('s, 'u) history \<times> 's \<Rightarrow> ('s, 'u) history \<times> 's" where
  "hist_step (HPush a) (h, s) = (hist_push a h, s)"
| "hist_step HStart (h, s) = (startBatch h, s)"
| "hist_step (HCommit d) (h, s) = (commitBatch d h, s)"
| "hist_step HUndo (h, s) = snd (hist_undo h s)"
| "hist_step HRedo (h, s) = snd (hist_redo h s)"
| "hist_step HClear (h, s) = (hist_clear h, s)"
| "hist_step HPause (h, s) = (hist_pause h, s)"
| "hist_step HResume (h, s) = (hist_resume h, s)"

interpretation hbs: op_system hist_step "\<lambda>_ _. True" "\<lambda>hs. hist_bounded (fst hs)"
proof unfold_locales
  fix hs :: "('a, 'b) history \<times> 'a" and op
  assume b: "hist_bounded (fst hs)"
  obtain h s where hs: "hs = (h, s)" by (cases hs)
  show "hist_bounded (fst (hist_step op hs))"
    using b hist_undo_bounded [of h s] hist_redo_bounded [of h s]
    by (cases op) (simp_all add: hs hist_push_bounded commitBatch_bounded hist_frame_bounded)
qed

subsection \<open>The history as a cursor in a line of states\<close>

text \<open>
  The abstract specification: a list of actions leads from view to view; the undo stack leads to
  the present one, the redo stack, read from its top, leads on from it. The laws a client must give:
  what a recorded action changes, its closures undo and redo.
\<close>

fun chain :: "('a \<Rightarrow> 'v \<Rightarrow> 'v \<Rightarrow> bool) \<Rightarrow> 'a list \<Rightarrow> 'v \<Rightarrow> 'v \<Rightarrow> bool" where
  "chain R [] v w = (v = w)"
| "chain R (a # as) v w = (\<exists>u. R a v u \<and> chain R as u w)"

lemma chain_append: "chain R (as @ bs) v w = (\<exists>u. chain R as v u \<and> chain R bs u w)"
  by (induction as arbitrary: v) auto

locale undoable =
  fixes view :: "'s \<Rightarrow> 'v"
    and good :: "'s \<Rightarrow> bool"
    and leads :: "'s action \<Rightarrow> 'v \<Rightarrow> 'v \<Rightarrow> bool"
  assumes undo_law: "leads a v w \<Longrightarrow> good s \<Longrightarrow> view s = w \<Longrightarrow>
      \<exists>s'. act_undo a s = (s', None) \<and> good s' \<and> view s' = v"
    and redo_law: "leads a v w \<Longrightarrow> good s \<Longrightarrow> view s = v \<Longrightarrow>
      \<exists>s'. act_redo a s = (s', None) \<and> good s' \<and> view s' = w"
begin

lemma batch_redo:
  "chain leads batch v w \<Longrightarrow> good s \<Longrightarrow> view s = v \<Longrightarrow>
   \<exists>s'. act_redo (batch_action d batch) s = (s', None) \<and> good s' \<and> view s' = w"
proof (induction batch arbitrary: v s)
  case (Cons a batch)
  from Cons.prems(1) obtain u where u: "leads a v u" "chain leads batch u w" by auto
  from redo_law [OF u(1) Cons.prems(2,3)] obtain s1
    where "act_redo a s = (s1, None)" "good s1" "view s1 = u" by blast
  with Cons.IH [OF u(2)] show ?case by (simp add: batch_action_def)
qed (simp add: batch_action_def)

lemma batch_undo:
  "chain leads batch v w \<Longrightarrow> good s \<Longrightarrow> view s = w \<Longrightarrow>
   \<exists>s'. act_undo (batch_action d batch) s = (s', None) \<and> good s' \<and> view s' = v"
proof (induction batch arbitrary: w s rule: rev_induct)
  case (snoc a batch)
  from snoc.prems(1) obtain u where u: "chain leads batch v u" "leads a u w"
    by (auto simp: chain_append)
  from undo_law [OF u(2) snoc.prems(2,3)] obtain s1
    where "act_undo a s = (s1, None)" "good s1" "view s1 = u" by blast
  with snoc.IH [OF u(1)] show ?case by (simp add: batch_action_def)
qed (simp add: batch_action_def)

definition timeline :: "('s, 'u) history \<Rightarrow> 's \<Rightarrow> bool" where
  "timeline h s \<longleftrightarrow> good s \<and> (\<exists>v. chain leads (undoStack h) v (view s))
     \<and> (\<exists>w. chain leads (rev (redoStack h)) (view s) w)"

text \<open>One undo succeeds, stays on the line, and one redo after it comes back: the same stacks and
  the same view.\<close>

lemma undo_step:
  assumes t: "timeline h s" and ne: "undoStack h \<noteq> []"
  shows "\<exists>h' s'. hist_undo h s = (Inr True, h', s') \<and> timeline h' s'
    \<and> undoStack h' = butlast (undoStack h) \<and> redoStack h' = redoStack h @ [last (undoStack h)]
    \<and> leads (last (undoStack h)) (view s') (view s)"
proof -
  let ?a = "last (undoStack h)"
  have st: "undoStack h = butlast (undoStack h) @ [?a]" using ne by simp
  from t obtain v w where "chain leads (butlast (undoStack h) @ [?a]) v (view s)" "good s"
    and w: "chain leads (rev (redoStack h)) (view s) w"
    unfolding timeline_def using st by metis
  then obtain u where u: "chain leads (butlast (undoStack h)) v u" "leads ?a u (view s)"
    by (auto simp: chain_append)
  from undo_law [OF u(2) \<open>good s\<close> refl] obtain s'
    where s': "act_undo ?a s = (s', None)" "good s'" "view s' = u" by blast
  let ?h = "hist_notify (h\<lparr>undoStack := butlast (undoStack h), recording := True, redoStack := redoStack h @ [?a]\<rparr>)"
  have "hist_undo h s = (Inr True, ?h, s')" using ne s'(1) by (simp add: hist_undo_def Let_def)
  moreover have "timeline ?h s'" using s' u w by (auto simp: timeline_def)
  ultimately show ?thesis using u(2) s'(3) by auto
qed

lemma redo_step:
  assumes t: "timeline h s" and ne: "redoStack h \<noteq> []"
  shows "\<exists>h' s'. hist_redo h s = (Inr True, h', s') \<and> timeline h' s'
    \<and> redoStack h' = butlast (redoStack h) \<and> undoStack h' = undoStack h @ [last (redoStack h)]
    \<and> leads (last (redoStack h)) (view s) (view s')"
proof -
  let ?a = "last (redoStack h)"
  have st: "rev (redoStack h) = ?a # rev (butlast (redoStack h))"
    using ne by (metis append_butlast_last_id rev_eq_Cons_iff rev_rev_ident)
  from t obtain v w where v: "chain leads (undoStack h) v (view s)" and "good s"
    and "chain leads (rev (redoStack h)) (view s) w"
    unfolding timeline_def by blast
  then obtain u where u: "leads ?a (view s) u" "chain leads (rev (butlast (redoStack h))) u w"
    unfolding st by auto
  from redo_law [OF u(1) \<open>good s\<close> refl] obtain s'
    where s': "act_redo ?a s = (s', None)" "good s'" "view s' = u" by blast
  let ?h = "hist_notify (h\<lparr>redoStack := butlast (redoStack h), recording := True, undoStack := undoStack h @ [?a]\<rparr>)"
  have "hist_redo h s = (Inr True, ?h, s')" using ne s'(1) by (simp add: hist_redo_def Let_def)
  moreover have "timeline ?h s'" using s' u v by (auto simp: timeline_def chain_append)
  ultimately show ?thesis using u(1) s'(3) by auto
qed

text \<open>Recording an action that led to the present view; the oldest entry may fall off.\<close>

lemma push_step:
  assumes "timeline h s0" and "good s" and "leads a (view s0) (view s)"
    and "recording h" and "currentBatch h = None"
  shows "timeline (hist_push a h) s"
proof -
  from assms(1) obtain v where "chain leads (undoStack h) v (view s0)" by (auto simp: timeline_def)
  with assms(3) have c: "chain leads (undoStack h @ [a]) v (view s)" by (auto simp: chain_append)
  then have "\<exists>v'. chain leads (tl (undoStack h @ [a])) v' (view s)"
    by (cases "undoStack h") auto
  with c assms(2,4,5) show ?thesis by (auto simp: timeline_def hist_push_def Let_def)
qed

end

fun undo_times :: "nat \<Rightarrow> ('s, 'u) history \<times> 's \<Rightarrow> ('s, 'u) history \<times> 's" where
  "undo_times 0 hs = hs"
| "undo_times (Suc k) hs = undo_times k (snd (hist_undo (fst hs) (snd hs)))"

fun redo_times :: "nat \<Rightarrow> ('s, 'u) history \<times> 's \<Rightarrow> ('s, 'u) history \<times> 's" where
  "redo_times 0 hs = hs"
| "redo_times (Suc k) hs = snd (hist_redo (fst (redo_times k hs)) (snd (redo_times k hs)))"

context undoable begin

lemma leads_functional:
  assumes "leads a v w" and "leads a v w'" and "good s" and "view s = v"
  shows "w = w'"
  using redo_law [OF assms(1,3,4)] redo_law [OF assms(2,3,4)] by auto

text \<open>Undoing any number of actions and redoing as many gives the stacks and the view back.\<close>

lemma undo_redo_times:
  assumes "timeline h s" and "k \<le> length (undoStack h)"
  shows "case redo_times k (undo_times k (h, s)) of (h', s') \<Rightarrow>
    timeline h' s' \<and> undoStack h' = undoStack h \<and> redoStack h' = redoStack h \<and> view s' = view s"
  using assms
proof (induction k arbitrary: h s)
  case (Suc k)
  from Suc.prems(2) have ne: "undoStack h \<noteq> []" by auto
  from undo_step [OF Suc.prems(1) ne] obtain h1 s1 where u: "hist_undo h s = (Inr True, h1, s1)"
    "timeline h1 s1" "undoStack h1 = butlast (undoStack h)" "redoStack h1 = redoStack h @ [last (undoStack h)]"
    "leads (last (undoStack h)) (view s1) (view s)" by blast
  obtain h2 s2 where e: "redo_times k (undo_times k (h1, s1)) = (h2, s2)" by fastforce
  have "k \<le> length (undoStack h1)" using Suc.prems(2) u(3) by simp
  from Suc.IH [OF u(2) this] e have i: "timeline h2 s2" "undoStack h2 = undoStack h1"
    "redoStack h2 = redoStack h1" "view s2 = view s1" by simp_all
  have "redoStack h2 \<noteq> []" using i(3) u(4) by simp
  from redo_step [OF i(1) this] obtain h3 s3 where r: "hist_redo h2 s2 = (Inr True, h3, s3)"
    "timeline h3 s3" "redoStack h3 = butlast (redoStack h2)"
    "undoStack h3 = undoStack h2 @ [last (redoStack h2)]"
    "leads (last (redoStack h2)) (view s2) (view s3)" by blast
  have "good s2" using i(1) by (simp add: timeline_def)
  moreover have "leads (last (undoStack h)) (view s2) (view s3)" using r(5) i(3) u(4) by simp
  moreover have "leads (last (undoStack h)) (view s2) (view s)" using u(5) i(4) by simp
  ultimately have "view s3 = view s" using leads_functional by blast
  then show ?case using u(1) e r i u ne by simp
qed simp

end

subsection \<open>Histories with batches\<close>

text \<open>
  A batch of undoable actions is one undoable action. The line of a history with a batch open: the
  stacks meet at the view the batch started from, and the actions collected so far lead from there
  to the present.
\<close>

locale edit_history = one: undoable view good single
  for view :: "'s \<Rightarrow> 'v" and good :: "'s \<Rightarrow> bool" and single :: "'s action \<Rightarrow> 'v \<Rightarrow> 'v \<Rightarrow> bool"
begin

definition leads :: "'s action \<Rightarrow> 'v \<Rightarrow> 'v \<Rightarrow> bool" where
  "leads a v w \<longleftrightarrow> single a v w \<or> (\<exists>d batch. a = batch_action d batch \<and> chain single batch v w)"

definition line :: "('s, 'u) history \<Rightarrow> 's \<Rightarrow> bool" where
  "line h s \<longleftrightarrow> recording h \<and> 0 < maxSize h \<and> good s \<and>
     (\<exists>v0. (\<exists>v. chain leads (undoStack h) v v0) \<and> (\<exists>w. chain leads (rev (redoStack h)) v0 w)
        \<and> (case currentBatch h of None \<Rightarrow> v0 = view s | Some batch \<Rightarrow> chain single batch v0 (view s)))"

end

sublocale edit_history \<subseteq> all: undoable view good leads
proof
  fix a v w s assume "leads a v w" "good s" "view s = w"
  then show "\<exists>s'. act_undo a s = (s', None) \<and> good s' \<and> view s' = v"
    unfolding leads_def using one.undo_law one.batch_undo by blast
next
  fix a v w s assume "leads a v w" "good s" "view s = v"
  then show "\<exists>s'. act_redo a s = (s', None) \<and> good s' \<and> view s' = w"
    unfolding leads_def using one.redo_law one.batch_redo by blast
qed

context edit_history begin

lemma line_timeline: "currentBatch h = None \<Longrightarrow> line h s \<longleftrightarrow> recording h \<and> 0 < maxSize h \<and> all.timeline h s"
  by (auto simp: line_def all.timeline_def)

lemma line_good: "line h s \<Longrightarrow> good s"
  by (simp add: line_def)

lemma line_new: "good s \<Longrightarrow> line (new_HistoryManager n u) s"
  by (auto simp: line_def new_HistoryManager_def split: option.splits)

lemma line_same_view: "line h s \<Longrightarrow> good s' \<Longrightarrow> view s' = view s \<Longrightarrow> line h s'"
  unfolding line_def by (cases "currentBatch h") auto

lemma line_push:
  assumes "line h s" and "good s'" and "single a (view s) (view s')"
  shows "line (hist_push a h) s'"
proof (cases "currentBatch h")
  case None
  with assms have "all.timeline (hist_push a h) s'"
    by (intro all.push_step [of h s]) (simp_all add: line_timeline leads_def)
  with assms(1) None show ?thesis by (auto simp: line_timeline hist_push_def Let_def)
next
  case (Some batch)
  with assms show ?thesis by (auto simp: line_def hist_push_def chain_append)
qed

text \<open>An action just recorded outside a batch is the one undo takes back.\<close>

lemma line_push_undo:
  assumes "line h s" and "currentBatch h = None" and "good s'" and "single a (view s) (view s')"
  shows "fst (hist_undo (hist_push a h) s') = Inr True \<and> good (snd (snd (hist_undo (hist_push a h) s')))
    \<and> view (snd (snd (hist_undo (hist_push a h) s'))) = view s"
proof -
  have "undoStack (hist_push a h) \<noteq> []" "last (undoStack (hist_push a h)) = a"
    using assms(1,2) by (cases "undoStack h"; simp add: line_def hist_push_def Let_def)+
  with one.undo_law [OF assms(4,3) refl] show ?thesis by (auto simp: hist_undo_def Let_def)
qed

lemma line_begin: "line h s \<Longrightarrow> currentBatch h = None \<Longrightarrow> line (startBatch h) s"
  by (simp add: line_def startBatch_def)

lemma line_commit:
  assumes l: "line h s" shows "line (commitBatch d h) s"
proof (cases "currentBatch h")
  case None
  with l show ?thesis by (simp add: commitBatch_def line_def)
next
  case (Some batch)
  from l Some obtain v0 v w where v: "chain leads (undoStack h) v v0" and w: "chain leads (rev (redoStack h)) v0 w"
    and b: "chain single batch v0 (view s)" and g: "recording h" "0 < maxSize h" "good s" by (auto simp: line_def)
  show ?thesis
  proof (cases batch)
    case Nil
    with v w b g Some show ?thesis by (auto simp: commitBatch_def line_def)
  next
    case (Cons x xs)
    let ?a = "batch_action d batch" and ?st = "undoStack h @ [batch_action d batch]"
    have "leads ?a v0 (view s)" using b by (auto simp: leads_def)
    with v have c: "chain leads ?st v (view s)" by (auto simp: chain_append)
    then have "\<exists>v'. chain leads (tl ?st) v' (view s)" by (cases "undoStack h") auto
    with c g Some Cons show ?thesis by (auto simp: commitBatch_def line_def hist_push_def Let_def)
  qed
qed

text \<open>Undo and redo, outside a batch: they do not throw, and they stay on the line.\<close>

lemma hist_undo_batch:
  "currentBatch (fst (snd (hist_undo h s))) = currentBatch h" "currentBatch (fst (snd (hist_redo h s))) = currentBatch h"
  "recording h \<Longrightarrow> recording (fst (snd (hist_undo h s)))" "recording h \<Longrightarrow> recording (fst (snd (hist_redo h s)))"
  "maxSize (fst (snd (hist_undo h s))) = maxSize h" "maxSize (fst (snd (hist_redo h s))) = maxSize h"
  by (auto simp: hist_undo_def hist_redo_def Let_def split: prod.splits option.splits)

lemma line_undo:
  assumes "line h s" and "currentBatch h = None"
  shows "(\<exists>b. fst (hist_undo h s) = Inr b) \<and> line (fst (snd (hist_undo h s))) (snd (snd (hist_undo h s)))"
proof (cases "undoStack h = []")
  case True
  with assms show ?thesis by (auto simp: hist_undo_def)
next
  case False
  with assms all.undo_step [of h s] hist_undo_batch [of h s] show ?thesis by (auto simp: line_timeline)
qed

lemma line_redo:
  assumes "line h s" and "currentBatch h = None"
  shows "(\<exists>b. fst (hist_redo h s) = Inr b) \<and> line (fst (snd (hist_redo h s))) (snd (snd (hist_redo h s)))"
proof (cases "redoStack h = []")
  case True
  with assms show ?thesis by (auto simp: hist_redo_def)
next
  case False
  with assms all.redo_step [of h s] hist_undo_batch [of h s] show ?thesis by (auto simp: line_timeline)
qed

lemma line_undo_redo:
  assumes "line h s" and "currentBatch h = None" and "k \<le> length (undoStack h)"
  shows "case redo_times k (undo_times k (h, s)) of (h', s') \<Rightarrow>
    undoStack h' = undoStack h \<and> redoStack h' = redoStack h \<and> view s' = view s \<and> good s'"
  using all.undo_redo_times [of h s k] assms by (auto simp: line_timeline all.timeline_def)

end

subsection \<open>Properties\<close>

text \<open>C11: The history never holds more than its maximum. Through any sequence of pushes, batches, undo, redo,
  clear, pause and resume, with closures that may throw, the undo and the redo stack together have at
  most \<open>maxSize\<close> entries, although redo pushes without a limit check.\<close>

theorem history_bounded:
  "length (undoStack (fst (run_ops hist_step ops (new_HistoryManager (Some n) u, s))))
   + length (redoStack (fst (run_ops hist_step ops (new_HistoryManager (Some n) u, s))))
   \<le> maxSize (fst (run_ops hist_step ops (new_HistoryManager (Some n) u, s)))"
proof -
  have "hist_bounded (fst (new_HistoryManager (Some n) u, s))" by (simp add: hist_bounded_def new_HistoryManager_def)
  from hbs.run_invar [where ops = ops, OF this permitted_always] show ?thesis by (simp add: hist_bounded_def)
qed

end
