(* ===== verification/History_Actions.thy ===== *)
theory History_Actions
  imports Adapter_Inv History
begin

section \<open>The commands of the history (core/history.js, command factories)\<close>

text \<open>
  The actions the store records. Their closures act on the adapter; the registry of node types they
  read when they add a node is the argument \<open>odoo\<close>. None of the adapter calls they make throws.
\<close>

record node_data =
  nd_id :: string
  nd_type :: string
  nd_position :: position
  nd_config :: jsobj

record node_move =
  mv_nodeId :: string
  mv_old :: position
  mv_new :: position

definition createAddNodeAction :: "(string \<times> node_class) list \<Rightarrow> node_data \<Rightarrow> adapter action" where
  "createAddNodeAction odoo d =
     \<lparr>description = ''Add '' @ nd_type d @ '' node'',
      act_undo = (\<lambda>a. (snd (adapter_removeNode (nd_id d) a), None)),
      act_redo = (\<lambda>a. (snd (adapter_addNodeWithId odoo (nd_type d) (nd_position d) (nd_id d)
                              (Some (nd_config d)) a), None))\<rparr>"

definition restore_connections :: "ui_conn list \<Rightarrow> adapter \<Rightarrow> adapter" where
  "restore_connections cs a =
     foldl (\<lambda>a c. snd (adapter_addConnection (uc_source c) (uc_sourceHandle c) (uc_target c) (uc_targetHandle c) a)) a cs"

definition createRemoveNodeAction ::
    "(string \<times> node_class) list \<Rightarrow> node_data \<Rightarrow> ui_conn list \<Rightarrow> adapter action" where
  "createRemoveNodeAction odoo d relatedConnections =
     \<lparr>description = ''Remove '' @ nd_type d @ '' node'',
      act_undo = (\<lambda>a. (restore_connections relatedConnections
                         (snd (adapter_addNodeWithId odoo (nd_type d) (nd_position d) (nd_id d)
                                 (Some (nd_config d)) a)), None)),
      act_redo = (\<lambda>a. (snd (adapter_removeNode (nd_id d) a), None))\<rparr>"

definition createMoveNodeAction :: "string \<Rightarrow> position \<Rightarrow> position \<Rightarrow> adapter action" where
  "createMoveNodeAction nodeId old new =
     \<lparr>description = ''Move node'',
      act_undo = (\<lambda>a. (snd (adapter_updatePosition nodeId old a), None)),
      act_redo = (\<lambda>a. (snd (adapter_updatePosition nodeId new a), None))\<rparr>"

definition move_all :: "(string \<times> position) list \<Rightarrow> adapter \<Rightarrow> adapter" where
  "move_all ms a = foldl (\<lambda>a (i, p). snd (adapter_updatePosition i p a)) a ms"

definition createMoveNodesAction :: "node_move list \<Rightarrow> adapter action" where
  "createMoveNodesAction nodeMoves =
     \<lparr>description = ''Move nodes'',
      act_undo = (\<lambda>a. (move_all (map (\<lambda>m. (mv_nodeId m, mv_old m)) nodeMoves) a, None)),
      act_redo = (\<lambda>a. (move_all (map (\<lambda>m. (mv_nodeId m, mv_new m)) nodeMoves) a, None))\<rparr>"

definition createAddConnectionAction :: "ui_conn \<Rightarrow> adapter action" where
  "createAddConnectionAction c =
     \<lparr>description = ''Add connection'',
      act_undo = (\<lambda>a. (snd (adapter_removeConnection (uc_id c) a), None)),
      act_redo = (\<lambda>a. (snd (adapter_addConnection (uc_source c) (uc_sourceHandle c) (uc_target c)
                              (uc_targetHandle c) a), None))\<rparr>"

definition createRemoveConnectionAction :: "ui_conn \<Rightarrow> adapter action" where
  "createRemoveConnectionAction c =
     \<lparr>description = ''Remove connection'',
      act_undo = (\<lambda>a. (snd (adapter_addConnection (uc_source c) (uc_sourceHandle c) (uc_target c)
                              (uc_targetHandle c) a), None)),
      act_redo = (\<lambda>a. (snd (adapter_removeConnection (uc_id c) a), None))\<rparr>"

subsection \<open>What of the graph an action changes\<close>

text \<open>
  The view of the graph that undo restores: which node each id has, and the set of connections. The
  order of the two lists and the id counter are not part of it.
\<close>

type_synonym gview = "(string \<rightharpoonup> node) \<times> connection set"

definition graph_view :: "adapter \<Rightarrow> gview" where
  "graph_view a = (map_of (nodes (core a)), set (connections (core a)))"

definition link_ok :: "(string \<rightharpoonup> node) \<Rightarrow> connection \<Rightarrow> bool" where
  "link_ok M k \<longleftrightarrow>
     (\<exists>s t out inp. M (source k) = Some s \<and> M (target k) = Some t \<and> map_of (outputs s) (sourceHandle k) = Some out
        \<and> map_of (inputs t) (targetHandle k) = Some inp \<and> isCompatible (sd_socket out) (Some (sd_socket inp)))
     \<and> source k \<noteq> target k
     \<and> conn_id k = generateId (source k) (sourceHandle k) (target k) (targetHandle k)"

lemma conn_ok_view: "conn_ok c k = link_ok (map_of (nodes c)) k"
  by (auto simp: conn_ok_def link_ok_def split: option.splits)

definition plain_conn :: "connection \<Rightarrow> bool" where
  "plain_conn k \<longleftrightarrow> k = new_Connection (source k) (sourceHandle k) (target k) (targetHandle k)"

text \<open>Which action leads from which view to which: one rule per factory, with what the store has
  established when it records the action.\<close>

inductive records :: "(string \<times> node_class) list \<Rightarrow> adapter action \<Rightarrow> gview \<Rightarrow> gview \<Rightarrow> bool"
  for odoo where
  add_node: "M i = None \<Longrightarrow> i \<noteq> [] \<Longrightarrow> map_of odoo type = Some C \<Longrightarrow>
     \<forall>k \<in> K. \<not> involvesNode k i \<Longrightarrow>
     records odoo (createAddNodeAction odoo \<lparr>nd_id = i, nd_type = type, nd_position = p, nd_config = cfg\<rparr>)
       (M, K) (M(i \<mapsto> forced_node C p i (Some cfg)), K)"
| remove_node: "M i = None \<Longrightarrow> i \<noteq> [] \<Longrightarrow> map_of odoo type = Some C \<Longrightarrow>
     \<forall>k \<in> K. \<not> involvesNode k i \<Longrightarrow>
     distinct (map conn_id cs) \<Longrightarrow> conn_id ` set cs \<inter> conn_id ` K = {} \<Longrightarrow>
     \<forall>k \<in> set cs. involvesNode k i \<and> plain_conn k \<and> link_ok (M(i \<mapsto> forced_node C p i (Some cfg))) k \<Longrightarrow>
     records odoo (createRemoveNodeAction odoo \<lparr>nd_id = i, nd_type = type, nd_position = p, nd_config = cfg\<rparr>
                     (map conn_to_ui cs))
       (M(i \<mapsto> forced_node C p i (Some cfg)), K \<union> set cs) (M, K)"
| move_node: "M i = Some n \<Longrightarrow> position n = old \<Longrightarrow>
     records odoo (createMoveNodeAction i old new) (M, K) (M(i \<mapsto> n\<lparr>position := new\<rparr>), K)"
| move_nodes: "distinct (map mv_nodeId ms) \<Longrightarrow>
     \<forall>m \<in> set ms. \<exists>n. M (mv_nodeId m) = Some n \<and> position n = mv_old m \<Longrightarrow>
     records odoo (createMoveNodesAction ms) (M, K)
       (\<lambda>i. case map_of (map (\<lambda>m. (mv_nodeId m, mv_new m)) ms) i of
              None \<Rightarrow> M i | Some p \<Rightarrow> map_option (\<lambda>n. n\<lparr>position := p\<rparr>) (M i), K)"
| add_connection: "plain_conn k \<Longrightarrow> link_ok M k \<Longrightarrow> conn_id k \<notin> conn_id ` K \<Longrightarrow>
     records odoo (createAddConnectionAction (conn_to_ui k)) (M, K) (M, insert k K)"
| remove_connection: "plain_conn k \<Longrightarrow> link_ok M k \<Longrightarrow> conn_id k \<notin> conn_id ` K \<Longrightarrow>
     records odoo (createRemoveConnectionAction (conn_to_ui k)) (M, insert k K) (M, K)"

subsection \<open>The adapter's operations on the view\<close>

lemma view_wf:
  assumes "adapter_inv a" and "graph_view a = (M, K)"
  shows "\<forall>k \<in> K. link_ok M k" and "inj_on conn_id K" and "\<And>i n. M i = Some n \<Longrightarrow> node_id n = Some i \<and> i \<noteq> []"
  using assms
  by (auto simp: adapter_inv_def core_wf_def nodes_wf_def conns_wf_def graph_view_def list_all_iff conn_ok_view
      distinct_map dest!: map_of_SomeD)

lemma view_removeNode:
  assumes inv: "adapter_inv a" and v: "graph_view a = (M, K)"
  shows "graph_view (snd (adapter_removeNode i a)) = (M(i := None), {k \<in> K. \<not> involvesNode k i})"
proof (cases "M i")
  case None
  then have "\<not> involvesNode k i" if "k \<in> K" for k
    using view_wf(1) [OF inv v] that by (auto simp: link_ok_def involvesNode_def)
  with None v show ?thesis
    by (auto simp: graph_view_def adapter_removeNode_def editor_removeNode_core fun_upd_idem)
next
  case (Some n)
  with v show ?thesis
    by (auto simp: graph_view_def adapter_removeNode_def editor_removeNode_core jsm.get_remove)
qed

lemma view_addNodeWithId:
  assumes v: "graph_view a = (M, K)" and C: "map_of odoo type = Some C" and i: "i \<noteq> []"
  shows "graph_view (snd (adapter_addNodeWithId odoo type p i cfg a)) = (M(i \<mapsto> forced_node C p i cfg), K)"
  using v by (simp add: graph_view_def adapter_addNodeWithId_core [OF C i] jsm.get_put)

lemma view_updatePosition:
  assumes v: "graph_view a = (M, K)"
  shows "graph_view (snd (adapter_updatePosition i p a)) =
    (M(i := map_option (\<lambda>n. n\<lparr>position := p\<rparr>) (M i)), K)"
proof (cases "M i")
  case None
  with v show ?thesis by (auto simp: graph_view_def adapter_updatePosition_def editor_getNode_def)
next
  case (Some n)
  show ?thesis
  proof (cases "position n = p")
    case True
    then have "n\<lparr>position := p\<rparr> = n" by (cases n) simp
    with True Some v show ?thesis
      by (auto simp: graph_view_def adapter_updatePosition_def editor_getNode_def fun_eq_iff)
  next
    case False
    then have "\<not> (fst (position n) = fst p \<and> snd (position n) = snd p)" by (metis prod.expand)
    with Some v show ?thesis
      by (auto simp: graph_view_def adapter_updatePosition_def editor_getNode_def Let_def
          editor_updateNodePosition_def jsm.get_put)
  qed
qed

lemma view_addConnection:
  assumes v: "graph_view a = (M, K)" and k: "plain_conn k" "link_ok M k" "conn_id k \<notin> conn_id ` K"
  shows "graph_view (snd (adapter_addConnection (source k) (sourceHandle k) (target k) (targetHandle k) a))
    = (M, insert k K)"
proof -
  have k': "new_Connection (source k) (sourceHandle k) (target k) (targetHandle k) = k"
    using k(1) by (simp add: plain_conn_def)
  then have "conn_id k = generateId (source k) (sourceHandle k) (target k) (targetHandle k)"
    by (metis connection.select_convs(1) new_Connection_def)
  with k v k' have "connectable (source k) (sourceHandle k) (target k) (targetHandle k) (core a)"
    by (auto simp: connectable_def conn_ok_view graph_view_def)
  with v k' show ?thesis by (auto simp: adapter_addConnection_def graph_view_def editor_conn_core)
qed

lemma view_removeConnection:
  assumes inv: "adapter_inv a" and v: "graph_view a = (M, K)"
  shows "graph_view (snd (adapter_removeConnection i a)) = (M, {k \<in> K. conn_id k \<noteq> i})"
proof -
  have "distinct (map conn_id (connections (core a)))"
    using inv by (simp add: adapter_inv_def core_wf_def conns_wf_def)
  from remove_first_filter [OF this] v show ?thesis
    by (auto simp: adapter_removeConnection_def graph_view_def editor_conn_core)
qed

lemma move_all_inv: "adapter_inv a \<Longrightarrow> adapter_inv (move_all ms a)"
  unfolding move_all_def by (induction ms arbitrary: a) (auto intro: adapter_updatePosition_inv)

definition moved :: "(string \<times> position) list \<Rightarrow> (string \<rightharpoonup> node) \<Rightarrow> string \<rightharpoonup> node" where
  "moved ms M = (\<lambda>i. case map_of ms i of None \<Rightarrow> M i | Some p \<Rightarrow> map_option (\<lambda>n. n\<lparr>position := p\<rparr>) (M i))"

lemma view_move_all:
  assumes "graph_view a = (M, K)" and "distinct (map fst ms)"
  shows "graph_view (move_all ms a) = (moved ms M, K)"
  using assms
proof (induction ms arbitrary: a M)
  case Nil
  then show ?case by (simp add: move_all_def moved_def)
next
  case (Cons m ms)
  obtain i p where m: "m = (i, p)" by (cases m)
  have "graph_view (move_all ms (snd (adapter_updatePosition i p a)))
      = (moved ms (M(i := map_option (\<lambda>n. n\<lparr>position := p\<rparr>) (M i))), K)"
    using Cons.prems(2) by (intro Cons.IH view_updatePosition [OF Cons.prems(1)]) simp
  moreover have "map_of ms i = None" using Cons.prems(2) m by (force simp: map_of_eq_None_iff)
  ultimately show ?case by (auto simp: move_all_def m moved_def fun_eq_iff split: option.splits)
qed

lemma restore_connections_inv: "adapter_inv a \<Longrightarrow> adapter_inv (restore_connections cs a)"
  unfolding restore_connections_def
  by (induction cs arbitrary: a) (auto intro: adapter_connection_inv(1))

lemma view_restore_connections:
  assumes "graph_view a = (M, K)" and "\<forall>k \<in> set cs. plain_conn k \<and> link_ok M k"
    and "distinct (map conn_id cs)" and "conn_id ` set cs \<inter> conn_id ` K = {}"
  shows "graph_view (restore_connections (map conn_to_ui cs) a) = (M, K \<union> set cs)"
  using assms
proof (induction cs arbitrary: a K)
  case (Cons k cs)
  have "graph_view (snd (adapter_addConnection (source k) (sourceHandle k) (target k) (targetHandle k) a))
      = (M, insert k K)"
    using Cons.prems by (intro view_addConnection) auto
  from Cons.IH [OF this] Cons.prems show ?case
    by (auto simp: restore_connections_def conn_to_ui_def image_iff)
qed (simp add: restore_connections_def)

subsection \<open>Every recorded action undoes and redoes\<close>

lemma fresh_key: "graph_view a = (M, K) \<Longrightarrow> M i = None \<Longrightarrow> i \<notin> set (map_keys (nodes (core a)))"
  by (force simp: graph_view_def map_of_eq_None_iff)

lemma position_same: "position n = p \<Longrightarrow> n\<lparr>position := q, position := p\<rparr> = n"
  by (cases n) simp

lemmas factory_defs = createAddNodeAction_def createRemoveNodeAction_def createMoveNodeAction_def
  createMoveNodesAction_def createAddConnectionAction_def createRemoveConnectionAction_def conn_to_ui_def

lemmas view_inv_intros = adapter_removeNode_inv adapter_updatePosition_inv adapter_connection_inv
  move_all_inv restore_connections_inv adapter_addNodeWithId_inv

lemma moved_back:
  fixes ms :: "node_move list"
  assumes "distinct (map mv_nodeId ms)"
    and "\<forall>m \<in> set ms. \<exists>n. M (mv_nodeId m) = Some n \<and> position n = mv_old m"
  shows "moved (map (\<lambda>m. (mv_nodeId m, mv_old m)) ms) (moved (map (\<lambda>m. (mv_nodeId m, mv_new m)) ms) M) = M"
proof
  fix i
  show "moved (map (\<lambda>m. (mv_nodeId m, mv_old m)) ms) (moved (map (\<lambda>m. (mv_nodeId m, mv_new m)) ms) M) i = M i"
  proof (cases "i \<in> mv_nodeId ` set ms")
    case True
    then obtain m where m: "m \<in> set ms" "i = mv_nodeId m" by blast
    then have "map_of (map (\<lambda>m. (mv_nodeId m, f m)) ms) i = Some (f m)" for f :: "node_move \<Rightarrow> position"
      using assms(1) by (intro map_of_is_SomeI) (auto simp: comp_def)
    with assms(2) m show ?thesis by (auto simp: moved_def intro!: position_same)
  next
    case False
    then have "map_of (map (\<lambda>m. (mv_nodeId m, f m)) ms) i = None" for f :: "node_move \<Rightarrow> position"
      by (auto simp: map_of_eq_None_iff)
    then show ?thesis by (simp add: moved_def)
  qed
qed

lemma records_redo:
  assumes "records odoo act v w" and "adapter_inv a" and "graph_view a = v"
  shows "\<exists>a'. act_redo act a = (a', None) \<and> adapter_inv a' \<and> graph_view a' = w"
  using assms
proof (cases rule: records.cases)
  case (add_node M i type C K p cfg)
  with assms show ?thesis
    by (auto simp: factory_defs view_addNodeWithId intro!: adapter_addNodeWithId_inv dest: fresh_key)
next
  case (remove_node M i type C K cs p cfg)
  with assms view_removeNode [of a] show ?thesis
    by (auto simp: factory_defs fun_upd_idem intro!: view_inv_intros)
next
  case (move_node M i n old new K)
  with assms show ?thesis by (auto simp: factory_defs view_updatePosition intro!: view_inv_intros)
next
  case (move_nodes ms M K)
  with assms show ?thesis
    by (auto simp: factory_defs view_move_all comp_def moved_def intro!: view_inv_intros)
next
  case (add_connection k M K)
  with assms show ?thesis by (auto simp: factory_defs view_addConnection intro!: view_inv_intros)
next
  case (remove_connection k M K)
  then have "{x \<in> insert k K. conn_id x \<noteq> conn_id k} = K" by (auto simp: image_iff)
  with remove_connection assms show ?thesis
    by (auto simp: factory_defs view_removeConnection intro!: view_inv_intros)
qed

lemma records_undo:
  assumes "records odoo act v w" and "adapter_inv a" and "graph_view a = w"
  shows "\<exists>a'. act_undo act a = (a', None) \<and> adapter_inv a' \<and> graph_view a' = v"
  using assms
proof (cases rule: records.cases)
  case (add_node M i type C K p cfg)
  with assms view_removeNode [of a] show ?thesis
    by (auto simp: factory_defs fun_upd_idem intro!: view_inv_intros)
next
  case (remove_node M i type C K cs p cfg)
  let ?a = "snd (adapter_addNodeWithId odoo type p i (Some cfg) a)"
  have "graph_view ?a = (M(i \<mapsto> forced_node C p i (Some cfg)), K)"
    using remove_node assms by (intro view_addNodeWithId) auto
  then have "graph_view (restore_connections (map conn_to_ui cs) ?a)
      = (M(i \<mapsto> forced_node C p i (Some cfg)), K \<union> set cs)"
    using remove_node by (intro view_restore_connections) auto
  moreover have "adapter_inv ?a"
    using remove_node assms fresh_key by (intro adapter_addNodeWithId_inv) auto
  ultimately show ?thesis
    using remove_node by (auto simp: createRemoveNodeAction_def intro: restore_connections_inv)
next
  case (move_node M i n old new K)
  with assms show ?thesis
    by (auto simp: factory_defs view_updatePosition position_same fun_upd_idem intro!: view_inv_intros)
next
  case (move_nodes ms M K)
  then have "w = (moved (map (\<lambda>m. (mv_nodeId m, mv_new m)) ms) M, K)" by (simp add: moved_def)
  with move_nodes assms moved_back [of ms M] show ?thesis
    by (auto simp: factory_defs view_move_all comp_def intro!: view_inv_intros)
next
  case (add_connection k M K)
  then have "{x \<in> insert k K. conn_id x \<noteq> conn_id k} = K" by (auto simp: image_iff)
  with add_connection assms show ?thesis
    by (auto simp: factory_defs view_removeConnection intro!: view_inv_intros)
next
  case (remove_connection k M K)
  with assms show ?thesis by (auto simp: factory_defs view_addConnection intro!: view_inv_intros)
qed

interpretation gh: edit_history graph_view adapter_inv "records odoo" for odoo
  by unfold_locales (auto dest: records_undo records_redo)

end
