(* ===== verification/Progress.thy ===== *)
theory Progress
  imports Js_Prelude Sockets
begin

section \<open>Execution progress (store/workflow_store.js, execution helpers)\<close>

text \<open>
  The progress of a run is one object, filled by bus events node by node and in bulk when the
  execute call returns. It is modelled as that object: \<open>Object.assign\<close> of any fields is
  \<open>obj_assign\<close>. The fields the source documents as arrays are read with \<open>arr_items\<close>, the one it
  documents as an object with \<open>own_props\<close>.
\<close>

type_synonym progress = jsobj

definition createFreshProgress :: "jsval \<Rightarrow> progress" where
  "createFreshProgress runId =
     [(''runId'', runId), (''status'', JStr ''running''), (''nodeStatuses'', JObj []), (''executedOrder'', JArr []),
      (''executedConnectionIds'', JArr []), (''executedConnections'', JArr []), (''executionEvents'', JArr []),
      (''nodeResults'', JArr []), (''nodeOutputs'', JNull), (''error'', JNull), (''errorNodeId'', JNull),
      (''outputData'', JNull), (''inputData'', JObj []), (''contextSnapshot'', JNull), (''executionCount'', JNull),
      (''durationSeconds'', JNull), (''nodeCountExecuted'', JNull)]"

definition field :: "progress \<Rightarrow> string \<Rightarrow> jsval" where
  "field p k = js_prop (JObj p) k"

definition normalizeInputData :: "jsval \<Rightarrow> jsval" where
  "normalizeInputData inputData = (if truthy inputData \<and> typeof_object inputData then inputData else JObj [])"

definition result_status :: "jsval \<Rightarrow> jsval" where
  "result_status r = (if truthy (js_prop r ''error_message'') then JStr ''error'' else JStr ''success'')"

definition buildNodeStatusesFromResults :: "jsval list \<Rightarrow> jsobj" where
  "buildNodeStatusesFromResults nodeResults =
     foldl (\<lambda>statuses r.
              if truthy r \<and> truthy (js_prop r ''node_id'')
              then obj_set (js_string (js_prop r ''node_id'')) (result_status r) statuses
              else statuses) [] nodeResults"

text \<open>The loop from the end of the executed order that keeps the last occurrence of each id.\<close>

fun collect_unseen :: "'a list \<Rightarrow> 'a list \<Rightarrow> 'a list" where
  "collect_unseen seen [] = []"
| "collect_unseen seen (x # xs) =
     (if x \<in> set seen then collect_unseen seen xs else x # collect_unseen (x # seen) xs)"

definition output_result :: "jsval \<Rightarrow> jsval \<Rightarrow> jsval" where
  "output_result outputs nodeId =
     (let out = js_or (js_prop outputs (js_string nodeId)) (JObj [])
      in JObj [(''node_id'', nodeId), (''output_data'', js_prop out ''json''),
               (''error_message'', js_or (js_prop out ''error'') JNull), (''title'', js_prop out ''title''),
               (''meta'', js_or (js_prop out ''meta'') JNull)])"

definition buildNodeResultsFromOutputs :: "jsval \<Rightarrow> jsval \<Rightarrow> jsval list" where
  "buildNodeResultsFromOutputs nodeOutputs executedOrder =
     (let outputs = js_or nodeOutputs (JObj []);
          order = (if is_array executedOrder then arr_items executedOrder else []);
          src = (if order \<noteq> [] then order else map JStr (map_keys (own_props outputs)))
      in map (output_result outputs) (rev (collect_unseen [] (rev src))))"

subsection \<open>The result of a run\<close>

definition merge_statuses :: "jsval list \<Rightarrow> progress \<Rightarrow> progress" where
  "merge_statuses rs p =
     obj_set ''nodeStatuses''
       (JObj (obj_assign (own_props (field p ''nodeStatuses'')) (buildNodeStatusesFromResults rs))) p"

definition derive_connection_ids :: "progress \<Rightarrow> progress" where
  "derive_connection_ids p =
     (if arr_items (field p ''executedConnectionIds'') = [] \<and> arr_items (field p ''executedConnections'') \<noteq> []
      then obj_set ''executedConnectionIds''
             (JArr (map (\<lambda>e. js_prop e ''connection_id'')
                (filter (\<lambda>e. truthy e \<and> truthy (js_prop e ''connection_id'')) (arr_items (field p ''executedConnections''))))) p
      else p)"

text \<open>\<open>setExecutionResult\<close>: the progress after it, and whether it opens the execution log.\<close>

definition set_result :: "jsobj \<Rightarrow> progress option \<Rightarrow> progress" where
  "set_result flds p =
     (let p0 = (case p of None \<Rightarrow> createFreshProgress JNull | Some q \<Rightarrow> q);
          p1 = obj_assign p0 flds;
          rs = arr_items (js_prop (JObj flds) ''nodeResults'');
          p2 = (if rs \<noteq> [] then merge_statuses rs p1 else p1)
      in derive_connection_ids p2)"

definition opens_log :: "progress \<Rightarrow> bool" where
  "opens_log p \<longleftrightarrow> field p ''status'' = JStr ''completed'' \<or> field p ''status'' = JStr ''failed''"

definition replace_result :: "jsval \<Rightarrow> progress" where
  "replace_result flds =
     (let runId = (if truthy flds \<and> truthy (js_prop flds ''runId'') then js_prop flds ''runId'' else JNull)
      in set_result (own_props (js_or flds (JObj []))) (Some (createFreshProgress runId)))"

subsection \<open>Events of the bus\<close>

definition complete_node :: "progress \<Rightarrow> jsval \<Rightarrow> progress" where
  "complete_node p node =
     (if \<not> truthy node \<or> \<not> truthy (js_prop node ''node_id'') then p
      else
        (let nid = js_prop node ''node_id'';
             order = arr_items (field p ''executedOrder'');
             p1 = (if order = [] \<or> last order \<noteq> nid then obj_set ''executedOrder'' (JArr (order @ [nid])) p else p)
         in obj_set ''nodeStatuses''
              (JObj (obj_set (js_string nid) (js_or (js_prop node ''status'') (JStr ''success''))
                 (own_props (field p1 ''nodeStatuses'')))) p1))"

definition push_to :: "string \<Rightarrow> jsval \<Rightarrow> progress \<Rightarrow> progress" where
  "push_to k v p = obj_set k (JArr (arr_items (field p k) @ [v])) p"

definition follow_connection :: "progress \<Rightarrow> jsval \<Rightarrow> progress" where
  "follow_connection p conn =
     (if \<not> truthy conn \<or> \<not> typeof_object conn then p
      else push_to ''executedConnections'' conn
             (if truthy (js_prop conn ''connection_id'')
              then push_to ''executedConnectionIds'' (js_prop conn ''connection_id'') p else p))"

definition copy_array :: "jsval \<Rightarrow> string \<Rightarrow> string \<Rightarrow> progress \<Rightarrow> progress" where
  "copy_array payload k k' p = (if is_array (js_prop payload k) then obj_set k' (js_prop payload k) p else p)"

definition finish_progress :: "jsval \<Rightarrow> progress \<Rightarrow> progress" where
  "finish_progress payload p =
     (if truthy (js_prop payload ''status'')
      then copy_array payload ''executed_connections'' ''executedConnections''
             (copy_array payload ''executed_connection_ids'' ''executedConnectionIds''
               (copy_array payload ''executed_order'' ''executedOrder''
                 (obj_set ''error'' (js_or (js_prop payload ''error'') JNull)
                   (obj_set ''status'' (js_prop payload ''status'') p))))
      else p)"

definition on_progress :: "jsval \<Rightarrow> progress option \<Rightarrow> progress option" where
  "on_progress payload pr =
     (if \<not> truthy payload then pr
      else
        (let p0 = (case pr of None \<Rightarrow> createFreshProgress (js_prop payload ''run_id'') | Some q \<Rightarrow> q);
             rid = js_prop payload ''run_id''
         in if truthy (field p0 ''runId'') \<and> truthy rid \<and> field p0 ''runId'' \<noteq> rid then Some p0
            else
              (let p1 = foldl complete_node p0 (arr_items (js_prop payload ''completed_nodes''));
                   p2 = foldl follow_connection p1 (arr_items (js_prop payload ''connections''));
                   nxt = js_prop payload ''next_running_node_id'';
                   p3 = (if truthy nxt
                         then obj_set ''nodeStatuses''
                                (JObj (obj_set (js_string nxt) (JStr ''running'') (own_props (field p2 ''nodeStatuses'')))) p2
                         else p2)
               in Some (finish_progress payload p3))))"

subsection \<open>Replacing the result of one node\<close>

definition matches_result :: "jsval \<Rightarrow> jsval \<Rightarrow> bool" where
  "matches_result normalized item \<longleftrightarrow>
     (truthy (js_prop normalized ''node_run_id'') \<and> js_prop item ''node_run_id'' = js_prop normalized ''node_run_id'')
     \<or> (\<not> truthy (js_prop normalized ''node_run_id'')
        \<and> js_prop item ''node_id'' = js_prop normalized ''node_id''
        \<and> js_prop item ''sequence'' = js_prop normalized ''sequence''
        \<and> js_prop item ''iteration'' = js_prop normalized ''iteration'')"

definition replaces_item :: "jsval \<Rightarrow> jsval \<Rightarrow> bool" where
  "replaces_item normalized item \<longleftrightarrow> truthy item \<and> typeof_object item \<and> matches_result normalized item"

definition replaceItems :: "jsval \<Rightarrow> jsval list \<Rightarrow> jsval list" where
  "replaceItems normalized items =
     (let nextItems = map (\<lambda>i. if replaces_item normalized i then normalized else i) items
      in if list_ex (replaces_item normalized) items then nextItems else nextItems @ [normalized])"

definition replace_node_result :: "jsval \<Rightarrow> progress option \<Rightarrow> js_error + progress" where
  "replace_node_result nodeResult pr =
     (if \<not> truthy nodeResult \<or> \<not> truthy (js_prop nodeResult ''node_id'')
      then Inl (JsError ''replaceExecutionNodeResult requires nodeResult.node_id'')
      else
        (let p0 = (case pr of None \<Rightarrow> createFreshProgress JNull | Some q \<Rightarrow> q);
             normalized = JObj (own_props nodeResult);
             p1 = obj_set ''nodeResults'' (JArr (replaceItems normalized (arr_items (field p0 ''nodeResults'')))) p0;
             p2 = obj_set ''executionEvents'' (JArr (replaceItems normalized (arr_items (field p1 ''executionEvents'')))) p1
         in Inr (obj_set ''nodeStatuses''
                   (JObj (obj_set (js_string (js_prop normalized ''node_id'')) (result_status normalized)
                      (own_props (field p2 ''nodeStatuses'')))) p2)))"

subsection \<open>Reading a field after a write\<close>

lemma field_obj_set [simp]: "field (obj_set k v p) j = (if j = k then v else field p j)"
  by (simp add: field_def jso.get_put)

lemma field_obj_assign: "field (obj_assign p q) j = (case map_of (rev q) j of Some v \<Rightarrow> v | None \<Rightarrow> field p j)"
  using jso.get_put_all [of p q] by (simp add: field_def obj_assign_def map_add_def split: option.splits)

text \<open>What the statuses built from a list of results say of a node: the outcome of its last result.\<close>

definition results_of :: "string \<Rightarrow> jsval list \<Rightarrow> jsval list" where
  "results_of i rs = filter (\<lambda>r. truthy r \<and> truthy (js_prop r ''node_id'') \<and> js_string (js_prop r ''node_id'') = i) rs"

lemma map_of_statuses:
  "map_of (buildNodeStatusesFromResults rs) i =
     (if results_of i rs = [] then None else Some (result_status (last (results_of i rs))))"
proof (induction rs rule: rev_induct)
  case Nil
  then show ?case by (simp add: buildNodeStatusesFromResults_def results_of_def)
next
  case (snoc r rs)
  then show ?case by (auto simp: buildNodeStatusesFromResults_def results_of_def jso.get_put)
qed

lemma distinct_statuses: "distinct (map_keys (buildNodeStatusesFromResults rs))"
  unfolding buildNodeStatusesFromResults_def
  by (induction rs rule: rev_induct) (auto intro: jso.distinct_put)

lemma statuses_after_merge:
  "map_of (own_props (field (merge_statuses rs p) ''nodeStatuses'')) i =
     (if results_of i rs = [] then map_of (own_props (field p ''nodeStatuses'')) i
      else Some (result_status (last (results_of i rs))))"
  using jso.get_put_all [of "own_props (field p ''nodeStatuses'')" "buildNodeStatusesFromResults rs"]
  by (simp add: merge_statuses_def obj_assign_def map_of_rev_distinct distinct_statuses map_of_statuses map_add_def)

lemma derive_connection_ids_other: "k \<noteq> ''executedConnectionIds'' \<Longrightarrow> field (derive_connection_ids p) k = field p k"
  by (simp add: derive_connection_ids_def)

subsection \<open>The order of execution\<close>

lemma collect_unseen_spec:
  "set (collect_unseen seen xs) = set xs - set seen \<and> distinct (collect_unseen seen xs)"
  by (induction seen xs rule: collect_unseen.induct) auto

text \<open>Keeping the last occurrence of each id is the library's \<open>remdups\<close>.\<close>

lemma collect_unseen_filter:
  "collect_unseen seen xs = filter (\<lambda>x. x \<notin> set seen) (rev (remdups (rev xs)))"
proof (induction xs arbitrary: seen)
  case (Cons x xs)
  have snoc: "rev (remdups (ys @ [x])) = x # filter (\<lambda>y. y \<noteq> x) (rev (remdups ys))" for ys
    by (induction ys) (auto simp: filter_id_conv)
  show ?case using Cons.IH [of seen] Cons.IH [of "x # seen"]
    by (auto simp: snoc intro!: filter_cong)
qed simp

lemma collect_unseen_remdups: "rev (collect_unseen [] (rev xs)) = remdups xs"
  by (simp add: collect_unseen_filter)

subsection \<open>Frames of the event handlers\<close>

lemma complete_node_field: "k \<notin> {''executedOrder'', ''nodeStatuses''} \<Longrightarrow> field (complete_node p n) k = field p k"
  by (simp add: complete_node_def Let_def)

lemma follow_connection_field:
  "k \<notin> {''executedConnections'', ''executedConnectionIds''} \<Longrightarrow> field (follow_connection p c) k = field p k"
  by (simp add: follow_connection_def push_to_def)

lemma fold_field:
  "k \<notin> {''executedOrder'', ''nodeStatuses''} \<Longrightarrow> field (foldl complete_node p ns) k = field p k"
  "k \<notin> {''executedConnections'', ''executedConnectionIds''} \<Longrightarrow> field (foldl follow_connection p cs) k = field p k"
proof -
  show "k \<notin> {''executedOrder'', ''nodeStatuses''} \<Longrightarrow> field (foldl complete_node p ns) k = field p k"
    by (induction ns arbitrary: p) (simp_all add: complete_node_field)
  show "k \<notin> {''executedConnections'', ''executedConnectionIds''} \<Longrightarrow> field (foldl follow_connection p cs) k = field p k"
    by (induction cs arbitrary: p) (simp_all add: follow_connection_field)
qed

lemma finish_progress_runId: "field (finish_progress payload p) ''runId'' = field p ''runId''"
  by (simp add: finish_progress_def copy_array_def)

lemma on_progress_runId:
  "\<exists>q. on_progress payload (Some p) = Some q \<and> field q ''runId'' = field p ''runId''"
  by (simp add: on_progress_def Let_def finish_progress_runId fold_field)

definition foreign :: "jsval \<Rightarrow> jsval \<Rightarrow> bool" where
  "foreign runId payload \<longleftrightarrow> truthy (js_prop payload ''run_id'') \<and> js_prop payload ''run_id'' \<noteq> runId"

lemma on_progress_foreign:
  "truthy (field p ''runId'') \<Longrightarrow> foreign (field p ''runId'') payload \<Longrightarrow> on_progress payload (Some p) = Some p"
  by (auto simp: on_progress_def foreign_def)

lemma on_progress_filter:
  assumes "truthy (field p ''runId'')"
  shows "foldl (\<lambda>pr e. on_progress e pr) (Some p) es
    = foldl (\<lambda>pr e. on_progress e pr) (Some p) (filter (\<lambda>e. \<not> foreign (field p ''runId'') e) es)"
  using assms
proof (induction es arbitrary: p)
  case (Cons e es)
  obtain q where q: "on_progress e (Some p) = Some q" "field q ''runId'' = field p ''runId''"
    using on_progress_runId by blast
  show ?case
  proof (cases "foreign (field p ''runId'') e")
    case True
    with Cons on_progress_foreign show ?thesis by simp
  next
    case False
    with Cons.IH [of q] Cons.prems q show ?thesis by simp
  qed
qed simp

subsection \<open>The order that events build\<close>

definition order_ok :: "progress \<Rightarrow> bool" where
  "order_ok p \<longleftrightarrow> distinct_adj (arr_items (field p ''executedOrder''))
     \<and> list_all (\<lambda>i. map_of (own_props (field p ''nodeStatuses'')) (js_string i) \<noteq> None)
         (arr_items (field p ''executedOrder''))"

lemma order_ok_status: "order_ok p \<Longrightarrow> order_ok (obj_set ''nodeStatuses'' (JObj (obj_set i v (own_props (field p ''nodeStatuses'')))) p)"
  by (auto simp: order_ok_def jso.get_put list_all_iff)

lemma complete_node_order_ok:
  assumes "order_ok p" shows "order_ok (complete_node p n)"
proof -
  have "distinct_adj (xs @ [x])" if "distinct_adj xs" "xs = [] \<or> last xs \<noteq> x" for xs and x :: jsval
    using that by (cases xs rule: rev_cases) (auto simp: distinct_adj_append_iff)
  with assms show ?thesis by (auto simp: order_ok_def complete_node_def Let_def jso.get_put list_all_iff)
qed

lemma fold_order_ok:
  "order_ok p \<Longrightarrow> order_ok (foldl complete_node p ns)"
  "order_ok p \<Longrightarrow> order_ok (foldl follow_connection p cs)"
proof -
  show "order_ok p \<Longrightarrow> order_ok (foldl complete_node p ns)"
    by (induction ns arbitrary: p) (simp_all add: complete_node_order_ok)
  show "order_ok p \<Longrightarrow> order_ok (foldl follow_connection p cs)"
    by (simp add: order_ok_def fold_field)
qed

lemma on_progress_order_ok:
  assumes "\<not> truthy (js_prop payload ''status'')" and "case pr of None \<Rightarrow> True | Some p \<Rightarrow> order_ok p"
  shows "case on_progress payload pr of None \<Rightarrow> True | Some p \<Rightarrow> order_ok p"
proof -
  have "order_ok (createFreshProgress r)" for r by (simp add: order_ok_def createFreshProgress_def field_def)
  with assms show ?thesis
    by (auto simp: on_progress_def Let_def finish_progress_def fold_order_ok order_ok_status split: option.splits)
qed

interpretation evs: op_system on_progress "\<lambda>payload _. \<not> truthy (js_prop payload ''status'')"
    "\<lambda>pr. case pr of None \<Rightarrow> True | Some p \<Rightarrow> order_ok p"
  by unfold_locales (rule on_progress_order_ok)

subsection \<open>Replaced results\<close>

lemma replaces_normalized:
  assumes "truthy v" and "typeof_object v" shows "replaces_item v v"
  using assms by (simp add: replaces_item_def matches_result_def)

lemma replaceItems_spec:
  assumes "truthy v" and "typeof_object v"
  shows "v \<in> set (replaceItems v xs)"
    and "filter (\<lambda>x. \<not> replaces_item v x) (replaceItems v xs) = filter (\<lambda>x. \<not> replaces_item v x) xs"
    and "replaceItems v (replaceItems v xs) = replaceItems v xs"
    and "length (replaceItems v xs) = length xs + (if list_ex (replaces_item v) xs then 0 else 1)"
proof -
  let ?r = "\<lambda>i. if replaces_item v i then v else i"
  note v = replaces_normalized [OF assms]
  have f: "filter (\<lambda>x. \<not> replaces_item v x) (map ?r xs) = filter (\<lambda>x. \<not> replaces_item v x) xs"
    using v by (induction xs) auto
  have m: "map ?r (map ?r xs) = map ?r xs" using v by simp
  show "v \<in> set (replaceItems v xs)" by (force simp: replaceItems_def list_ex_iff Let_def)
  show "filter (\<lambda>x. \<not> replaces_item v x) (replaceItems v xs) = filter (\<lambda>x. \<not> replaces_item v x) xs"
    using f v by (simp add: replaceItems_def Let_def)
  show "replaceItems v (replaceItems v xs) = replaceItems v xs"
  proof (cases "list_ex (replaces_item v) xs")
    case True
    with v have "list_ex (replaces_item v) (map ?r xs)" by (fastforce simp: list_ex_iff)
    with True m show ?thesis by (simp add: replaceItems_def Let_def)
  next
    case False
    with m v show ?thesis by (simp add: replaceItems_def Let_def)
  qed
  show "length (replaceItems v xs) = length xs + (if list_ex (replaces_item v) xs then 0 else 1)"
    by (simp add: replaceItems_def Let_def)
qed

subsection \<open>Properties\<close>

text \<open>Merging the final data of a run into the progress sets the status of every node that has results to the
  outcome of the last of them, and leaves the status of every other node as it was.\<close>

theorem set_result_statuses:
  "map_of (own_props (field (set_result flds pr) ''nodeStatuses'')) i =
     (let rs = results_of i (arr_items (js_prop (JObj flds) ''nodeResults''));
          p = obj_assign (case pr of None \<Rightarrow> createFreshProgress JNull | Some q \<Rightarrow> q) flds
      in if rs = [] then map_of (own_props (field p ''nodeStatuses'')) i else Some (result_status (last rs)))"
proof -
  have "results_of i [] = []" by (simp add: results_of_def)
  then show ?thesis
    by (simp add: set_result_def Let_def derive_connection_ids_other statuses_after_merge del: js_prop.simps)
qed

text \<open>C12: Bus events of another run do not disturb the progress of a known run: whatever the interleaving, the
  progress is the one its own events alone would give.\<close>

theorem progress_ignores_foreign_runs:
  assumes "truthy (field p ''runId'')"
  shows "foldl (\<lambda>pr e. on_progress e pr) (Some p) es
    = foldl (\<lambda>pr e. on_progress e pr) (Some p) (filter (\<lambda>e. \<not> foreign (field p ''runId'') e) es)"
  using assms by (rule on_progress_filter)

theorem progress_ignores_foreign_runs_witness:
  "on_progress (JObj [(''run_id'', JStr ''b''), (''status'', JStr ''failed'')])
     (on_progress (JObj [(''run_id'', JStr ''a''), (''next_running_node_id'', JStr ''n_1'')])
        (Some (createFreshProgress (JStr ''a''))))
   = on_progress (JObj [(''run_id'', JStr ''a''), (''next_running_node_id'', JStr ''n_1'')])
       (Some (createFreshProgress (JStr ''a'')))"
proof -
  have r: "field (createFreshProgress (JStr ''a'')) ''runId'' = JStr ''a''"
    by (simp add: createFreshProgress_def field_def)
  then have "truthy (field (createFreshProgress (JStr ''a'')) ''runId'')" by simp
  from progress_ignores_foreign_runs [OF this,
      of "[JObj [(''run_id'', JStr ''a''), (''next_running_node_id'', JStr ''n_1'')],
           JObj [(''run_id'', JStr ''b''), (''status'', JStr ''failed'')]]"]
  show ?thesis by (simp add: r foreign_def)
qed

text \<open>However many progress events arrive, the executed order they build never lists a node twice in a row,
  and every node it lists has a status.\<close>

theorem progress_order_ok:
  assumes "permitted on_progress (\<lambda>payload _. \<not> truthy (js_prop payload ''status'')) events None"
    and "run_ops on_progress events None = Some p"
  shows "distinct_adj (arr_items (field p ''executedOrder''))
    \<and> list_all (\<lambda>i. map_of (own_props (field p ''nodeStatuses'')) (js_string i) \<noteq> None)
        (arr_items (field p ''executedOrder''))"
  using evs.run_invar [OF _ assms(1)] assms(2) by (simp add: order_ok_def)

theorem progress_order_ok_witness:
  "\<exists>p. run_ops on_progress [JObj [(''completed_nodes'', JArr [JObj [(''node_id'', JStr ''n_1'')], JObj [(''node_id'', JStr ''n_1'')]])]] None
      = Some p \<and> distinct_adj (arr_items (field p ''executedOrder''))
      \<and> arr_items (field p ''executedOrder'') = [JStr ''n_1'']"
proof -
  let ?e = "JObj [(''completed_nodes'', JArr [JObj [(''node_id'', JStr ''n_1'')], JObj [(''node_id'', JStr ''n_1'')]])]"
  obtain p where p: "run_ops on_progress [?e] None = Some p"
    by (simp add: on_progress_def Let_def)
  have "permitted on_progress (\<lambda>payload _. \<not> truthy (js_prop payload ''status'')) [?e] None" by simp
  from progress_order_ok [OF this p] have "distinct_adj (arr_items (field p ''executedOrder''))" by blast
  moreover have "arr_items (field p ''executedOrder'') = [JStr ''n_1'']"
    using p by (auto simp: on_progress_def Let_def finish_progress_def complete_node_def createFreshProgress_def
        field_def jso.get_put)
  ultimately show ?thesis using p by blast
qed

text \<open>The results rebuilt from raw outputs list each executed node once, at the place of its last execution,
  with its output, error, title and meta.\<close>

theorem results_from_outputs:
  "map (\<lambda>r. js_prop r ''node_id'') (buildNodeResultsFromOutputs outs order) =
     remdups (if arr_items order \<noteq> [] then arr_items order else map JStr (map_keys (own_props (js_or outs (JObj [])))))
   \<and> buildNodeResultsFromOutputs outs order =
       map (\<lambda>i. output_result (js_or outs (JObj [])) i)
         (map (\<lambda>r. js_prop r ''node_id'') (buildNodeResultsFromOutputs outs order))"
proof -
  have "js_prop (output_result v i) ''node_id'' = i" for v i by (simp add: output_result_def Let_def)
  moreover have "(if is_array order then arr_items order else []) = arr_items order" by (cases order) simp_all
  ultimately show ?thesis
    by (simp add: buildNodeResultsFromOutputs_def Let_def collect_unseen_remdups comp_def)
qed

text \<open>Replacing the result of a node run puts the new result into the results and the events, keeps every entry
  it does not replace, adds at most one entry, and is idempotent; without a node id it throws.\<close>

theorem replace_node_result_spec:
  assumes "replace_node_result (JObj r) pr = Inr p"
  shows "JObj r \<in> set (arr_items (field p ''nodeResults''))
    \<and> JObj r \<in> set (arr_items (field p ''executionEvents''))
    \<and> map_of (own_props (field p ''nodeStatuses'')) (js_string (js_prop (JObj r) ''node_id'')) = Some (result_status (JObj r))
    \<and> filter (\<lambda>x. \<not> replaces_item (JObj r) x) (arr_items (field p ''nodeResults''))
        = filter (\<lambda>x. \<not> replaces_item (JObj r) x)
            (arr_items (field (case pr of None \<Rightarrow> createFreshProgress JNull | Some q \<Rightarrow> q) ''nodeResults''))"
proof -
  have "truthy (JObj r)" "typeof_object (JObj r)" by simp_all
  note spec = replaceItems_spec [OF this]
  from assms show ?thesis using spec
    by (auto simp: replace_node_result_def Let_def jso.get_put simp del: js_prop.simps split: if_splits)
qed

theorem replace_node_result_spec_witness:
  "\<exists>p. replace_node_result (JObj [(''node_id'', JStr ''n_1'')]) None = Inr p
     \<and> JObj [(''node_id'', JStr ''n_1'')] \<in> set (arr_items (field p ''nodeResults''))"
proof -
  obtain p where "replace_node_result (JObj [(''node_id'', JStr ''n_1'')]) None = Inr p"
    by (simp add: replace_node_result_def Let_def)
  with replace_node_result_spec show ?thesis by blast
qed

end
