(* ===== verification/Connector_Config.thy ===== *)
theory Connector_Config
  imports Js_Prelude
begin

section \<open>Sanitising connector requests (utils/connector_request_config.js)\<close>

text \<open>
  Before a snapshot is sent, the blank entries of the configuration of a connector request are
  dropped, so that the defaults of the endpoint apply. The functions work on any JavaScript value.
\<close>

definition CONNECTOR_RELATION_KEYS :: "string list" where
  "CONNECTOR_RELATION_KEYS = [''connector_id'', ''workspace_id'', ''endpoint_id'', ''auth_profile_id'']"

definition isPlainObject :: "jsval \<Rightarrow> bool" where
  "isPlainObject v \<longleftrightarrow> truthy v \<and> typeof_object v \<and> \<not> is_array v"

definition enabled_row :: "jsval \<Rightarrow> bool" where
  "enabled_row row \<longleftrightarrow>
     isPlainObject row
     \<and> (case js_prop row ''key'' of JStr s \<Rightarrow> js_trim s \<noteq> [] | _ \<Rightarrow> False)
     \<and> js_prop row ''enabled'' \<noteq> JBool False"

definition hasEnabledKeyValueEntries :: "jsval \<Rightarrow> bool" where
  "hasEnabledKeyValueEntries rows \<longleftrightarrow> is_array rows \<and> list_ex enabled_row (arr_items rows)"

definition isBlankBodyConfig :: "jsval \<Rightarrow> bool" where
  "isBlankBodyConfig bodyConfig \<longleftrightarrow>
     (if \<not> isPlainObject bodyConfig then True
      else
        (let contentType = (case js_prop bodyConfig ''content_type'' of
                              JStr s \<Rightarrow> js_lower (js_trim s) | _ \<Rightarrow> ''none'')
         in if contentType = [] \<or> contentType = ''none'' then True
            else if contentType = ''form_data'' \<or> contentType = ''urlencoded''
            then \<not> hasEnabledKeyValueEntries (js_prop bodyConfig ''form_data'')
            else False))"

definition blank_relation :: "jsval \<Rightarrow> bool" where
  "blank_relation v \<longleftrightarrow> v = JUndef \<or> v = JNull \<or> v = JStr [] \<or> v = JNum 0"

definition blank_text :: "jsval \<Rightarrow> bool" where
  "blank_text v \<longleftrightarrow> js_trim (js_string (js_or v (JStr []))) = []"

definition blank_timeout :: "jsval \<Rightarrow> bool" where
  "blank_timeout v \<longleftrightarrow> v = JUndef \<or> v = JNull \<or> v = JStr []"

definition del_if :: "(jsval \<Rightarrow> bool) \<Rightarrow> string \<Rightarrow> jsobj \<Rightarrow> jsobj" where
  "del_if blank k config = (if blank (js_prop (JObj config) k) then obj_del k config else config)"

definition sanitizeConnectorRequestConfig :: "jsval \<Rightarrow> jsobj" where
  "sanitizeConnectorRequestConfig rawConfig =
     (if \<not> isPlainObject rawConfig then []
      else
        (let c0 = own_props rawConfig;
             c1 = foldl (\<lambda>c k. del_if blank_relation k c) c0 CONNECTOR_RELATION_KEYS;
             c2 = del_if blank_text ''url'' c1;
             c3 = del_if blank_text ''method'' c2;
             c4 = del_if (\<lambda>v. \<not> hasEnabledKeyValueEntries v) ''headers'' c3;
             c5 = del_if (\<lambda>v. \<not> hasEnabledKeyValueEntries v) ''query_params'' c4;
             c6 = del_if isBlankBodyConfig ''body_config'' c5
         in del_if blank_timeout ''timeout'' c6))"

definition sanitize_node :: "jsval \<Rightarrow> jsval" where
  "sanitize_node node =
     (if \<not> isPlainObject node \<or> js_prop node ''type'' \<noteq> JStr ''connector_request'' then node
      else JObj (obj_set ''config'' (JObj (sanitizeConnectorRequestConfig (js_prop node ''config'')))
                   (own_props node)))"

definition sanitizeConnectorRequestSnapshot :: "jsval \<Rightarrow> jsval" where
  "sanitizeConnectorRequestSnapshot snapshot =
     (if \<not> isPlainObject snapshot \<or> \<not> is_array (js_prop snapshot ''nodes'') then snapshot
      else JObj (obj_set ''nodes'' (JArr (map sanitize_node (arr_items (js_prop snapshot ''nodes''))))
                   (own_props snapshot)))"

subsection \<open>What is dropped and what stays\<close>

text \<open>The keys the sanitiser looks at, in its order, each with what counts as blank.\<close>

definition blank_rules :: "(string \<times> (jsval \<Rightarrow> bool)) list" where
  "blank_rules = map (\<lambda>k. (k, blank_relation)) CONNECTOR_RELATION_KEYS
     @ [(''url'', blank_text), (''method'', blank_text), (''headers'', \<lambda>v. \<not> hasEnabledKeyValueEntries v),
        (''query_params'', \<lambda>v. \<not> hasEnabledKeyValueEntries v), (''body_config'', isBlankBodyConfig),
        (''timeout'', blank_timeout)]"

definition drops :: "string \<times> jsval \<Rightarrow> bool" where
  "drops kv \<longleftrightarrow> (case map_of blank_rules (fst kv) of Some blank \<Rightarrow> blank (snd kv) | None \<Rightarrow> False)"

lemma sanitize_rules:
  "isPlainObject (JObj c) \<Longrightarrow>
   sanitizeConnectorRequestConfig (JObj c) = foldl (\<lambda>c (k, blank). del_if blank k c) c blank_rules"
  by (simp add: sanitizeConnectorRequestConfig_def blank_rules_def CONNECTOR_RELATION_KEYS_def Let_def)

lemma del_if_filter:
  assumes "distinct (map_keys c)"
  shows "del_if blank k c = filter (\<lambda>(j, v). \<not> (j = k \<and> blank v)) c"
proof -
  have "v = js_prop (JObj c) k" if "(k, v) \<in> set c" for v using assms that by simp
  then show ?thesis unfolding del_if_def obj_del_def AList.delete_eq
    by (auto intro!: filter_cong [symmetric] filter_True [symmetric] simp del: js_prop.simps)
qed

lemma foldl_del_if:
  assumes "distinct (map_keys c)" and "distinct (map_keys rules)"
  shows "foldl (\<lambda>c (k, blank). del_if blank k c) c rules =
    filter (\<lambda>(k, v). \<not> (case map_of rules k of Some blank \<Rightarrow> blank v | None \<Rightarrow> False)) c"
  using assms
proof (induction rules arbitrary: c)
  case (Cons r rules)
  obtain k blank where r: "r = (k, blank)" by (cases r)
  let ?c = "filter (\<lambda>(j, v). \<not> (j = k \<and> blank v)) c"
  have "distinct (map_keys ?c)" using Cons.prems(1) by (simp add: distinct_map_filter)
  from Cons.IH [OF this] Cons.prems(2)
  have "foldl (\<lambda>c (k, blank). del_if blank k c) ?c rules =
      filter (\<lambda>(k, v). \<not> (case map_of rules k of Some blank \<Rightarrow> blank v | None \<Rightarrow> False)) ?c" by simp
  moreover have "map_of rules k = None" using Cons.prems(2) r by (force simp: map_of_eq_None_iff)
  ultimately show ?case using Cons.prems(1)
    by (auto simp: r del_if_filter intro!: filter_cong split: if_splits)
qed simp

lemma sanitize_filter:
  assumes "distinct (map_keys c)"
  shows "sanitizeConnectorRequestConfig (JObj c) = filter (\<lambda>kv. \<not> drops kv) c"
proof -
  have "isPlainObject (JObj c)" by (simp add: isPlainObject_def)
  moreover have "distinct (map_keys blank_rules)" by (simp add: blank_rules_def CONNECTOR_RELATION_KEYS_def)
  ultimately show ?thesis
    using foldl_del_if [OF assms] by (simp add: sanitize_rules drops_def case_prod_unfold)
qed

text \<open>The configuration sent for a connector request is the edited one without its blank entries: the
  ids of relations that are unset, zero or empty, a blank url or method, header and query tables with
  no enabled row, a body of type none or an empty form, an unset timeout. The entries that stay keep
  their value and their order, and sanitising twice changes nothing more.\<close>

theorem sanitize_config_spec:
  assumes "distinct (map_keys c)"
  shows "sanitizeConnectorRequestConfig (JObj c) = filter (\<lambda>kv. \<not> drops kv) c
    \<and> sanitizeConnectorRequestConfig (JObj (sanitizeConnectorRequestConfig (JObj c)))
        = sanitizeConnectorRequestConfig (JObj c)"
  using assms by (simp add: sanitize_filter distinct_map_filter)

theorem sanitize_config_spec_witness:
  "sanitizeConnectorRequestConfig (JObj [(''url'', JStr ''  ''), (''connector_id'', JNum 3), (''endpoint_id'', JNum 0),
       (''headers'', JArr [JObj [(''key'', JStr ''A''), (''enabled'', JBool False)]]), (''timeout'', JNum 5)])
   = [(''connector_id'', JNum 3), (''timeout'', JNum 5)]"
  using sanitize_config_spec [of "[(''url'', JStr ''  ''), (''connector_id'', JNum 3), (''endpoint_id'', JNum 0),
       (''headers'', JArr [JObj [(''key'', JStr ''A''), (''enabled'', JBool False)]]), (''timeout'', JNum 5)]"]
  by (simp add: drops_def blank_rules_def CONNECTOR_RELATION_KEYS_def blank_text_def blank_relation_def
      blank_timeout_def hasEnabledKeyValueEntries_def enabled_row_def js_or_def js_trim_def is_space_def)

end
