(* ===== verification/Store.thy ===== *)
theory Store
  imports Persistence History_Actions Progress Connector_Config
begin

section \<open>The editor store (store/workflow_store.js)\<close>

text \<open>
  The service that owns the adapter, the history and the state of the user interface. The reactive
  state, the variables its closures share and the events sent on the editor bus are one record. The
  answers of the server are arguments of the operations that call it. The reactive copy of the
  history flags is the observer of the history.
\<close>

subsection \<open>State\<close>

record selection_st =
  sel_nodeIds :: "string list"
  sel_connectionIds :: "string list"

record viewport_st =
  pan :: "rat \<times> rat"
  zoom :: rat

record panels_st =
  configOpen :: bool
  configNodeId :: jsval
  menuOpen :: bool
  historyOpen :: bool
  executionLogOpen :: bool

record hovered_st =
  hov_id :: "string option"
  hov_midpoint :: "rat \<times> rat"
  hov_canvasMidpoint :: "(rat \<times> rat) option"

record nodeMenu_st =
  nm_visible :: bool
  nm_x :: rat
  nm_y :: rat
  nm_canvasX :: rat
  nm_canvasY :: rat
  nm_variant :: string
  nm_connectionContext :: jsval

record overlay_flag =
  fl_active :: bool
  fl_id :: jsval

record ui_st =
  selection :: selection_st
  viewport :: viewport_st
  focusNodeRequest :: "(string \<times> nat) option"
  panels :: panels_st
  hoveredConnection :: hovered_st
  readonly :: bool
  saving :: bool
  executing :: bool
  ui_historyPreview :: overlay_flag
  ui_executionView :: overlay_flag
  nodeMenu :: nodeMenu_st

record overlay =
  ov_active :: bool
  ov_id :: jsval
  ov_originalSnapshot :: "snapshot option"

record store =
  hist :: "(adapter, hist_info) history"
  graph :: adapter
  versionHash :: jsval
  workflowId :: jsval
  autoSave :: bool
  focusNodeRequestSeq :: nat
  historyPreview :: overlay
  executionView :: overlay
  ui :: ui_st
  executionProgress :: "progress option"
  nodeTypes :: "jsval list"
  pinData :: jsobj
  workflowMetadata :: jsobj
  bus :: "(string \<times> jsval) list"

definition no_selection :: selection_st where
  "no_selection = \<lparr>sel_nodeIds = [], sel_connectionIds = []\<rparr>"

definition no_hover :: hovered_st where
  "no_hover = \<lparr>hov_id = None, hov_midpoint = (0, 0), hov_canvasMidpoint = None\<rparr>"

definition closed_menu :: nodeMenu_st where
  "closed_menu = \<lparr>nm_visible = False, nm_x = 0, nm_y = 0, nm_canvasX = 0, nm_canvasY = 0,
                  nm_variant = ''default'', nm_connectionContext = JNull\<rparr>"

definition DEFAULT_UI_STATE :: ui_st where
  "DEFAULT_UI_STATE =
     \<lparr>selection = no_selection, viewport = \<lparr>pan = (0, 0), zoom = 1\<rparr>, focusNodeRequest = None,
      panels = \<lparr>configOpen = False, configNodeId = JNull, menuOpen = False, historyOpen = False,
                executionLogOpen = False\<rparr>,
      hoveredConnection = no_hover, readonly = False, saving = False, executing = False,
      ui_historyPreview = \<lparr>fl_active = False, fl_id = JNull\<rparr>,
      ui_executionView = \<lparr>fl_active = False, fl_id = JNull\<rparr>, nodeMenu = closed_menu\<rparr>"

definition closed_overlay :: overlay where
  "closed_overlay = \<lparr>ov_active = False, ov_id = JNull, ov_originalSnapshot = None\<rparr>"

definition start_store :: "(string \<times> node_class) list \<Rightarrow> store" where
  "start_store odoo =
     \<lparr>hist = hist_onChange (0, \<lambda>info _. info)
               (new_HistoryManager None \<lparr>canUndo_flag = False, canRedo_flag = False\<rparr>),
      graph = new_WorkflowAdapter odoo, versionHash = JNull, workflowId = JNull, autoSave = True,
      focusNodeRequestSeq = 0, historyPreview = closed_overlay, executionView = closed_overlay,
      ui = DEFAULT_UI_STATE, executionProgress = None, nodeTypes = [], pinData = [], workflowMetadata = [],
      bus = []\<rparr>"

abbreviation on_ui :: "(ui_st \<Rightarrow> ui_st) \<Rightarrow> store \<Rightarrow> store" where
  "on_ui f st \<equiv> st\<lparr>ui := f (ui st)\<rparr>"

abbreviation push_action :: "adapter action \<Rightarrow> store \<Rightarrow> store" where
  "push_action act st \<equiv> st\<lparr>hist := hist_push act (hist st)\<rparr>"

definition bus_trigger :: "string \<Rightarrow> jsval \<Rightarrow> store \<Rightarrow> store" where
  "bus_trigger ev payload st = st\<lparr>bus := bus st @ [(ev, payload)]\<rparr>"

subsection \<open>Selectors\<close>

definition store_getNode :: "string \<Rightarrow> store \<Rightarrow> ui_node option" where
  "store_getNode nodeId st = List.find (\<lambda>n. ui_id n = Some nodeId) (ui_nodes (observer (graph st)))"

definition store_getConnection :: "string \<Rightarrow> store \<Rightarrow> ui_conn option" where
  "store_getConnection connId st = List.find (\<lambda>c. uc_id c = connId) (ui_conns (observer (graph st)))"

subsection \<open>Graph actions\<close>

definition clearExecution :: "store \<Rightarrow> store" where
  "clearExecution st = st\<lparr>executionProgress := None\<rparr>"

text \<open>Adding a node type and recording it: both halves of the loop auto-creation use it.\<close>

definition add_and_record ::
    "(string \<times> node_class) list \<Rightarrow> string \<Rightarrow> position \<Rightarrow> store \<Rightarrow> string option \<times> store" where
  "add_and_record odoo type p st =
     (case adapter_addNode odoo type p (graph st) of
        (None, a) \<Rightarrow> (None, st\<lparr>graph := a\<rparr>)
      | (Some i, a) \<Rightarrow>
          (Some i,
           push_action (createAddNodeAction odoo
             \<lparr>nd_id = i, nd_type = type, nd_position = p, nd_config = adapter_getNodeConfig i a\<rparr>)
             (st\<lparr>graph := a\<rparr>)))"

definition connect_and_record :: "string \<Rightarrow> string \<Rightarrow> string \<Rightarrow> string \<Rightarrow> store \<Rightarrow> connection option \<times> store" where
  "connect_and_record s sh t th st =
     (case adapter_addConnection s sh t th (graph st) of
        (None, a) \<Rightarrow> (None, st\<lparr>graph := a\<rparr>)
      | (Some k, a) \<Rightarrow> (Some k, push_action (createAddConnectionAction (conn_to_ui k)) (st\<lparr>graph := a\<rparr>)))"

definition store_addNode ::
    "(string \<times> node_class) list \<Rightarrow> string \<Rightarrow> position \<Rightarrow> store \<Rightarrow> string option \<times> store" where
  "store_addNode odoo type p st =
     (case add_and_record odoo type p st of
        (None, st1) \<Rightarrow> (None, st1)
      | (Some nodeId, st1) \<Rightarrow>
          (let st2 = clearExecution st1
           in (Some nodeId,
               if type = ''loop''
               then (case add_and_record odoo ''noop'' (fst p + 80, snd p + 160) st2 of
                       (None, st3) \<Rightarrow> st3
                     | (Some noopId, st3) \<Rightarrow>
                         snd (connect_and_record noopId ''result'' nodeId ''data''
                                (snd (connect_and_record nodeId ''loop'' noopId ''data'' st3))))
               else st2)))"

definition store_moveNode :: "string \<Rightarrow> position \<Rightarrow> store \<Rightarrow> store" where
  "store_moveNode nodeId p st =
     (case store_getNode nodeId st of
        None \<Rightarrow> st\<lparr>graph := snd (adapter_updatePosition nodeId p (graph st))\<rparr>
      | Some n \<Rightarrow>
          if ui_x n = fst p \<and> ui_y n = snd p then st
          else push_action (createMoveNodeAction nodeId (ui_x n, ui_y n) p)
                 (st\<lparr>graph := snd (adapter_updatePosition nodeId p (graph st))\<rparr>))"

text \<open>The loop of \<open>moveNodes\<close> and \<open>moveNodesTransient\<close> over the entries of the updates: the moves it made.\<close>

fun move_entries :: "(string \<times> position) list \<Rightarrow> store \<Rightarrow> node_move list \<times> store" where
  "move_entries [] st = ([], st)"
| "move_entries ((nodeId, p) # es) st =
     (case store_getNode nodeId st of
        None \<Rightarrow> move_entries es st
      | Some n \<Rightarrow>
          if ui_x n = fst p \<and> ui_y n = snd p then move_entries es st
          else
            (let (ms, st') = move_entries es (st\<lparr>graph := snd (adapter_updatePosition nodeId p (graph st))\<rparr>)
             in (\<lparr>mv_nodeId = nodeId, mv_old = (ui_x n, ui_y n), mv_new = p\<rparr> # ms, st')))"

definition store_moveNodes :: "(string \<times> position) list \<Rightarrow> store \<Rightarrow> store" where
  "store_moveNodes updates st =
     (let (ms, st') = move_entries updates st
      in if ms \<noteq> [] then push_action (createMoveNodesAction ms) st' else st')"

definition moveNodesTransient :: "(string \<times> position) list \<Rightarrow> store \<Rightarrow> store" where
  "moveNodesTransient updates st = snd (move_entries updates st)"

definition recordMoveNodes :: "node_move list \<Rightarrow> store \<Rightarrow> store" where
  "recordMoveNodes nodeMoves st =
     (if nodeMoves = [] then st else push_action (createMoveNodesAction nodeMoves) st)"

definition store_removeNode :: "(string \<times> node_class) list \<Rightarrow> string \<Rightarrow> store \<Rightarrow> bool \<times> store" where
  "store_removeNode odoo nodeId st =
     (case store_getNode nodeId st of
        None \<Rightarrow> (False, st)
      | Some n \<Rightarrow>
          (let st1 = (clearExecution st)\<lparr>pinData := obj_del nodeId (pinData st)\<rparr>;
               related = filter (\<lambda>c. uc_source c = nodeId \<or> uc_target c = nodeId) (ui_conns (observer (graph st)));
               d = \<lparr>nd_id = nodeId, nd_type = ui_type n, nd_position = (ui_x n, ui_y n),
                    nd_config = adapter_getNodeConfig nodeId (graph st)\<rparr>
           in (True, push_action (createRemoveNodeAction odoo d related)
                       (st1\<lparr>graph := snd (adapter_removeNode nodeId (graph st1))\<rparr>))))"

definition store_addConnection :: "string \<Rightarrow> string \<Rightarrow> string \<Rightarrow> string \<Rightarrow> store \<Rightarrow> string option \<times> store" where
  "store_addConnection s sh t th st =
     (case connect_and_record s sh t th st of
        (None, st1) \<Rightarrow> (None, st1)
      | (Some k, st1) \<Rightarrow> (Some (conn_id k), clearExecution st1))"

definition store_removeConnection :: "string \<Rightarrow> store \<Rightarrow> bool \<times> store" where
  "store_removeConnection connectionId st =
     (case store_getConnection connectionId st of
        None \<Rightarrow> (False, st)
      | Some c \<Rightarrow>
          (let st1 = clearExecution st
           in (True, push_action (createRemoveConnectionAction c)
                       (st1\<lparr>graph := snd (adapter_removeConnection connectionId (graph st1))\<rparr>))))"

subsection \<open>History\<close>

definition beginBatch :: "store \<Rightarrow> store" where
  "beginBatch st = st\<lparr>hist := startBatch (hist st)\<rparr>"

definition endBatch :: "string \<Rightarrow> store \<Rightarrow> store" where
  "endBatch desc st = st\<lparr>hist := commitBatch desc (hist st)\<rparr>"

text \<open>The notification shown when there is nothing to undo or redo is the result \<open>Inr False\<close>.\<close>

definition store_undo :: "store \<Rightarrow> (js_error + bool) \<times> store" where
  "store_undo st = (case hist_undo (hist st) (graph st) of (r, h, a) \<Rightarrow> (r, st\<lparr>hist := h, graph := a\<rparr>))"

definition store_redo :: "store \<Rightarrow> (js_error + bool) \<times> store" where
  "store_redo st = (case hist_redo (hist st) (graph st) of (r, h, a) \<Rightarrow> (r, st\<lparr>hist := h, graph := a\<rparr>))"

subsection \<open>Selection, viewport, panels\<close>

definition store_select :: "string list \<Rightarrow> string list \<Rightarrow> store \<Rightarrow> store" where
  "store_select nodeIds connectionIds st =
     on_ui (\<lambda>u. u\<lparr>selection := \<lparr>sel_nodeIds = unique nodeIds, sel_connectionIds = unique connectionIds\<rparr>\<rparr>) st"

definition focusNode :: "string \<Rightarrow> store \<Rightarrow> store" where
  "focusNode nodeId st =
     (if nodeId = [] then st
      else (on_ui (\<lambda>u. u\<lparr>selection := \<lparr>sel_nodeIds = [nodeId], sel_connectionIds = []\<rparr>,
                         focusNodeRequest := Some (nodeId, Suc (focusNodeRequestSeq st))\<rparr>) st)
             \<lparr>focusNodeRequestSeq := Suc (focusNodeRequestSeq st)\<rparr>)"

definition setViewport :: "(rat \<times> rat) option \<Rightarrow> rat option \<Rightarrow> store \<Rightarrow> store" where
  "setViewport p z st =
     on_ui (\<lambda>u. u\<lparr>viewport := \<lparr>pan = (case p of Some q \<Rightarrow> q | None \<Rightarrow> pan (viewport u)),
                               zoom = (case z of Some r \<Rightarrow> r | None \<Rightarrow> zoom (viewport u))\<rparr>\<rparr>) st"

definition clamp_zoom :: "rat \<Rightarrow> rat" where
  "clamp_zoom level = max (1/10) (min 2 level)"

definition zoomTo :: "rat \<Rightarrow> store \<Rightarrow> store" where
  "zoomTo level st = on_ui (\<lambda>u. u\<lparr>viewport := (viewport u)\<lparr>zoom := clamp_zoom level\<rparr>\<rparr>) st"

definition zoomBy :: "rat \<Rightarrow> store \<Rightarrow> store" where
  "zoomBy delta st =
     on_ui (\<lambda>u. u\<lparr>viewport := (viewport u)\<lparr>zoom := clamp_zoom (zoom (viewport u) + delta)\<rparr>\<rparr>) st"

definition panBy :: "rat \<Rightarrow> rat \<Rightarrow> store \<Rightarrow> store" where
  "panBy dx dy st =
     on_ui (\<lambda>u. u\<lparr>viewport := (viewport u)\<lparr>pan := (fst (pan (viewport u)) + dx, snd (pan (viewport u)) + dy)\<rparr>\<rparr>) st"

definition resetViewport :: "store \<Rightarrow> store" where
  "resetViewport st = on_ui (\<lambda>u. u\<lparr>viewport := \<lparr>pan = (0, 0), zoom = 1\<rparr>\<rparr>) st"

definition setReadonly :: "bool \<Rightarrow> store \<Rightarrow> store" where
  "setReadonly v st = on_ui (\<lambda>u. u\<lparr>readonly := v\<rparr>) st"

definition setSaving :: "bool \<Rightarrow> store \<Rightarrow> store" where
  "setSaving v st = on_ui (\<lambda>u. u\<lparr>saving := v\<rparr>) st"

definition setExecuting :: "bool \<Rightarrow> store \<Rightarrow> store" where
  "setExecuting v st = on_ui (\<lambda>u. u\<lparr>executing := v\<rparr>) st"

definition setNodeTypes :: "jsval \<Rightarrow> store \<Rightarrow> store" where
  "setNodeTypes types st = st\<lparr>nodeTypes := (if is_array types then arr_items types else [])\<rparr>"

definition openPanel :: "string \<Rightarrow> jsval \<Rightarrow> store \<Rightarrow> store" where
  "openPanel panelType nodeId st =
     on_ui (\<lambda>u. u\<lparr>panels :=
       (if panelType = ''config'' then (panels u)\<lparr>configOpen := True, configNodeId := js_or nodeId JNull\<rparr>
        else if panelType = ''menu'' then (panels u)\<lparr>menuOpen := True\<rparr>
        else if panelType = ''history'' then (panels u)\<lparr>historyOpen := True\<rparr>
        else if panelType = ''executionLog'' then (panels u)\<lparr>executionLogOpen := True\<rparr>
        else panels u)\<rparr>) st"

definition closePanel :: "string \<Rightarrow> store \<Rightarrow> store" where
  "closePanel panelType st =
     on_ui (\<lambda>u. u\<lparr>panels :=
       (if panelType = ''config'' then (panels u)\<lparr>configOpen := False, configNodeId := JNull\<rparr>
        else if panelType = ''menu'' then (panels u)\<lparr>menuOpen := False\<rparr>
        else if panelType = ''history'' then (panels u)\<lparr>historyOpen := False\<rparr>
        else if panelType = ''executionLog'' then (panels u)\<lparr>executionLogOpen := False\<rparr>
        else panels u)\<rparr>) st"

definition setHoveredConnection ::
    "string option \<Rightarrow> (rat \<times> rat) option \<Rightarrow> (rat \<times> rat) option \<Rightarrow> store \<Rightarrow> store" where
  "setHoveredConnection i midpoint canvasMidpoint st =
     on_ui (\<lambda>u. u\<lparr>hoveredConnection :=
       (if i = None \<or> i = Some [] then no_hover
        else \<lparr>hov_id = i, hov_midpoint = (case midpoint of Some m \<Rightarrow> m | None \<Rightarrow> (0, 0)),
              hov_canvasMidpoint = canvasMidpoint\<rparr>)\<rparr>) st"

definition openNodeMenu :: "rat \<Rightarrow> rat \<Rightarrow> rat \<Rightarrow> rat \<Rightarrow> string \<Rightarrow> jsval \<Rightarrow> store \<Rightarrow> store" where
  "openNodeMenu x y cx cy variant context st =
     on_ui (\<lambda>u. u\<lparr>nodeMenu := \<lparr>nm_visible = True, nm_x = x, nm_y = y, nm_canvasX = cx, nm_canvasY = cy,
                               nm_variant = variant, nm_connectionContext = context\<rparr>\<rparr>) st"

definition closeNodeMenu :: "store \<Rightarrow> store" where
  "closeNodeMenu st = on_ui (\<lambda>u. u\<lparr>nodeMenu := closed_menu\<rparr>) st"

subsection \<open>Execution results\<close>

definition setExecutionResult :: "jsobj \<Rightarrow> store \<Rightarrow> store" where
  "setExecutionResult flds st =
     (let p = set_result flds (executionProgress st);
          st1 = st\<lparr>executionProgress := Some p\<rparr>
      in if opens_log p then on_ui (\<lambda>u. u\<lparr>panels := (panels u)\<lparr>executionLogOpen := True\<rparr>\<rparr>) st1 else st1)"

definition replaceExecutionResult :: "jsval \<Rightarrow> store \<Rightarrow> store" where
  "replaceExecutionResult flds st =
     (let runId = (if truthy flds \<and> truthy (js_prop flds ''runId'') then js_prop flds ''runId'' else JNull)
      in setExecutionResult (own_props (js_or flds (JObj [])))
           (st\<lparr>executionProgress := Some (createFreshProgress runId)\<rparr>))"

definition onExecutionProgress :: "jsval \<Rightarrow> store \<Rightarrow> store" where
  "onExecutionProgress payload st = st\<lparr>executionProgress := on_progress payload (executionProgress st)\<rparr>"

definition replaceExecutionNodeResult :: "jsval \<Rightarrow> store \<Rightarrow> js_error option \<times> store" where
  "replaceExecutionNodeResult nodeResult st =
     (case replace_node_result nodeResult (executionProgress st) of
        Inl e \<Rightarrow> (Some e, st)
      | Inr p \<Rightarrow> (None, st\<lparr>executionProgress := Some p\<rparr>))"

subsection \<open>Previews\<close>

text \<open>Both previews hide the graph behind a snapshot. The exception of \<open>fromJSON\<close> leaves them at the
  point it is thrown.\<close>

definition load_graph :: "snapshot \<Rightarrow> store \<Rightarrow> js_error option \<times> store" where
  "load_graph s st =
     (case adapter_fromJSON s (graph st) of
        (Inl e, a) \<Rightarrow> (Some e, st\<lparr>graph := a\<rparr>)
      | (Inr _, a) \<Rightarrow> (None, st\<lparr>graph := a\<rparr>))"

definition then_do :: "js_error option \<times> store \<Rightarrow> (store \<Rightarrow> js_error option \<times> store) \<Rightarrow> js_error option \<times> store" where
  "then_do r f = (case r of (Some e, st) \<Rightarrow> (Some e, st) | (None, st) \<Rightarrow> f st)"

definition restore_original :: "bool \<Rightarrow> overlay \<Rightarrow> store \<Rightarrow> js_error option \<times> store" where
  "restore_original restore ov st =
     (case ov_originalSnapshot ov of
        Some s \<Rightarrow> if ov_active ov \<and> restore then load_graph s st else (None, st)
      | None \<Rightarrow> (None, st))"

definition endHistoryPreview :: "bool \<Rightarrow> store \<Rightarrow> js_error option \<times> store" where
  "endHistoryPreview restoreOriginal st =
     then_do (restore_original restoreOriginal (historyPreview st) st)
       (\<lambda>st. (None, on_ui (\<lambda>u. u\<lparr>ui_historyPreview := \<lparr>fl_active = False, fl_id = JNull\<rparr>, readonly := False,
                                  selection := no_selection, hoveredConnection := no_hover\<rparr>)
                      (st\<lparr>historyPreview := closed_overlay\<rparr>)))"

definition endExecutionView :: "bool \<Rightarrow> bool \<Rightarrow> store \<Rightarrow> js_error option \<times> store" where
  "endExecutionView restoreOriginal clear st =
     then_do (restore_original restoreOriginal (executionView st) st)
       (\<lambda>st. (None, on_ui (\<lambda>u. u\<lparr>ui_executionView := \<lparr>fl_active = False, fl_id = JNull\<rparr>, readonly := False,
                                  selection := no_selection, hoveredConnection := no_hover\<rparr>)
                      ((if clear then clearExecution st else st)\<lparr>executionView := closed_overlay\<rparr>)))"

text \<open>What entering either preview resets.\<close>

definition enter_preview :: "ui_st \<Rightarrow> ui_st" where
  "enter_preview u =
     u\<lparr>readonly := True, selection := no_selection, hoveredConnection := no_hover,
       panels := (panels u)\<lparr>configOpen := False, configNodeId := JNull\<rparr>, nodeMenu := closed_menu\<rparr>"

definition startHistoryPreview :: "jsval \<Rightarrow> snapshot option \<Rightarrow> store \<Rightarrow> js_error option \<times> store" where
  "startHistoryPreview revisionId snapshot st =
     (case snapshot of
        None \<Rightarrow> (None, st)
      | Some s \<Rightarrow>
          then_do (if ov_active (executionView st) then endExecutionView True True st else (None, st))
            (\<lambda>st.
               let orig = (if ov_active (historyPreview st) then ov_originalSnapshot (historyPreview st)
                           else Some (adapter_toJSON (graph st)));
                   rid = js_or revisionId JNull
               in load_graph s
                    (on_ui (\<lambda>u. enter_preview (u\<lparr>ui_historyPreview := \<lparr>fl_active = True, fl_id = rid\<rparr>\<rparr>))
                      (st\<lparr>historyPreview := \<lparr>ov_active = True, ov_id = rid, ov_originalSnapshot = orig\<rparr>\<rparr>))))"

definition startExecutionView :: "jsval \<Rightarrow> snapshot option \<Rightarrow> jsval \<Rightarrow> store \<Rightarrow> js_error option \<times> store" where
  "startExecutionView runId snapshot executionData st =
     (case snapshot of
        None \<Rightarrow> (None, st)
      | Some s \<Rightarrow>
          then_do
            (then_do (if ov_active (historyPreview st) then endHistoryPreview True st else (None, st))
              (\<lambda>st.
                 let orig = (if ov_active (executionView st) then ov_originalSnapshot (executionView st)
                             else Some (adapter_toJSON (graph st)));
                     rid = js_or runId JNull
                 in load_graph s
                      (on_ui (\<lambda>u. enter_preview (u\<lparr>ui_executionView := \<lparr>fl_active = True, fl_id = rid\<rparr>,
                                                   panels := (panels u)\<lparr>executionLogOpen := True\<rparr>\<rparr>))
                        (st\<lparr>executionView := \<lparr>ov_active = True, ov_id = rid, ov_originalSnapshot = orig\<rparr>\<rparr>))))
            (\<lambda>st. (None, if truthy executionData then replaceExecutionResult executionData st else st)))"

definition copyExecutionToEditor :: "store \<Rightarrow> js_error option \<times> store" where
  "copyExecutionToEditor st =
     (if \<not> ov_active (executionView st) then (None, st) else endExecutionView True False st)"

definition debug_fields :: "jsval \<Rightarrow> jsobj" where
  "debug_fields r =
     [(''runId'', js_or (js_prop r ''run_id'') (js_or (js_prop r ''id'') JNull)),
      (''status'', js_or (js_prop r ''status'') (JStr ''completed'')),
      (''error'', js_or (js_prop r ''error'') (js_or (js_prop r ''error_message'') JNull)),
      (''errorNodeId'', js_or (js_prop r ''error_node_id'') JNull),
      (''executedOrder'', js_or (js_prop r ''executed_order'') (JArr [])),
      (''executedConnectionIds'', js_or (js_prop r ''executed_connection_ids'') (JArr [])),
      (''executedConnections'', js_or (js_prop r ''executed_connections'') (JArr [])),
      (''executionEvents'', js_or (js_prop r ''execution_events'') (JArr [])),
      (''nodeResults'', js_or (js_prop r ''node_results'') (JArr [])),
      (''inputData'', js_or (js_prop r ''input_data'') (JObj [])),
      (''contextSnapshot'', js_or (js_prop r ''context_snapshot'') JNull)]"

definition debugExecution :: "jsval \<Rightarrow> store \<Rightarrow> js_error option \<times> store" where
  "debugExecution runData st =
     (if \<not> truthy runData \<or> \<not> is_array (js_prop runData ''node_results'')
      then (Some (JsError ''debugExecution requires runData with node_results''), st)
      else
        then_do (if ov_active (executionView st) then endExecutionView True True st else (None, st))
          (\<lambda>st. (None, replaceExecutionResult (JObj (debug_fields runData)) st)))"

subsection \<open>Disabled nodes and pinned data\<close>

definition toggleDisable :: "string \<Rightarrow> store \<Rightarrow> store" where
  "toggleDisable nodeId st =
     (let isDisabled = \<not> truthy (js_prop (JObj (adapter_getNodeMeta nodeId (graph st))) ''disabled'');
          st1 = st\<lparr>graph := snd (adapter_setNodeMeta nodeId [(''disabled'', JBool isDisabled)] (graph st))\<rparr>
      in bus_trigger ''save'' JUndef
           (bus_trigger ''NODE:DISABLED_CHANGED''
             (JObj [(''nodeId'', JStr nodeId), (''disabled'', JBool isDisabled)]) st1))"

definition isNodeDisabled :: "string \<Rightarrow> store \<Rightarrow> bool" where
  "isNodeDisabled nodeId st \<longleftrightarrow> js_prop (JObj (adapter_getNodeMeta nodeId (graph st))) ''disabled'' = JBool True"

definition pin_event :: "jsval \<Rightarrow> bool \<Rightarrow> store \<Rightarrow> store" where
  "pin_event nodeId pinned =
     bus_trigger ''PIN_DATA:CHANGED'' (JObj [(''nodeId'', nodeId), (''pinned'', JBool pinned)])"

definition stored_pin :: "jsval \<Rightarrow> js_error + jsval" where
  "stored_pin pinValue =
     (if typeof_object pinValue then Inr (JObj (own_props pinValue))
      else
        (case js_parseInt (js_string pinValue) of
           None \<Rightarrow> Inl (JsError (''Invalid nodeRunId for pinNodeData: '' @ js_string pinValue))
         | Some n \<Rightarrow> if n \<le> 0 then Inl (JsError (''Invalid nodeRunId for pinNodeData: '' @ js_string pinValue))
                     else Inr (JNum (of_int n))))"

definition pinNodeData :: "string \<Rightarrow> jsval \<Rightarrow> store \<Rightarrow> js_error option \<times> store" where
  "pinNodeData nodeId pinValue st =
     (if nodeId = [] \<or> nullish pinValue then (Some (JsError ''pinNodeData requires nodeId and pinValue''), st)
      else
        (case stored_pin pinValue of
           Inl e \<Rightarrow> (Some e, st)
         | Inr v \<Rightarrow>
             (let nextPin = obj_set nodeId v
                    (own_props (js_or (js_prop (JObj (workflowMetadata st)) ''pin_data'') (JObj [])))
              in (None, pin_event (JStr nodeId) True
                    (st\<lparr>pinData := obj_set nodeId v (pinData st),
                        workflowMetadata := obj_set ''pin_data'' (JObj nextPin) (workflowMetadata st)\<rparr>)))))"

definition unpinNodeData :: "string \<Rightarrow> store \<Rightarrow> store" where
  "unpinNodeData nodeId st =
     (let nextPin = obj_del nodeId
            (own_props (js_or (js_prop (JObj (workflowMetadata st)) ''pin_data'') (JObj [])));
          m1 = (if nextPin \<noteq> [] then obj_set ''pin_data'' (JObj nextPin) (workflowMetadata st)
                else obj_del ''pin_data'' (workflowMetadata st))
      in pin_event (JStr nodeId) False
           (st\<lparr>pinData := obj_del nodeId (pinData st), workflowMetadata := obj_del ''pinData'' m1\<rparr>))"

definition clearAllPinData :: "store \<Rightarrow> store" where
  "clearAllPinData st =
     pin_event JNull False
       (st\<lparr>pinData := foldl (\<lambda>m k. obj_del k m) (pinData st) (map_keys (pinData st)),
           workflowMetadata := obj_del ''pinData'' (obj_del ''pin_data'' (workflowMetadata st))\<rparr>)"

definition isNodePinned :: "string \<Rightarrow> store \<Rightarrow> bool" where
  "isNodePinned nodeId st \<longleftrightarrow> nodeId \<in> set (map_keys (pinData st))"

subsection \<open>The snapshot that is sent\<close>

definition position_value :: "position \<Rightarrow> jsval" where
  "position_value p = JObj [(''x'', JNum (fst p)), (''y'', JNum (snd p))]"

definition optional :: "('a \<Rightarrow> jsval) \<Rightarrow> 'a option \<Rightarrow> jsval" where
  "optional f x = (case x of None \<Rightarrow> JNull | Some y \<Rightarrow> f y)"

definition node_value :: "node_json \<Rightarrow> jsval" where
  "node_value d =
     JObj [(''id'', optional JStr (nj_id d)), (''type'', JStr (nj_type d)), (''label'', optional JStr (nj_label d)),
           (''position'', optional position_value (nj_position d)), (''config'', optional JObj (nj_config d)),
           (''meta'', optional JObj (nj_meta d))]"

definition conn_value :: "conn_json \<Rightarrow> jsval" where
  "conn_value d =
     JObj [(''id'', optional JStr (cj_id d)), (''source'', JStr (cj_source d)),
           (''sourceHandle'', JStr (cj_sourceHandle d)), (''target'', JStr (cj_target d)),
           (''targetHandle'', JStr (cj_targetHandle d)), (''meta'', optional JObj (cj_meta d))]"

definition snapshot_props :: "snapshot \<Rightarrow> jsobj" where
  "snapshot_props s =
     [(''version'', JStr (sn_version s)), (''nodes'', JArr (map node_value (sn_nodes s))),
      (''connections'', JArr (map conn_value (sn_connections s)))]"

definition buildFullSnapshot :: "store \<Rightarrow> jsval" where
  "buildFullSnapshot st =
     (let m0 = obj_del ''pinData'' (workflowMetadata st);
          m1 = (if pinData st \<noteq> [] then obj_set ''pin_data'' (JObj (pinData st)) m0 else obj_del ''pin_data'' m0)
      in sanitizeConnectorRequestSnapshot
           (JObj (obj_set ''metadata'' (JObj m1) (snapshot_props (adapter_toJSON (graph st))))))"

subsection \<open>Loading and saving\<close>

record workflow_data =
  wd_draft :: snapshot
  wd_metadata :: jsval
  wd_version_hash :: jsval
  wd_auto_save :: jsval

text \<open>The metadata of the draft is copied through JSON text, which keeps a value that came as JSON.\<close>

definition loadWorkflow :: "jsval \<Rightarrow> workflow_data \<Rightarrow> store \<Rightarrow> js_error option \<times> store" where
  "loadWorkflow i data st =
     then_do
       (load_graph (wd_draft data)
         (on_ui (\<lambda>u. u\<lparr>panels := (panels u)\<lparr>executionLogOpen := False\<rparr>, executing := False,
                       ui_executionView := \<lparr>fl_active = False, fl_id = JNull\<rparr>\<rparr>) (clearExecution st)))
       (\<lambda>st.
          let raw = (if truthy (wd_metadata data) \<and> typeof_object (wd_metadata data) then wd_metadata data else JObj []);
              saved = js_or (js_prop raw ''pin_data'') (js_prop raw ''pinData'');
              cleared = foldl (\<lambda>m k. obj_del k m) (pinData st) (map_keys (pinData st))
          in (None, st\<lparr>versionHash := wd_version_hash data, workflowId := i,
                       autoSave := (wd_auto_save data \<noteq> JBool False), workflowMetadata := own_props raw,
                       pinData := (if truthy saved \<and> typeof_object saved then obj_assign cleared (own_props saved)
                                   else cleared)\<rparr>))"

text \<open>\<open>saveWorkflow\<close> sends the snapshot with the version hash; the reply is an argument, \<open>Inl\<close> when the
  call was rejected. The first result is what was sent.\<close>

definition saveWorkflow :: "jsval + jsval \<Rightarrow> store \<Rightarrow> (jsval \<times> jsval) \<times> store" where
  "saveWorkflow reply st =
     ((buildFullSnapshot st, versionHash st),
      case reply of
        Inl e \<Rightarrow> st
      | Inr r \<Rightarrow> bus_trigger ''refresh'' JUndef
                   (st\<lparr>versionHash := js_prop r ''version_hash'', hist := hist_clear (hist st)\<rparr>))"

subsection \<open>Executing\<close>

definition or3 :: "jsval \<Rightarrow> jsval \<Rightarrow> jsval \<Rightarrow> jsval" where
  "or3 a b c = js_or a (js_or b c)"

definition run_fields :: "jsval \<Rightarrow> jsval \<Rightarrow> jsval \<Rightarrow> jsobj" where
  "run_fields run result safeInput =
     (let r = js_prop run; q = js_prop result
      in [(''runId'', or3 (r ''run_id'') (r ''id'') (q ''run_id'')),
          (''status'', or3 (r ''status'') (q ''status'') (JStr ''completed'')),
          (''error'', js_or (r ''error'') (or3 (r ''error_message'') (q ''error'') JNull)),
          (''errorNodeId'', js_or (r ''error_node_id'') JNull),
          (''outputData'', js_or (r ''output_data'') JNull),
          (''executedOrder'', or3 (r ''executed_order'') (q ''executed_order'') (JArr [])),
          (''executedConnectionIds'', or3 (r ''executed_connection_ids'') (q ''executed_connection_ids'') (JArr [])),
          (''executedConnections'', or3 (r ''executed_connections'') (q ''executed_connections'') (JArr [])),
          (''executionCount'', js_or (r ''execution_count'') JNull),
          (''durationSeconds'', or3 (r ''duration_seconds'') (q ''duration_seconds'') JNull),
          (''nodeCountExecuted'', js_or (r ''node_count_executed'') JNull),
          (''inputData'', js_or (r ''input_data'') safeInput),
          (''contextSnapshot'', or3 (q ''context_snapshot'') (r ''context_snapshot'') JNull),
          (''executionEvents'', or3 (r ''execution_events'') (q ''execution_events'') (JArr [])),
          (''nodeResults'', js_or (r ''node_results'') (JArr []))])"

text \<open>What both \<open>executeWorkflow\<close> and \<open>executeFromNode\<close> do with the reply to the execute call and the reply to
  the request for the run; \<open>Inl\<close> is a rejected call, which propagates.\<close>

definition after_execute ::
    "jsval \<Rightarrow> jsval + jsval \<Rightarrow> jsval + jsval \<Rightarrow> store \<Rightarrow> (jsval + jsval) \<times> store" where
  "after_execute safeInput reply run_reply st =
     (case reply of
        Inl e \<Rightarrow> (Inl e, st)
      | Inr result \<Rightarrow>
          if truthy result \<and> truthy (js_prop result ''run_id'')
          then (case run_reply of
                  Inl e \<Rightarrow> (Inl e, st)
                | Inr run \<Rightarrow>
                    if \<not> truthy run \<or> \<not> typeof_object run \<or> truthy (js_prop run ''jsonrpc'')
                    then (Inr result,
                          setExecutionResult
                            [(''runId'', js_prop result ''run_id''),
                             (''status'', js_or (js_prop result ''status'') (JStr ''failed'')),
                             (''error'', js_or (js_prop result ''error'') (JStr ''Failed to load run details'')),
                             (''inputData'', safeInput)] st)
                    else (Inr result,
                          bus_trigger ''refresh'' JUndef (setExecutionResult (run_fields run result safeInput) st)))
          else if truthy result \<and> truthy (js_prop result ''error'')
          then (Inr result,
                setExecutionResult
                  [(''status'', js_or (js_prop result ''status'') (JStr ''failed'')),
                   (''error'', js_prop result ''error''), (''inputData'', safeInput)] st)
          else (Inr result, st))"

definition start_progress :: "jsval \<Rightarrow> store \<Rightarrow> store" where
  "start_progress safeInput st =
     st\<lparr>executionProgress := Some (obj_set ''inputData'' safeInput (createFreshProgress JNull))\<rparr>"

definition executeWorkflow ::
    "jsval \<Rightarrow> jsval + jsval \<Rightarrow> jsval + jsval \<Rightarrow> store \<Rightarrow> (jsval + jsval) \<times> store" where
  "executeWorkflow inputData reply run_reply st =
     (if \<not> truthy (workflowId st) then (Inl (JStr ''No workflow ID loaded''), st)
      else (let safeInput = normalizeInputData inputData
            in after_execute safeInput reply run_reply (start_progress safeInput st)))"

definition executeFromNode ::
    "string \<Rightarrow> jsval \<Rightarrow> jsval + jsval \<Rightarrow> jsval + jsval \<Rightarrow> store \<Rightarrow> (jsval + jsval) \<times> store" where
  "executeFromNode startNodeId inputData reply run_reply st =
     (if \<not> truthy (workflowId st) then (Inl (JStr ''No workflow ID loaded''), st)
      else if startNodeId = [] then (Inl (JStr ''Start node ID is required''), st)
      else (let safeInput = normalizeInputData inputData
            in after_execute safeInput reply run_reply (start_progress safeInput st)))"

definition until_fields :: "jsval \<Rightarrow> jsval \<Rightarrow> jsobj" where
  "until_fields result safeInput =
     (let q = js_prop result
      in [(''status'', q ''status''), (''error'', js_or (q ''error'') JNull),
          (''errorNodeId'', js_or (q ''error_node_id'') JNull),
          (''executedOrder'', js_or (q ''executed_order'') (JArr [])),
          (''executedConnectionIds'', js_or (q ''executed_connection_ids'') (JArr [])),
          (''executedConnections'', js_or (q ''executed_connections'') (JArr [])),
          (''executionCount'', js_or (q ''execution_count'') JNull),
          (''durationSeconds'', js_or (q ''duration_seconds'') JNull),
          (''nodeCountExecuted'', js_or (q ''node_count_executed'') JNull), (''inputData'', safeInput),
          (''executionEvents'', js_or (q ''execution_events'') (JArr [])),
          (''nodeResults'', JArr (buildNodeResultsFromOutputs (q ''node_outputs'') (q ''executed_order''))),
          (''nodeOutputs'', js_or (q ''node_outputs'') JNull),
          (''contextSnapshot'', js_or (q ''context_snapshot'') JNull)])"

definition executeUntilNode ::
    "string \<Rightarrow> jsval \<Rightarrow> jsval + jsval \<Rightarrow> store \<Rightarrow> (jsval + jsval) \<times> store" where
  "executeUntilNode targetNodeId inputData reply st =
     (if \<not> truthy (workflowId st) then (Inl (JStr ''No workflow ID loaded''), st)
      else if targetNodeId = [] then (Inl (JStr ''Target node ID is required''), st)
      else
        (let safeInput = normalizeInputData inputData; st1 = start_progress safeInput st
         in case reply of
              Inr result \<Rightarrow>
                (Inr result,
                 if truthy result \<and> (js_prop result ''status'' = JStr ''completed'' \<or> js_prop result ''status'' = JStr ''failed'')
                 then setExecutionResult (until_fields result safeInput) st1 else st1)
            | Inl e \<Rightarrow>
                (Inl e,
                 setExecutionResult
                   [(''status'', JStr ''failed''),
                    (''error'', if truthy e \<and> truthy (js_prop e ''message'') then js_prop e ''message''
                                else JStr ''Execution failed''),
                    (''inputData'', inputData)] st1)))"

subsection \<open>Access to the adapter\<close>

definition store_setNodeConfig :: "string \<Rightarrow> jsobj \<Rightarrow> store \<Rightarrow> bool \<times> store" where
  "store_setNodeConfig i cfg st = (case adapter_setNodeConfig i cfg (graph st) of (r, a) \<Rightarrow> (r, st\<lparr>graph := a\<rparr>))"

definition store_setNodeMeta :: "string \<Rightarrow> jsobj \<Rightarrow> store \<Rightarrow> bool \<times> store" where
  "store_setNodeMeta i m st = (case adapter_setNodeMeta i m (graph st) of (r, a) \<Rightarrow> (r, st\<lparr>graph := a\<rparr>))"

definition renameNode :: "string \<Rightarrow> string \<Rightarrow> store \<Rightarrow> bool \<times> store" where
  "renameNode i l st = (case adapter_setNodeLabel i l (graph st) of (r, a) \<Rightarrow> (r, st\<lparr>graph := a\<rparr>))"

definition store_setControlValue :: "string \<Rightarrow> string \<Rightarrow> jsval \<Rightarrow> store \<Rightarrow> bool \<times> store" where
  "store_setControlValue i k v st =
     (case adapter_setControlValue i k v (graph st) of (r, a) \<Rightarrow> (r, st\<lparr>graph := a\<rparr>))"

end
