(* ===== verification/Store_Inv.thy ===== *)
theory Store_Inv
  imports Store
begin

section \<open>Undo and redo through the store\<close>

text \<open>
  The store records the structural edits: nodes, positions and connections. Titles, control values
  and meta data are changed outside the history. The view that undo and redo restore is therefore the
  shape of the graph: for each id the type, the position and the sockets of its node, and the set of
  connections.
\<close>

subsection \<open>The shape of the graph\<close>

type_synonym shape = "string \<times> position \<times> (string \<times> socket_def) list \<times> (string \<times> socket_def) list"

definition shape_of :: "node \<Rightarrow> shape" where
  "shape_of n = (node_type n, position n, inputs n, outputs n)"

definition class_shape :: "node_class \<Rightarrow> position \<Rightarrow> shape" where
  "class_shape C p = (node_type (new_node C), p, inputs (new_node C), outputs (new_node C))"

type_synonym sview = "(string \<rightharpoonup> shape) \<times> connection set"

definition shape_view :: "adapter \<Rightarrow> sview" where
  "shape_view a = (map_option shape_of \<circ> map_of (nodes (core a)), set (connections (core a)))"

definition at_position :: "position \<Rightarrow> shape \<Rightarrow> shape" where
  "at_position p s = (fst s, p, snd (snd s))"

definition shape_link :: "(string \<rightharpoonup> shape) \<Rightarrow> connection \<Rightarrow> bool" where
  "shape_link S k \<longleftrightarrow>
     (\<exists>s t out inp. S (source k) = Some s \<and> S (target k) = Some t
        \<and> map_of (snd (snd (snd s))) (sourceHandle k) = Some out
        \<and> map_of (fst (snd (snd t))) (targetHandle k) = Some inp
        \<and> isCompatible (sd_socket out) (Some (sd_socket inp)))
     \<and> source k \<noteq> target k
     \<and> conn_id k = generateId (source k) (sourceHandle k) (target k) (targetHandle k)"

lemma shape_link_iff: "shape_link (map_option shape_of \<circ> M) k = link_ok M k"
  by (auto simp: shape_link_def link_ok_def shape_of_def)

lemma shape_view_graph: "graph_view a = (M, K) \<Longrightarrow> shape_view a = (map_option shape_of \<circ> M, K)"
  by (simp add: shape_view_def graph_view_def)

lemma shape_viewE:
  assumes "shape_view a = (S, K)"
  obtains M where "graph_view a = (M, K)" and "S = map_option shape_of \<circ> M"
  using assms by (auto simp: shape_view_def graph_view_def)

lemma shape_forced [simp]: "shape_of (forced_node C p i cfg) = class_shape C p"
  by (simp add: shape_of_def class_shape_def forced_node_def split: option.splits)

lemma shape_moved [simp]: "shape_of (n\<lparr>position := p\<rparr>) = at_position p (shape_of n)"
  by (simp add: shape_of_def at_position_def)

lemma at_position_twice [simp]: "at_position p (at_position q s) = at_position p s"
  by (simp add: at_position_def)

lemma at_position_same: "fst (snd s) = p \<Longrightarrow> at_position p s = s"
  by (cases s) (auto simp: at_position_def)

subsection \<open>What the recorded actions do to the shape\<close>

inductive edits :: "(string \<times> node_class) list \<Rightarrow> adapter action \<Rightarrow> sview \<Rightarrow> sview \<Rightarrow> bool"
  for odoo where
  add_node: "S i = None \<Longrightarrow> i \<noteq> [] \<Longrightarrow> map_of odoo type = Some C \<Longrightarrow> \<forall>k \<in> K. \<not> involvesNode k i \<Longrightarrow>
     edits odoo (createAddNodeAction odoo \<lparr>nd_id = i, nd_type = type, nd_position = p, nd_config = cfg\<rparr>)
       (S, K) (S(i \<mapsto> class_shape C p), K)"
| remove_node: "S i = None \<Longrightarrow> i \<noteq> [] \<Longrightarrow> map_of odoo type = Some C \<Longrightarrow> \<forall>k \<in> K. \<not> involvesNode k i \<Longrightarrow>
     distinct (map conn_id cs) \<Longrightarrow> conn_id ` set cs \<inter> conn_id ` K = {} \<Longrightarrow>
     \<forall>k \<in> set cs. involvesNode k i \<and> plain_conn k \<and> shape_link (S(i \<mapsto> class_shape C p)) k \<Longrightarrow>
     edits odoo (createRemoveNodeAction odoo \<lparr>nd_id = i, nd_type = type, nd_position = p, nd_config = cfg\<rparr>
                   (map conn_to_ui cs))
       (S(i \<mapsto> class_shape C p), K \<union> set cs) (S, K)"
| move_node: "S i = Some s \<Longrightarrow> fst (snd s) = old \<Longrightarrow>
     edits odoo (createMoveNodeAction i old new) (S, K) (S(i \<mapsto> at_position new s), K)"
| move_nodes: "distinct (map mv_nodeId ms) \<Longrightarrow>
     \<forall>m \<in> set ms. \<exists>s. S (mv_nodeId m) = Some s \<and> fst (snd s) = mv_old m \<Longrightarrow>
     S' = (\<lambda>i. case map_of (map (\<lambda>m. (mv_nodeId m, mv_new m)) ms) i of
              None \<Rightarrow> S i | Some p \<Rightarrow> map_option (at_position p) (S i)) \<Longrightarrow>
     edits odoo (createMoveNodesAction ms) (S, K) (S', K)"
| add_connection: "plain_conn k \<Longrightarrow> shape_link S k \<Longrightarrow> conn_id k \<notin> conn_id ` K \<Longrightarrow>
     edits odoo (createAddConnectionAction (conn_to_ui k)) (S, K) (S, insert k K)"
| remove_connection: "plain_conn k \<Longrightarrow> shape_link S k \<Longrightarrow> conn_id k \<notin> conn_id ` K \<Longrightarrow>
     edits odoo (createRemoveConnectionAction (conn_to_ui k)) (S, insert k K) (S, K)"

text \<open>The operations of the adapter on the shape.\<close>

lemma shape_removeNode:
  assumes "adapter_inv a" and "shape_view a = (S, K)"
  shows "shape_view (snd (adapter_removeNode i a)) = (S(i := None), {k \<in> K. \<not> involvesNode k i})"
proof -
  from assms(2) obtain M where M: "graph_view a = (M, K)" "S = map_option shape_of \<circ> M" by (rule shape_viewE)
  from shape_view_graph [OF view_removeNode [OF assms(1) M(1)]] M(2) show ?thesis
    by (auto simp: fun_eq_iff)
qed

lemma shape_addNodeWithId:
  assumes "shape_view a = (S, K)" and "map_of odoo type = Some C" and "i \<noteq> []"
  shows "shape_view (snd (adapter_addNodeWithId odoo type p i cfg a)) = (S(i \<mapsto> class_shape C p), K)"
proof -
  from assms(1) obtain M where M: "graph_view a = (M, K)" "S = map_option shape_of \<circ> M" by (rule shape_viewE)
  from shape_view_graph [OF view_addNodeWithId [OF M(1) assms(2,3)]] M(2) show ?thesis
    by (auto simp: fun_eq_iff)
qed

lemma shape_updatePosition:
  assumes "shape_view a = (S, K)"
  shows "shape_view (snd (adapter_updatePosition i p a)) = (S(i := map_option (at_position p) (S i)), K)"
proof -
  from assms(1) obtain M where M: "graph_view a = (M, K)" "S = map_option shape_of \<circ> M" by (rule shape_viewE)
  from shape_view_graph [OF view_updatePosition [OF M(1)]] M(2) show ?thesis
    by (auto simp: fun_eq_iff option.map_comp comp_def)
qed

lemma shape_move_all:
  assumes "shape_view a = (S, K)" and "distinct (map fst ms)"
  shows "shape_view (move_all ms a) =
    (\<lambda>i. case map_of ms i of None \<Rightarrow> S i | Some p \<Rightarrow> map_option (at_position p) (S i), K)"
proof -
  from assms(1) obtain M where M: "graph_view a = (M, K)" "S = map_option shape_of \<circ> M" by (rule shape_viewE)
  from shape_view_graph [OF view_move_all [OF M(1) assms(2)]] M(2) show ?thesis
    by (auto simp: fun_eq_iff moved_def option.map_comp comp_def split: option.splits)
qed

lemma shape_addConnection:
  assumes "shape_view a = (S, K)" and "plain_conn k" "shape_link S k" "conn_id k \<notin> conn_id ` K"
  shows "shape_view (snd (adapter_addConnection (source k) (sourceHandle k) (target k) (targetHandle k) a))
    = (S, insert k K)"
proof -
  from assms(1) obtain M where M: "graph_view a = (M, K)" "S = map_option shape_of \<circ> M" by (rule shape_viewE)
  with assms(3) have "link_ok M k" by (simp add: shape_link_iff)
  from shape_view_graph [OF view_addConnection [OF M(1) assms(2) this assms(4)]] M(2) show ?thesis by simp
qed

lemma shape_removeConnection:
  assumes "adapter_inv a" and "shape_view a = (S, K)"
  shows "shape_view (snd (adapter_removeConnection i a)) = (S, {k \<in> K. conn_id k \<noteq> i})"
proof -
  from assms(2) obtain M where M: "graph_view a = (M, K)" "S = map_option shape_of \<circ> M" by (rule shape_viewE)
  from shape_view_graph [OF view_removeConnection [OF assms(1) M(1)]] M(2) show ?thesis by simp
qed

lemma shape_restore_connections:
  assumes "shape_view a = (S, K)" and "\<forall>k \<in> set cs. plain_conn k \<and> shape_link S k"
    and "distinct (map conn_id cs)" and "conn_id ` set cs \<inter> conn_id ` K = {}"
  shows "shape_view (restore_connections (map conn_to_ui cs) a) = (S, K \<union> set cs)"
proof -
  from assms(1) obtain M where M: "graph_view a = (M, K)" "S = map_option shape_of \<circ> M" by (rule shape_viewE)
  with assms(2) have "\<forall>k \<in> set cs. plain_conn k \<and> link_ok M k" by (simp add: shape_link_iff)
  from shape_view_graph [OF view_restore_connections [OF M(1) this assms(3,4)]] M(2) show ?thesis by simp
qed

subsection \<open>The laws of undo and redo\<close>

definition session_good :: "(string \<times> node_class) list \<Rightarrow> adapter \<Rightarrow> bool" where
  "session_good odoo a \<longleftrightarrow> registry_sound odoo \<and> session_inv odoo a \<and> list_all plain_conn (connections (core a))"

lemma plain_conn_new [simp]: "plain_conn (new_Connection a h b g)"
  by (simp add: plain_conn_def new_Connection_def)

lemma plain_conns_step:
  assumes "list_all plain_conn (connections (core a))" and "session_ok odoo op a"
  shows "list_all plain_conn (connections (core (adapter_step odoo op a)))"
proof -
  have add: "connections (core (snd (adapter_addNode odoo type p a))) = connections (core a)" for type p
    using assms(2)
    by (cases "map_of odoo type")
       (auto simp: adapter_addNode_def adapter_getNodeClass_def split_beta Let_def core_addNode_class
         session_ok_def registry_class_ok)
  have with_id: "i \<noteq> [] \<Longrightarrow> connections (core (snd (adapter_addNodeWithId odoo type p i cfg a))) = connections (core a)"
    for type p i cfg
    by (cases "map_of odoo type")
       (simp_all add: adapter_addNodeWithId_core, simp add: adapter_addNodeWithId_def adapter_getNodeClass_def)
  show ?thesis using assms remove_first_set [of _ "connections (core a)"]
    by (cases op)
       (auto simp: add with_id session_ok_def adapter_ok_def adapter_updatePosition_core adapter_in_place_core
         adapter_removeNode_def editor_removeNode_core adapter_addConnection_def adapter_removeConnection_def
         editor_conn_core adapter_refreshNodeRegistry_def adapter_clear_def list_all_iff split: option.splits)
qed

lemma session_good_step:
  assumes "session_good odoo a" and "registry_sound odoo \<Longrightarrow> session_ok odoo op a"
  shows "session_good odoo (adapter_step odoo op a)"
  using assms ses.step_invar [of odoo a op] plain_conns_step [of a odoo op] by (simp add: session_good_def)

lemma session_good_ops:
  assumes "session_good odoo a"
  shows "session_good odoo (snd (adapter_removeNode i a))"
    and "session_good odoo (snd (adapter_updatePosition i p a))"
    and "session_good odoo (snd (adapter_addConnection s h t g a))"
    and "session_good odoo (snd (adapter_removeConnection i a))"
    and "session_good odoo (snd (adapter_setNodeConfig i cfg a))"
    and "session_good odoo (snd (adapter_setControlValue i c v a))"
    and "l \<noteq> [] \<Longrightarrow> session_good odoo (snd (adapter_setNodeLabel i l a))"
    and "plain_patch m \<Longrightarrow> session_good odoo (snd (adapter_setNodeMeta i m a))"
    and "i \<noteq> [] \<Longrightarrow> i \<notin> set (map_keys (nodes (core a))) \<Longrightarrow>
         session_good odoo (snd (adapter_addNodeWithId odoo type p i c' a))"
    and "session_good odoo (snd (adapter_addNode odoo type p a))"
  using assms session_good_step [of odoo a "GRemove i"] session_good_step [of odoo a "GMove i p"]
    session_good_step [of odoo a "GConnect s h t g"] session_good_step [of odoo a "GDisconnect i"]
    session_good_step [of odoo a "GSetConfig i cfg"] session_good_step [of odoo a "GSetControl i c v"]
    session_good_step [of odoo a "GSetLabel i l"] session_good_step [of odoo a "GSetMeta i m"]
    session_good_step [of odoo a "GAddWithId type p i c'"] session_good_step [of odoo a "GAdd type p"]
  by (simp_all add: session_ok_def adapter_ok_def registry_class_ok split: option.splits)

lemma session_good_fold:
  "session_good odoo a \<Longrightarrow> session_good odoo (move_all ms a)"
  "session_good odoo a \<Longrightarrow> session_good odoo (restore_connections cs a)"
proof -
  show "session_good odoo a \<Longrightarrow> session_good odoo (move_all ms a)"
    unfolding move_all_def by (induction ms arbitrary: a) (auto intro: session_good_ops(2))
  show "session_good odoo a \<Longrightarrow> session_good odoo (restore_connections cs a)"
    unfolding restore_connections_def by (induction cs arbitrary: a) (auto intro: session_good_ops(3))
qed

lemma session_good_inv: "session_good odoo a \<Longrightarrow> adapter_inv a"
  by (simp add: session_good_def session_inv_def)

lemma shape_fresh: "shape_view a = (S, K) \<Longrightarrow> S i = None \<Longrightarrow> i \<notin> set (map_keys (nodes (core a)))"
  by (force simp: shape_view_def map_of_eq_None_iff)

lemma edits_redo:
  assumes "edits odoo act v w" and "session_good odoo a" and "shape_view a = v"
  shows "\<exists>a'. act_redo act a = (a', None) \<and> session_good odoo a' \<and> shape_view a' = w"
  using assms
proof (cases rule: edits.cases)
  case (add_node S i type C K p cfg)
  with assms show ?thesis
    by (auto simp: factory_defs shape_addNodeWithId intro!: session_good_ops(9) dest: shape_fresh)
next
  case (remove_node S i type C K cs p cfg)
  with assms session_good_inv [OF assms(2)] shape_removeNode [of a] show ?thesis
    by (auto simp: factory_defs fun_upd_idem intro!: session_good_ops(1))
next
  case (move_node S i s old new K)
  with assms show ?thesis by (auto simp: factory_defs shape_updatePosition intro!: session_good_ops(2))
next
  case (move_nodes ms S S' K)
  with assms show ?thesis
    by (auto simp: factory_defs shape_move_all comp_def intro!: session_good_fold)
next
  case (add_connection k S K)
  with assms show ?thesis by (auto simp: factory_defs shape_addConnection intro!: session_good_ops(3))
next
  case (remove_connection k S K)
  then have "{x \<in> insert k K. conn_id x \<noteq> conn_id k} = K" by (auto simp: image_iff)
  with remove_connection assms session_good_inv [OF assms(2)] show ?thesis
    by (auto simp: factory_defs shape_removeConnection intro!: session_good_ops(4))
qed

lemma moves_back:
  fixes ms :: "node_move list"
  assumes "distinct (map mv_nodeId ms)" and "\<forall>m \<in> set ms. \<exists>s. S (mv_nodeId m) = Some s \<and> fst (snd s) = mv_old m"
    and that: "S' = (\<lambda>i. case map_of (map (\<lambda>m. (mv_nodeId m, mv_new m)) ms) i of
      None \<Rightarrow> S i | Some p \<Rightarrow> map_option (at_position p) (S i))"
  shows "(case map_of (map (\<lambda>m. (mv_nodeId m, mv_old m)) ms) i of
      None \<Rightarrow> S' i | Some p \<Rightarrow> map_option (at_position p) (S' i)) = S i"
proof (cases "i \<in> mv_nodeId ` set ms")
  case True
  then obtain m where m: "m \<in> set ms" "i = mv_nodeId m" by blast
  then have "map_of (map (\<lambda>m. (mv_nodeId m, f m)) ms) i = Some (f m)" for f :: "node_move \<Rightarrow> position"
    using assms(1) by (intro map_of_is_SomeI) (auto simp: comp_def)
  with assms(2) m that show ?thesis by (auto simp: at_position_same)
next
  case False
  then have "map_of (map (\<lambda>m. (mv_nodeId m, f m)) ms) i = None" for f :: "node_move \<Rightarrow> position"
    by (auto simp: map_of_eq_None_iff)
  with that show ?thesis by simp
qed

lemma edits_undo:
  assumes "edits odoo act v w" and "session_good odoo a" and "shape_view a = w"
  shows "\<exists>a'. act_undo act a = (a', None) \<and> session_good odoo a' \<and> shape_view a' = v"
  using assms
proof (cases rule: edits.cases)
  case (add_node S i type C K p cfg)
  with assms session_good_inv [OF assms(2)] shape_removeNode [of a] show ?thesis
    by (auto simp: factory_defs fun_upd_idem intro!: session_good_ops(1))
next
  case (remove_node S i type C K cs p cfg)
  let ?a = "snd (adapter_addNodeWithId odoo type p i (Some cfg) a)"
  have "shape_view ?a = (S(i \<mapsto> class_shape C p), K)"
    using remove_node assms by (intro shape_addNodeWithId) auto
  then have "shape_view (restore_connections (map conn_to_ui cs) ?a) = (S(i \<mapsto> class_shape C p), K \<union> set cs)"
    using remove_node by (intro shape_restore_connections) auto
  moreover have "session_good odoo ?a"
    using remove_node assms shape_fresh by (intro session_good_ops(9)) auto
  ultimately show ?thesis
    using remove_node by (auto simp: createRemoveNodeAction_def intro: session_good_fold)
next
  case (move_node S i s old new K)
  with assms show ?thesis
    by (auto simp: factory_defs shape_updatePosition at_position_same fun_upd_idem intro!: session_good_ops(2))
next
  case (move_nodes ms S S' K)
  then show ?thesis using assms moves_back [of ms S S']
    by (auto simp: factory_defs shape_move_all comp_def intro!: session_good_fold)
next
  case (add_connection k S K)
  then have "{x \<in> insert k K. conn_id x \<noteq> conn_id k} = K" by (auto simp: image_iff)
  with add_connection assms session_good_inv [OF assms(2)] show ?thesis
    by (auto simp: factory_defs shape_removeConnection intro!: session_good_ops(4))
next
  case (remove_connection k S K)
  with assms show ?thesis by (auto simp: factory_defs shape_addConnection intro!: session_good_ops(3))
qed

interpretation sh: edit_history shape_view "session_good odoo" "edits odoo" for odoo
  by unfold_locales (auto dest: edits_undo edits_redo)

subsection \<open>What the store reads from the mirror\<close>

lemma getNode_mirror:
  assumes "adapter_inv (graph st)"
  shows "store_getNode i st = map_option node_to_ui (map_of (nodes (core (graph st))) i)"
proof -
  have "List.find (\<lambda>u. ui_id u = Some i) (map node_to_ui (map snd ns)) = map_option node_to_ui (map_of ns i)"
    if "list_all (\<lambda>(k, n). node_id n = Some k) ns" for ns
    using that by (induction ns) (auto simp: node_to_ui_def)
  moreover have "list_all (\<lambda>(k, n). node_id n = Some k) (nodes (core (graph st)))"
    using assms by (auto simp: adapter_inv_def core_wf_def nodes_wf_def list_all_iff)
  ultimately show ?thesis
    using assms by (simp add: store_getNode_def adapter_inv_def mirror_def getNodesForUI_def)
qed

lemma getConnection_mirror:
  assumes "adapter_inv (graph st)"
  shows "store_getConnection i st = map_option conn_to_ui (List.find (\<lambda>k. conn_id k = i) (connections (core (graph st))))"
proof -
  have "List.find (\<lambda>c. uc_id c = i) (map conn_to_ui ks) = map_option conn_to_ui (List.find (\<lambda>k. conn_id k = i) ks)" for ks
    by (induction ks) (auto simp: conn_to_ui_def)
  with assms show ?thesis
    by (simp add: store_getConnection_def adapter_inv_def mirror_def getConnectionsForUI_def)
qed

lemma ui_position [simp]: "ui_x (node_to_ui n) = fst (position n)" "ui_y (node_to_ui n) = snd (position n)"
  "ui_type (node_to_ui n) = node_type n"
  by (simp_all add: node_to_ui_def)

subsection \<open>The graph actions stay on the line\<close>

abbreviation on_line :: "(string \<times> node_class) list \<Rightarrow> store \<Rightarrow> bool" where
  "on_line odoo st \<equiv> sh.line odoo (hist st) (graph st)"

lemma view_conns:
  assumes "session_good odoo a" and "shape_view a = (S, K)"
  shows "\<forall>k \<in> K. shape_link S k \<and> plain_conn k" and "inj_on conn_id K" and "S i = None \<Longrightarrow> \<forall>k \<in> K. \<not> involvesNode k i"
proof -
  from assms(2) obtain M where M: "graph_view a = (M, K)" "S = map_option shape_of \<circ> M" by (rule shape_viewE)
  note w = view_wf [OF session_good_inv [OF assms(1)] M(1)]
  show links: "\<forall>k \<in> K. shape_link S k \<and> plain_conn k"
    using w(1) M assms(1) by (auto simp: shape_link_iff session_good_def list_all_iff graph_view_def)
  show "inj_on conn_id K" by (rule w(2))
  show "S i = None \<Longrightarrow> \<forall>k \<in> K. \<not> involvesNode k i"
    using links by (auto simp: shape_link_def involvesNode_def)
qed

lemma shape_addNode:
  assumes g: "session_good odoo a" and v: "shape_view a = (S, K)" and C: "map_of odoo type = Some C"
  shows "\<exists>i a'. adapter_addNode odoo type p a = (Some i, a') \<and> i \<noteq> [] \<and> S i = None
    \<and> shape_view a' = (S(i \<mapsto> class_shape C p), K)"
proof -
  let ?i = "''n_'' @ show_nat (Suc (idCounter (core a)))"
  have ok: "class_ok C" using g C registry_class_ok by (auto simp: session_good_def)
  have "core_wf (core a)" using session_good_inv [OF g] by (simp add: adapter_inv_def)
  then have "S ?i = None"
    using core_addNode_class_fresh v by (auto simp: shape_view_def map_of_eq_None_iff)
  moreover have "fst (adapter_addNode odoo type p a) = Some ?i"
    "shape_view (snd (adapter_addNode odoo type p a)) = (S(?i \<mapsto> class_shape C p), K)"
    using v C ok
    by (auto simp: adapter_addNode_def adapter_getNodeClass_def editor_addNode_def split_beta Let_def
        core_addNode_class shape_view_def jsm.get_put fun_eq_iff shape_of_def class_shape_def)
  ultimately show ?thesis by (metis append_is_Nil_conv not_Cons_self2 prod.collapse list.distinct(1))
qed

text \<open>One edit of the store: it records an action that leads from the shape before to the shape after,
  or it changes neither the history nor the shape.\<close>

definition recorded_step :: "(string \<times> node_class) list \<Rightarrow> store \<Rightarrow> store \<Rightarrow> bool" where
  "recorded_step odoo st st' \<longleftrightarrow> session_good odoo (graph st') \<and>
     (hist st' = hist st \<and> shape_view (graph st') = shape_view (graph st)
      \<or> (\<exists>act. hist st' = hist_push act (hist st) \<and> edits odoo act (shape_view (graph st)) (shape_view (graph st'))))"

lemma recorded_step_refl: "session_good odoo (graph st) \<Longrightarrow> recorded_step odoo st st"
  by (simp add: recorded_step_def)

lemma recorded_step_line: "on_line odoo st \<Longrightarrow> recorded_step odoo st st' \<Longrightarrow> on_line odoo st'"
  using sh.line_same_view [of odoo "hist st" "graph st" "graph st'"] sh.line_push [of odoo "hist st" "graph st" "graph st'"]
  by (auto simp: recorded_step_def)

lemma recorded_step_undo:
  assumes l: "on_line odoo st" and "currentBatch (hist st) = None" and "recorded_step odoo st st'"
  shows "hist st' = hist st \<and> shape_view (graph st') = shape_view (graph st)
    \<or> fst (store_undo st') = Inr True \<and> shape_view (graph (snd (store_undo st'))) = shape_view (graph st)"
proof -
  have "fst (store_undo st') = Inr True \<and> shape_view (graph (snd (store_undo st'))) = shape_view (graph st)"
    if a: "hist st' = hist_push act (hist st)" "edits odoo act (shape_view (graph st)) (shape_view (graph st'))"
      "session_good odoo (graph st')" for act
    using sh.line_push_undo [OF l assms(2) a(3,2)] a(1) by (auto simp: store_undo_def split: prod.splits)
  with assms(3) show ?thesis by (auto simp: recorded_step_def)
qed

lemma add_and_record_step:
  assumes g: "session_good odoo (graph st)"
  shows "recorded_step odoo st (snd (add_and_record odoo type p st))"
proof (cases "map_of odoo type")
  case None
  with g show ?thesis
    by (simp add: add_and_record_def adapter_addNode_def adapter_getNodeClass_def recorded_step_def)
next
  case (Some C)
  obtain S K where v: "shape_view (graph st) = (S, K)" by fastforce
  from shape_addNode [OF g v Some, of p] obtain i a' where a: "adapter_addNode odoo type p (graph st) = (Some i, a')"
    "i \<noteq> []" "S i = None" "shape_view a' = (S(i \<mapsto> class_shape C p), K)" by blast
  have "session_good odoo a'" using session_good_ops(10) [OF g, of type p] a(1) by simp
  moreover have "edits odoo (createAddNodeAction odoo
      \<lparr>nd_id = i, nd_type = type, nd_position = p, nd_config = adapter_getNodeConfig i a'\<rparr>)
      (shape_view (graph st)) (shape_view a')"
    unfolding v a(4) using a(2,3) Some view_conns(3) [OF g v] by (intro edits.add_node) auto
  ultimately show ?thesis by (auto simp: recorded_step_def add_and_record_def a(1))
qed

lemma connect_and_record_step:
  assumes gd: "session_good odoo (graph st)"
  shows "recorded_step odoo st (snd (connect_and_record s h t g st))"
proof (cases "connectable s h t g (core (graph st))")
  case False
  with gd show ?thesis
    by (simp add: connect_and_record_def adapter_addConnection_def editor_addConnection_def core_addConnection_iff
        recorded_step_def)
next
  case True
  let ?k = "new_Connection s h t g" and ?a = "snd (adapter_addConnection s h t g (graph st))"
  obtain S K where v: "shape_view (graph st) = (S, K)" by fastforce
  then obtain M where M: "graph_view (graph st) = (M, K)" "S = map_option shape_of \<circ> M" by (rule shape_viewE)
  have id: "conn_id ?k = generateId s h t g" by (simp add: new_Connection_def)
  have k: "shape_link S ?k" "conn_id ?k \<notin> conn_id ` K"
    using True M by (auto simp: connectable_def conn_ok_view shape_link_iff graph_view_def id)
  have f: "source ?k = s" "sourceHandle ?k = h" "target ?k = t" "targetHandle ?k = g"
    by (simp_all add: new_Connection_def)
  have "shape_view ?a = (S, insert ?k K)" using shape_addConnection [OF v plain_conn_new k] by (simp add: f)
  then have "edits odoo (createAddConnectionAction (conn_to_ui ?k)) (shape_view (graph st)) (shape_view ?a)"
    unfolding v using k by (auto intro: edits.add_connection)
  moreover note session_good_ops(3) [OF gd, of s h t g]
  moreover obtain a where a: "adapter_addConnection s h t g (graph st) = (Some ?k, a)"
    using True editor_conn_core(2) [of s h t g "graph st"]
    by (metis adapter_addConnection_def prod.collapse)
  ultimately show ?thesis by (auto simp: connect_and_record_def recorded_step_def)
qed

lemma record_lines:
  assumes "on_line odoo st"
  shows "on_line odoo (snd (add_and_record odoo type p st))"
    and "on_line odoo (snd (connect_and_record s h t g st))"
  using recorded_step_line [OF assms] add_and_record_step connect_and_record_step sh.line_good [OF assms] by blast+

lemma store_addNode_line: "on_line odoo st \<Longrightarrow> on_line odoo (snd (store_addNode odoo type p st))"
proof -
  assume l: "on_line odoo st"
  obtain r st1 where 1: "add_and_record odoo type p st = (r, st1)" by fastforce
  obtain r' st3 where 3: "add_and_record odoo ''noop'' (fst p + 80, snd p + 160) (clearExecution st1) = (r', st3)"
    by fastforce
  have l1: "on_line odoo (clearExecution st1)" "on_line odoo st1"
    using record_lines(1) [OF l, of type p] 1 by (simp_all add: clearExecution_def)
  then have "on_line odoo st3" using record_lines(1) [OF l1(1)] 3 by (metis snd_conv)
  with l1 show ?thesis
    by (cases r; cases r') (simp_all add: store_addNode_def 1 3 Let_def record_lines(2))
qed

lemma getNode_shape:
  assumes "session_good odoo (graph st)" and "shape_view (graph st) = (S, K)"
  shows "store_getNode i st = None \<Longrightarrow> S i = None"
    and "store_getNode i st = Some u \<Longrightarrow> \<exists>s. S i = Some s \<and> fst (snd s) = (ui_x u, ui_y u)"
  using assms(2) getNode_mirror [OF session_good_inv [OF assms(1)], of i]
  by (auto simp: shape_view_def shape_of_def)

lemma store_moveNode_step:
  assumes g: "session_good odoo (graph st)" shows "recorded_step odoo st (store_moveNode i p st)"
proof -
  obtain S K where v: "shape_view (graph st) = (S, K)" by fastforce
  let ?a = "snd (adapter_updatePosition i p (graph st))"
  have g': "session_good odoo ?a" by (rule session_good_ops(2) [OF g])
  note v' = shape_updatePosition [OF v, of i p]
  show ?thesis
  proof (cases "store_getNode i st")
    case None
    with getNode_shape(1) [OF g v] v v' have "shape_view ?a = shape_view (graph st)" by (simp add: fun_upd_idem)
    with None g' show ?thesis by (simp add: store_moveNode_def recorded_step_def)
  next
    case (Some u)
    with getNode_shape(2) [OF g v] obtain s where s: "S i = Some s" "fst (snd s) = (ui_x u, ui_y u)" by blast
    then have "edits odoo (createMoveNodeAction i (ui_x u, ui_y u) p) (shape_view (graph st)) (shape_view ?a)"
      unfolding v v' using edits.move_node [of S i s] by simp
    with g g' Some show ?thesis by (auto simp: store_moveNode_def recorded_step_def)
  qed
qed

text \<open>The moves a loop over distinct ids made lead from the view before it to the view after it.\<close>

lemma move_entries_spec:
  assumes "session_good odoo (graph st)" and "shape_view (graph st) = (S, K)" and "distinct (map fst es)"
    and "move_entries es st = (ms, st')"
  shows "session_good odoo (graph st') \<and> hist st' = hist st \<and> distinct (map mv_nodeId ms)
    \<and> mv_nodeId ` set ms \<subseteq> fst ` set es
    \<and> (\<forall>m \<in> set ms. \<exists>s. S (mv_nodeId m) = Some s \<and> fst (snd s) = mv_old m)
    \<and> shape_view (graph st') = (\<lambda>i. case map_of (map (\<lambda>m. (mv_nodeId m, mv_new m)) ms) i of
         None \<Rightarrow> S i | Some p \<Rightarrow> map_option (at_position p) (S i), K)"
  using assms
proof (induction es arbitrary: st S ms)
  case (Cons e es)
  obtain i p where e: "e = (i, p)" by (cases e)
  have fresh: "i \<notin> fst ` set es" and dist: "distinct (map fst es)" using Cons.prems(3) e by auto
  consider (skip) "move_entries es st = (ms, st')"
    | (move) u ms' where "store_getNode i st = Some u" "ms = \<lparr>mv_nodeId = i, mv_old = (ui_x u, ui_y u), mv_new = p\<rparr> # ms'"
      "move_entries es (st\<lparr>graph := snd (adapter_updatePosition i p (graph st))\<rparr>) = (ms', st')"
    using Cons.prems(4) e by (auto split: option.splits if_splits prod.splits)
  then show ?case
  proof cases
    case skip
    from Cons.IH [OF Cons.prems(1,2) dist skip] show ?thesis by auto
  next
    case (move u ms')
    let ?st = "st\<lparr>graph := snd (adapter_updatePosition i p (graph st))\<rparr>"
    let ?S = "S(i := map_option (at_position p) (S i))"
    have g: "session_good odoo (graph ?st)" using session_good_ops(2) [OF Cons.prems(1)] by simp
    have v: "shape_view (graph ?st) = (?S, K)" using shape_updatePosition [OF Cons.prems(2), of i p] by simp
    note IH = Cons.IH [OF g v dist move(3)]
    obtain s where s: "S i = Some s" "fst (snd s) = (ui_x u, ui_y u)"
      using getNode_shape(2) [OF Cons.prems(1,2) move(1)] by blast
    have ni: "i \<notin> mv_nodeId ` set ms'" using IH fresh by blast
    then have none: "map_of (map (\<lambda>m. (mv_nodeId m, mv_new m)) ms') i = None"
      by (force simp: map_of_eq_None_iff)
    have old: "\<forall>m \<in> set ms'. \<exists>s. S (mv_nodeId m) = Some s \<and> fst (snd s) = mv_old m"
    proof
      fix m assume m: "m \<in> set ms'"
      with ni have "mv_nodeId m \<noteq> i" by auto
      moreover from IH m have "\<exists>s. ?S (mv_nodeId m) = Some s \<and> fst (snd s) = mv_old m" by blast
      ultimately show "\<exists>s. S (mv_nodeId m) = Some s \<and> fst (snd s) = mv_old m" by simp
    qed
    have "shape_view (graph st') = (\<lambda>j. case map_of (map (\<lambda>m. (mv_nodeId m, mv_new m)) ms) j of
         None \<Rightarrow> S j | Some p \<Rightarrow> map_option (at_position p) (S j), K)"
      using IH none by (auto simp: move(2) fun_eq_iff split: option.splits)
    moreover have "distinct (map mv_nodeId ms)" using IH ni by (simp add: move(2))
    moreover have "mv_nodeId ` set ms \<subseteq> fst ` set (e # es)" using IH by (auto simp: move(2) e)
    moreover have "\<forall>m \<in> set ms. \<exists>s. S (mv_nodeId m) = Some s \<and> fst (snd s) = mv_old m"
      using old s by (auto simp: move(2) simp del: split_paired_Ex)
    moreover have "hist st' = hist st" "session_good odoo (graph st')" using IH by simp_all
    ultimately show ?thesis by blast
  qed
qed simp

lemma store_moveNodes_step:
  assumes g: "session_good odoo (graph st)" and d: "distinct (map fst es)"
  shows "recorded_step odoo st (store_moveNodes es st)"
proof -
  obtain S K where v: "shape_view (graph st) = (S, K)" by fastforce
  obtain ms st' where m: "move_entries es st = (ms, st')" by fastforce
  note spec = move_entries_spec [OF g v d m]
  have "edits odoo (createMoveNodesAction ms) (shape_view (graph st)) (shape_view (graph st'))"
    using spec by (auto simp: v intro!: edits.move_nodes)
  moreover have "ms = [] \<Longrightarrow> shape_view (graph st') = shape_view (graph st)" using spec v by auto
  ultimately show ?thesis using spec by (auto simp: store_moveNodes_def m recorded_step_def)
qed

lemma store_removeConnection_step:
  assumes g: "session_good odoo (graph st)" shows "recorded_step odoo st (snd (store_removeConnection i st))"
proof -
  obtain S K where v: "shape_view (graph st) = (S, K)" by fastforce
  note inv = session_good_inv [OF g]
  show ?thesis
  proof (cases "List.find (\<lambda>k. conn_id k = i) (connections (core (graph st)))")
    case None
    with g show ?thesis
      by (simp add: store_removeConnection_def getConnection_mirror [OF inv] recorded_step_refl)
  next
    case (Some k)
    then have k: "k \<in> K" "conn_id k = i" using v by (auto simp: find_Some_iff shape_view_def)
    let ?a = "snd (adapter_removeConnection i (graph st))" and ?K = "{x \<in> K. conn_id x \<noteq> i}"
    have K: "K = insert k ?K" using k view_conns(2) [OF g v] by (auto dest: inj_onD)
    have "edits odoo (createRemoveConnectionAction (conn_to_ui k)) (S, insert k ?K) (S, ?K)"
      using k view_conns(1) [OF g v] by (intro edits.remove_connection) auto
    then have "edits odoo (createRemoveConnectionAction (conn_to_ui k)) (shape_view (graph st)) (shape_view ?a)"
      using K shape_removeConnection [OF inv v, of i] v by simp
    with Some session_good_ops(4) [OF g, of i] show ?thesis
      by (auto simp: store_removeConnection_def getConnection_mirror [OF inv] clearExecution_def recorded_step_def)
  qed
qed

lemma store_removeNode_step:
  assumes g: "session_good odoo (graph st)" shows "recorded_step odoo st (snd (store_removeNode odoo i st))"
proof -
  obtain S K where v: "shape_view (graph st) = (S, K)" by fastforce
  note inv = session_good_inv [OF g]
  let ?ns = "nodes (core (graph st))"
  show ?thesis
  proof (cases "map_of ?ns i")
    case None
    with g show ?thesis by (simp add: store_removeNode_def getNode_mirror [OF inv] recorded_step_refl)
  next
    case (Some n)
    have "restorable (buildNodeRegistryFromOdoo odoo) (i, n)" and "i \<noteq> []"
      using g Some by (auto simp: session_good_def session_inv_def restorable_core_def adapter_inv_def core_wf_def
          nodes_wf_def list_all_iff dest!: map_of_SomeD)
    then obtain C where C: "map_of odoo (node_type n) = Some C" "instance_of C n"
      using g by (auto simp: restorable_def session_good_def registry_lookup split: option.splits)
    then have s: "shape_of n = class_shape C (position n)"
      by (simp add: instance_of_def shape_of_def class_shape_def)
    let ?cs = "filter (\<lambda>k. involvesNode k i) (connections (core (graph st)))"
    let ?K = "{k \<in> K. \<not> involvesNode k i}"
    let ?d = "\<lparr>nd_id = i, nd_type = node_type n, nd_position = position n,
      nd_config = adapter_getNodeConfig i (graph st)\<rparr>"
    let ?a = "snd (adapter_removeNode i (graph st))"
    have S: "S = (S(i := None))(i \<mapsto> class_shape C (position n))"
    proof -
      have "S i = Some (shape_of n)" using v Some by (auto simp: shape_view_def)
      then show ?thesis using s by (simp add: fun_upd_idem)
    qed
    have K: "K = ?K \<union> set ?cs" using v by (auto simp: shape_view_def)
    have "edits odoo (createRemoveNodeAction odoo ?d (map conn_to_ui ?cs))
        ((S(i := None))(i \<mapsto> class_shape C (position n)), ?K \<union> set ?cs) (S(i := None), ?K)"
    proof (rule edits.remove_node)
      show "distinct (map conn_id ?cs)"
        using inv by (simp add: adapter_inv_def core_wf_def conns_wf_def distinct_map_filter)
      show "conn_id ` set ?cs \<inter> conn_id ` ?K = {}"
        using view_conns(2) [OF g v] v by (auto simp: shape_view_def dest: inj_onD)
      show "\<forall>k \<in> set ?cs. involvesNode k i \<and> plain_conn k
          \<and> shape_link ((S(i := None))(i \<mapsto> class_shape C (position n))) k"
        using view_conns(1) [OF g v] v S by (auto simp: shape_view_def)
    qed (use \<open>i \<noteq> []\<close> C(1) in auto)
    then have "edits odoo (createRemoveNodeAction odoo ?d (map conn_to_ui ?cs)) (shape_view (graph st)) (shape_view ?a)"
      using S K v shape_removeNode [OF inv v, of i] by simp
    note edit = this
    have "filter (\<lambda>c. uc_source c = i \<or> uc_target c = i) (ui_conns (observer (graph st))) = map conn_to_ui ?cs"
      using inv by (simp add: adapter_inv_def mirror_def getConnectionsForUI_def filter_map comp_def conn_to_ui_def
          involvesNode_def)
    with edit Some session_good_ops(1) [OF g, of i] show ?thesis
      by (auto simp: store_removeNode_def getNode_mirror [OF inv] clearExecution_def recorded_step_def)
  qed
qed

subsection \<open>Sequences of store operations\<close>

datatype store_op =
    SAddNode string position
  | SMoveNode string position
  | SMoveNodes "(string \<times> position) list"
  | SRemoveNode string
  | SConnect string string string string
  | SDisconnect string
  | SBegin
  | SEnd string
  | SUndo
  | SRedo
  | SSetConfig string jsobj
  | SSetControl string string jsval
  | SRename string string
  | SSetMeta string jsobj
  | SToggleDisable string
  | SPin string jsval
  | SUnpin string
  | SClearPins
  | SSelect "string list" "string list"
  | SZoomTo rat
  | SZoomBy rat
  | SPanBy rat rat
  | SProgress jsval
  | SResult jsobj
  | SSave "jsval + jsval"

fun store_step :: "(string \<times> node_class) list \<Rightarrow> store_op \<Rightarrow> store \<Rightarrow> store" where
  "store_step odoo (SAddNode type p) st = snd (store_addNode odoo type p st)"
| "store_step odoo (SMoveNode i p) st = store_moveNode i p st"
| "store_step odoo (SMoveNodes es) st = store_moveNodes es st"
| "store_step odoo (SRemoveNode i) st = snd (store_removeNode odoo i st)"
| "store_step odoo (SConnect s h t g) st = snd (store_addConnection s h t g st)"
| "store_step odoo (SDisconnect i) st = snd (store_removeConnection i st)"
| "store_step odoo SBegin st = beginBatch st"
| "store_step odoo (SEnd d) st = endBatch d st"
| "store_step odoo SUndo st = snd (store_undo st)"
| "store_step odoo SRedo st = snd (store_redo st)"
| "store_step odoo (SSetConfig i cfg) st = snd (store_setNodeConfig i cfg st)"
| "store_step odoo (SSetControl i k v) st = snd (store_setControlValue i k v st)"
| "store_step odoo (SRename i l) st = snd (renameNode i l st)"
| "store_step odoo (SSetMeta i m) st = snd (store_setNodeMeta i m st)"
| "store_step odoo (SToggleDisable i) st = toggleDisable i st"
| "store_step odoo (SPin i v) st = snd (pinNodeData i v st)"
| "store_step odoo (SUnpin i) st = unpinNodeData i st"
| "store_step odoo SClearPins st = clearAllPinData st"
| "store_step odoo (SSelect ns cs) st = store_select ns cs st"
| "store_step odoo (SZoomTo z) st = zoomTo z st"
| "store_step odoo (SZoomBy z) st = zoomBy z st"
| "store_step odoo (SPanBy x y) st = panBy x y st"
| "store_step odoo (SProgress payload) st = onExecutionProgress payload st"
| "store_step odoo (SResult flds) st = setExecutionResult flds st"
| "store_step odoo (SSave reply) st = snd (saveWorkflow reply st)"

text \<open>When an operation is permitted: undo, redo and a new batch outside an open batch; the keys of the
  updates of \<open>moveNodes\<close>, an object, are distinct; titles are not empty; a patch of the meta data has
  no array indices for keys.\<close>

definition store_ok :: "store_op \<Rightarrow> store \<Rightarrow> bool" where
  "store_ok op st \<longleftrightarrow>
     (case op of
        SBegin \<Rightarrow> currentBatch (hist st) = None
      | SUndo \<Rightarrow> currentBatch (hist st) = None
      | SRedo \<Rightarrow> currentBatch (hist st) = None
      | SMoveNodes es \<Rightarrow> distinct (map fst es)
      | SRename i l \<Rightarrow> l \<noteq> []
      | SSetMeta i m \<Rightarrow> plain_patch m
      | _ \<Rightarrow> True)"

text \<open>Operations that leave the history and the graph alone.\<close>

lemma frame_fields [simp]:
  "hist (bus_trigger e p st) = hist st" "graph (bus_trigger e p st) = graph st"
  "hist (pin_event i b st) = hist st" "graph (pin_event i b st) = graph st"
  by (simp_all add: bus_trigger_def pin_event_def)

lemma frame_ops:
  "hist (snd (pinNodeData i v st)) = hist st \<and> graph (snd (pinNodeData i v st)) = graph st"
  "hist (unpinNodeData i st) = hist st \<and> graph (unpinNodeData i st) = graph st"
  "hist (clearAllPinData st) = hist st \<and> graph (clearAllPinData st) = graph st"
  "hist (store_select ns cs st) = hist st \<and> graph (store_select ns cs st) = graph st"
  "hist (zoomTo z st) = hist st \<and> graph (zoomTo z st) = graph st"
  "hist (zoomBy z st) = hist st \<and> graph (zoomBy z st) = graph st"
  "hist (panBy x y st) = hist st \<and> graph (panBy x y st) = graph st"
  "hist (onExecutionProgress payload st) = hist st \<and> graph (onExecutionProgress payload st) = graph st"
  "hist (setExecutionResult flds st) = hist st \<and> graph (setExecutionResult flds st) = graph st"
  by (auto simp: pinNodeData_def unpinNodeData_def clearAllPinData_def store_select_def zoomTo_def zoomBy_def
      panBy_def onExecutionProgress_def setExecutionResult_def Let_def split: sum.splits)

text \<open>Operations that change a node in place keep the shape.\<close>

lemma shape_in_place:
  "shape_view (snd (adapter_setNodeConfig i cfg a)) = shape_view a"
  "shape_view (snd (adapter_setControlValue i k v a)) = shape_view a"
  "shape_view (snd (adapter_setNodeLabel i l a)) = shape_view a"
  "shape_view (snd (adapter_setNodeMeta i m a)) = shape_view a"
  by (auto simp: shape_view_def adapter_in_place_core jsm.get_put fun_eq_iff shape_of_def split: option.splits)

lemma in_place_line:
  assumes l: "on_line odoo st"
  shows "on_line odoo (snd (store_setNodeConfig i cfg st))"
    and "on_line odoo (snd (store_setControlValue i k v st))"
    and "x \<noteq> [] \<Longrightarrow> on_line odoo (snd (renameNode i x st))"
    and "plain_patch m \<Longrightarrow> on_line odoo (snd (store_setNodeMeta i m st))"
    and "on_line odoo (toggleDisable i st)"
proof -
  note step = sh.line_same_view [OF l] and ops = session_good_ops [OF sh.line_good [OF l]]
  show "on_line odoo (snd (store_setNodeConfig i cfg st))"
    using step [OF ops(5) shape_in_place(1)] by (simp add: store_setNodeConfig_def split_beta)
  show "on_line odoo (snd (store_setControlValue i k v st))"
    using step [OF ops(6) shape_in_place(2)] by (simp add: store_setControlValue_def split_beta)
  show "on_line odoo (snd (renameNode i x st))" if "x \<noteq> []"
    using step [OF ops(7) [OF that] shape_in_place(3)] by (simp add: renameNode_def split_beta)
  show "on_line odoo (snd (store_setNodeMeta i m st))" if "plain_patch m"
    using step [OF ops(8) [OF that] shape_in_place(4)] by (simp add: store_setNodeMeta_def split_beta)
  have "plain_patch [(''disabled'', JBool b)]" for b by (simp add: plain_patch_def)
  from step [OF ops(8) [OF this] shape_in_place(4)] show "on_line odoo (toggleDisable i st)"
    by (simp add: toggleDisable_def Let_def)
qed

lemma store_undo_line:
  assumes "on_line odoo st" and "currentBatch (hist st) = None"
  shows "on_line odoo (snd (store_undo st))" and "on_line odoo (snd (store_redo st))"
    and "\<exists>b. fst (store_undo st) = Inr b" and "\<exists>b. fst (store_redo st) = Inr b"
  using sh.line_undo [OF assms] sh.line_redo [OF assms]
  by (auto simp: store_undo_def store_redo_def split: prod.splits)

lemma saveWorkflow_line: "on_line odoo st \<Longrightarrow> on_line odoo (snd (saveWorkflow reply st))"
proof -
  assume l: "on_line odoo st"
  then have "sh.line odoo (hist_clear (hist st)) (graph st)"
    by (cases "currentBatch (hist st)") (auto simp: sh.line_def hist_clear_def)
  with l show ?thesis by (simp add: saveWorkflow_def split: sum.splits)
qed

lemma store_addConnection_step:
  "session_good odoo (graph st) \<Longrightarrow> recorded_step odoo st (snd (store_addConnection s h t g st))"
  using connect_and_record_step [of odoo st s h t g]
  by (auto simp: store_addConnection_def clearExecution_def recorded_step_def split: prod.splits option.splits)

lemmas single_steps = store_moveNode_step store_moveNodes_step store_removeNode_step store_addConnection_step
  store_removeConnection_step

text \<open>The edits that record at most one action.\<close>

definition single_edit :: "store_op \<Rightarrow> bool" where
  "single_edit op \<longleftrightarrow>
     (case op of SMoveNode _ _ \<Rightarrow> True | SMoveNodes _ \<Rightarrow> True | SRemoveNode _ \<Rightarrow> True | SConnect _ _ _ _ \<Rightarrow> True
      | SDisconnect _ \<Rightarrow> True | SAddNode type _ \<Rightarrow> type \<noteq> ''loop'' | _ \<Rightarrow> False)"

lemma store_addNode_step:
  assumes "session_good odoo (graph st)" and "type \<noteq> ''loop''"
  shows "recorded_step odoo st (snd (store_addNode odoo type p st))"
  using add_and_record_step [OF assms(1), of type p] assms(2)
  by (auto simp: store_addNode_def clearExecution_def recorded_step_def Let_def split: prod.splits option.splits)

lemma single_edit_step:
  assumes "session_good odoo (graph st)" and "single_edit op" and "store_ok op st"
  shows "recorded_step odoo st (store_step odoo op st)"
  using assms
  by (cases op) (simp_all add: single_edit_def store_ok_def single_steps store_addNode_step)

interpretation sto: op_system "store_step odoo" store_ok "on_line odoo" for odoo
proof unfold_locales
  fix st op assume l: "on_line odoo st" and ok: "store_ok op st"
  show "on_line odoo (store_step odoo op st)"
  proof (cases "single_edit op")
    case True
    then show ?thesis by (intro recorded_step_line [OF l] single_edit_step sh.line_good [OF l] ok)
  next
    case False
    with l ok sh.line_begin sh.line_commit show ?thesis
      by (cases op)
         (simp_all add: single_edit_def store_ok_def store_addNode_line in_place_line frame_ops store_undo_line
           saveWorkflow_line beginBatch_def endBatch_def)
  qed
qed

lemma start_store_line:
  assumes "registry_sound odoo" shows "on_line odoo (start_store odoo)"
proof -
  have "session_good odoo (new_WorkflowAdapter odoo)"
    using assms session_inv_new [of odoo]
    by (simp add: session_good_def new_WorkflowAdapter_def new_WorkflowEditor_def editor_on_def)
  then show ?thesis
    by (auto simp: start_store_def sh.line_def hist_onChange_def new_HistoryManager_def)
qed

subsection \<open>A batch of edits\<close>

definition in_batch :: "(string \<times> node_class) list \<Rightarrow> sview \<Rightarrow> store \<Rightarrow> bool" where
  "in_batch odoo v0 st \<longleftrightarrow> session_good odoo (graph st) \<and> recording (hist st) \<and> 0 < maxSize (hist st)
     \<and> (\<exists>b. currentBatch (hist st) = Some b \<and> chain (edits odoo) b v0 (shape_view (graph st)))"

lemma in_batch_step:
  assumes "in_batch odoo v0 st" and "recorded_step odoo st st'"
  shows "in_batch odoo v0 st'"
  using assms by (auto simp: in_batch_def recorded_step_def hist_push_def chain_append simp del: split_paired_Ex)

interpretation bat: op_system "store_step odoo" "\<lambda>op st. single_edit op \<and> store_ok op st" "in_batch odoo v0" for odoo v0
proof unfold_locales
  fix st op assume b: "in_batch odoo v0 st" and ok: "single_edit op \<and> store_ok op st"
  then have "recorded_step odoo st (store_step odoo op st)"
    by (intro single_edit_step) (simp_all add: in_batch_def)
  with b show "in_batch odoo v0 (store_step odoo op st)" by (rule in_batch_step)
qed

lemma begin_in_batch:
  "on_line odoo st \<Longrightarrow> in_batch odoo (shape_view (graph st)) (beginBatch st)"
  by (auto simp: in_batch_def beginBatch_def startBatch_def sh.line_def)

lemma batch_undo_shape:
  assumes "in_batch odoo v0 st" and "currentBatch (hist st) \<noteq> Some []"
  shows "fst (store_undo (endBatch d st)) = Inr True
    \<and> shape_view (graph (snd (store_undo (endBatch d st)))) = v0"
proof -
  from assms obtain b where b: "currentBatch (hist st) = Some b" "b \<noteq> []" "chain (edits odoo) b v0 (shape_view (graph st))"
    and g: "session_good odoo (graph st)" "recording (hist st)" "0 < maxSize (hist st)" by (auto simp: in_batch_def)
  let ?h = "commitBatch d (hist st)"
  have "undoStack ?h \<noteq> []" "last (undoStack ?h) = batch_action d b"
    using b g by (cases "undoStack (hist st)"; simp add: commitBatch_def hist_push_def Let_def)+
  moreover have "\<exists>a. act_undo (batch_action d b) (graph st) = (a, None) \<and> shape_view a = v0"
    using sh.one.batch_undo [OF b(3) g(1) refl] by blast
  ultimately show ?thesis by (auto simp: store_undo_def endBatch_def hist_undo_def Let_def)
qed

end
