(* ===== verification/Store_Views.thy ===== *)
theory Store_Views
  imports Store_Inv
begin

section \<open>Previews, pins and loading in the store\<close>

text \<open>
  The parts of the store around the edited graph: the preview of a revision and the view of an execution
  as a state machine over the store, the data pinned to nodes, and what loading a workflow resets.
\<close>

subsection \<open>Loading a snapshot keeps the wiring\<close>

lemma load_nodes_registry: "nodeRegistry (snd (load_nodes ds b c)) = nodeRegistry c"
  by (induction ds b c rule: load_nodes.induct) (auto split: sum.splits option.splits)

lemma fromJSON_frame:
  assumes "wired a"
  shows "wired (snd (adapter_fromJSON s a)) \<and> nodeRegistry (core (snd (adapter_fromJSON s a))) = nodeRegistry (core a)"
proof -
  let ?c = "core (editor_clear a)"
  have "nodeRegistry (snd (load_nodes (sn_nodes s) 0 ?c)) = nodeRegistry (core a)" by (simp add: load_nodes_registry)
  moreover have "wired (editor_clear a)" using assms by (simp add: editor_clear_def)
  ultimately show ?thesis
    by (auto simp: adapter_fromJSON_def editor_fromJSON_def Let_def split: prod.splits sum.splits)
qed

subsection \<open>The two previews as a state machine\<close>

datatype view_op =
    VStartHistory jsval "snapshot option"
  | VEndHistory
  | VStartExecution jsval "snapshot option" jsval
  | VEndExecution bool
  | VCopyExecution
  | VDebug jsval

fun view_step :: "view_op \<Rightarrow> store \<Rightarrow> store" where
  "view_step (VStartHistory r s) st = snd (startHistoryPreview r s st)"
| "view_step VEndHistory st = snd (endHistoryPreview True st)"
| "view_step (VStartExecution r s d) st = snd (startExecutionView r s d st)"
| "view_step (VEndExecution c) st = snd (endExecutionView True c st)"
| "view_step VCopyExecution st = snd (copyExecutionToEditor st)"
| "view_step (VDebug d) st = snd (debugExecution d st)"

text \<open>
  The invariant, relative to the graph \<open>a0\<close> that was being edited: at most one preview is active, the
  active one holds the snapshot of \<open>a0\<close> and the editor is read-only; when none is, the graph is \<open>a0\<close>.
  The flags of the interface say which preview is active.
\<close>

definition edited_graph :: "(string \<times> node_class) list \<Rightarrow> adapter \<Rightarrow> store \<Rightarrow> bool" where
  "edited_graph odoo a0 st \<longleftrightarrow> session_inv odoo (graph st) \<and> nodes (core (graph st)) = nodes (core a0)
     \<and> connections (core (graph st)) = connections (core a0)"

definition preview_inv :: "(string \<times> node_class) list \<Rightarrow> adapter \<Rightarrow> store \<Rightarrow> bool" where
  "preview_inv odoo a0 st \<longleftrightarrow>
     session_inv odoo a0 \<and> wired (graph st) \<and> nodeRegistry (core (graph st)) = buildNodeRegistryFromOdoo odoo
     \<and> \<not> (ov_active (historyPreview st) \<and> ov_active (executionView st))
     \<and> (ov_active (historyPreview st) \<longrightarrow>
          ov_originalSnapshot (historyPreview st) = Some (adapter_toJSON a0) \<and> readonly (ui st))
     \<and> (ov_active (executionView st) \<longrightarrow>
          ov_originalSnapshot (executionView st) = Some (adapter_toJSON a0) \<and> readonly (ui st))
     \<and> (\<not> ov_active (historyPreview st) \<and> \<not> ov_active (executionView st) \<longrightarrow> edited_graph odoo a0 st)
     \<and> fl_active (ui_historyPreview (ui st)) = ov_active (historyPreview st)
     \<and> fl_active (ui_executionView (ui st)) = ov_active (executionView st)"

lemma load_graph_frame:
  assumes "load_graph s st = (r, st')"
  shows "st' = st\<lparr>graph := snd (adapter_fromJSON s (graph st))\<rparr>"
  using assms by (auto simp: load_graph_def split: prod.splits sum.splits)

lemma load_original:
  assumes "session_inv odoo a0" and "wired (graph st)" and "nodeRegistry (core (graph st)) = buildNodeRegistryFromOdoo odoo"
  shows "\<exists>a. load_graph (adapter_toJSON a0) st = (None, st\<lparr>graph := a\<rparr>) \<and> wired a
    \<and> session_inv odoo a \<and> nodes (core a) = nodes (core a0) \<and> connections (core a) = connections (core a0)"
proof -
  obtain r a where a: "adapter_fromJSON (adapter_toJSON a0) (graph st) = (r, a)" by fastforce
  have "wired a" using fromJSON_frame [OF assms(2), of "adapter_toJSON a0"] a by simp
  with session_reload [OF assms] a show ?thesis by (auto simp: load_graph_def)
qed

lemma session_wired: "session_inv odoo a \<Longrightarrow> wired a \<and> nodeRegistry (core a) = buildNodeRegistryFromOdoo odoo"
  by (simp add: session_inv_def adapter_inv_def restorable_core_def)

text \<open>Ending a preview: the edited graph is back, and no preview is active.\<close>

definition closed_inv :: "(string \<times> node_class) list \<Rightarrow> adapter \<Rightarrow> store \<Rightarrow> bool" where
  "closed_inv odoo a0 st \<longleftrightarrow> preview_inv odoo a0 st \<and> \<not> ov_active (historyPreview st) \<and> \<not> ov_active (executionView st)"

lemma endHistory_closed:
  assumes "preview_inv odoo a0 st" and "\<not> ov_active (executionView st)"
  shows "\<exists>st'. endHistoryPreview True st = (None, st') \<and> closed_inv odoo a0 st'"
proof (cases "ov_active (historyPreview st)")
  case True
  with assms load_original [of odoo a0 st] show ?thesis
    by (fastforce simp: endHistoryPreview_def restore_original_def then_do_def preview_inv_def closed_inv_def
        edited_graph_def closed_overlay_def session_wired)
next
  case False
  with assms show ?thesis
    by (auto simp: endHistoryPreview_def restore_original_def then_do_def preview_inv_def closed_inv_def
        edited_graph_def closed_overlay_def split: option.splits)
qed

lemma endExecution_closed:
  assumes "preview_inv odoo a0 st" and "\<not> ov_active (historyPreview st)"
  shows "\<exists>st'. endExecutionView True c st = (None, st') \<and> closed_inv odoo a0 st'"
proof (cases "ov_active (executionView st)")
  case True
  with assms load_original [of odoo a0 st] show ?thesis
    by (fastforce simp: endExecutionView_def restore_original_def then_do_def preview_inv_def closed_inv_def
        edited_graph_def closed_overlay_def session_wired clearExecution_def)
next
  case False
  with assms show ?thesis
    by (auto simp: endExecutionView_def restore_original_def then_do_def preview_inv_def closed_inv_def
        edited_graph_def closed_overlay_def clearExecution_def split: option.splits)
qed

text \<open>While a preview is active any snapshot may be loaded, also one that fails.\<close>

lemma load_graph_state: "snd (load_graph s st) = st\<lparr>graph := snd (adapter_fromJSON s (graph st))\<rparr>"
  by (simp add: load_graph_def split: prod.splits sum.splits)

lemma preview_inv_load:
  assumes "preview_inv odoo a0 st" and "ov_active (historyPreview st) \<or> ov_active (executionView st)"
  shows "preview_inv odoo a0 (snd (load_graph s st))"
  using assms fromJSON_frame [of "graph st" s] by (auto simp: preview_inv_def load_graph_state)

definition hist_overlay :: "jsval \<Rightarrow> store \<Rightarrow> store" where
  "hist_overlay rid st =
     on_ui (\<lambda>u. enter_preview (u\<lparr>ui_historyPreview := \<lparr>fl_active = True, fl_id = rid\<rparr>\<rparr>))
       (st\<lparr>historyPreview := \<lparr>ov_active = True, ov_id = rid, ov_originalSnapshot =
             (if ov_active (historyPreview st) then ov_originalSnapshot (historyPreview st)
              else Some (adapter_toJSON (graph st)))\<rparr>\<rparr>)"

definition exec_overlay :: "jsval \<Rightarrow> store \<Rightarrow> store" where
  "exec_overlay rid st =
     on_ui (\<lambda>u. enter_preview (u\<lparr>ui_executionView := \<lparr>fl_active = True, fl_id = rid\<rparr>,
                                  panels := (panels u)\<lparr>executionLogOpen := True\<rparr>\<rparr>))
       (st\<lparr>executionView := \<lparr>ov_active = True, ov_id = rid, ov_originalSnapshot =
             (if ov_active (executionView st) then ov_originalSnapshot (executionView st)
              else Some (adapter_toJSON (graph st)))\<rparr>\<rparr>)"

lemma edited_snapshot: "edited_graph odoo a0 st \<Longrightarrow> adapter_toJSON (graph st) = adapter_toJSON a0"
  by (simp add: edited_graph_def adapter_toJSON_def editor_toJSON_def core_toJSON_def)

lemma overlay_inv:
  assumes "preview_inv odoo a0 st"
  shows "\<not> ov_active (executionView st) \<Longrightarrow> preview_inv odoo a0 (hist_overlay rid st)"
    and "\<not> ov_active (historyPreview st) \<Longrightarrow> preview_inv odoo a0 (exec_overlay rid st)"
proof -
  show "preview_inv odoo a0 (hist_overlay rid st)" if "\<not> ov_active (executionView st)"
    using assms that edited_snapshot [of odoo a0 st]
    by (cases "ov_active (historyPreview st)") (simp_all add: preview_inv_def hist_overlay_def enter_preview_def)
  show "preview_inv odoo a0 (exec_overlay rid st)" if "\<not> ov_active (historyPreview st)"
    using assms that edited_snapshot [of odoo a0 st]
    by (cases "ov_active (executionView st)") (simp_all add: preview_inv_def exec_overlay_def enter_preview_def)
qed

lemma startHistory_eq:
  "startHistoryPreview rid (Some s) st =
     then_do (if ov_active (executionView st) then endExecutionView True True st else (None, st))
       (\<lambda>st. load_graph s (hist_overlay (js_or rid JNull) st))"
  by (simp add: startHistoryPreview_def hist_overlay_def Let_def)

lemma startExecution_eq:
  "startExecutionView rid (Some s) d st =
     then_do (then_do (if ov_active (historyPreview st) then endHistoryPreview True st else (None, st))
       (\<lambda>st. load_graph s (exec_overlay (js_or rid JNull) st)))
       (\<lambda>st. (None, if truthy d then replaceExecutionResult d st else st))"
  by (simp add: startExecutionView_def exec_overlay_def Let_def)

lemma startHistory_inv:
  assumes "preview_inv odoo a0 st" shows "preview_inv odoo a0 (snd (startHistoryPreview rid s st))"
proof (cases s)
  case None
  with assms show ?thesis by (simp add: startHistoryPreview_def)
next
  case (Some sn)
  have active: "ov_active (historyPreview (hist_overlay r st'))" for r st' by (simp add: hist_overlay_def)
  show ?thesis
  proof (cases "ov_active (executionView st)")
    case True
    then have "\<not> ov_active (historyPreview st)" using assms by (auto simp: preview_inv_def)
    with endExecution_closed [OF assms, of True] obtain st' where e: "endExecutionView True True st = (None, st')"
      "closed_inv odoo a0 st'" by blast
    then show ?thesis using overlay_inv(1) [of odoo a0 st'] active
      by (simp add: Some startHistory_eq True then_do_def closed_inv_def preview_inv_load)
  next
    case False
    then show ?thesis using overlay_inv(1) [OF assms False] active
      by (simp add: Some startHistory_eq then_do_def preview_inv_load)
  qed
qed

lemma results_frame:
  "preview_inv odoo a0 (setExecutionResult flds st) = preview_inv odoo a0 st"
  "preview_inv odoo a0 (replaceExecutionResult v st) = preview_inv odoo a0 st"
  by (simp_all add: preview_inv_def edited_graph_def setExecutionResult_def replaceExecutionResult_def Let_def)

lemma startExecution_inv:
  assumes "preview_inv odoo a0 st" shows "preview_inv odoo a0 (snd (startExecutionView rid s d st))"
proof (cases s)
  case None
  with assms show ?thesis by (simp add: startExecutionView_def)
next
  case (Some sn)
  have active: "ov_active (executionView (exec_overlay r st'))" for r st' by (simp add: exec_overlay_def)
  have fin: "preview_inv odoo a0 (snd (then_do (load_graph sn (exec_overlay r st'))
      (\<lambda>st. (None, if truthy d then replaceExecutionResult d st else st))))"
    if "preview_inv odoo a0 st'" "\<not> ov_active (historyPreview st')" for r st'
    using preview_inv_load [OF overlay_inv(2) [OF that], of r sn] active
    by (cases "load_graph sn (exec_overlay r st')") (auto simp: then_do_def results_frame split: option.splits)
  show ?thesis
  proof (cases "ov_active (historyPreview st)")
    case True
    then have "\<not> ov_active (executionView st)" using assms by (auto simp: preview_inv_def)
    with endHistory_closed [OF assms] obtain st' where "endHistoryPreview True st = (None, st')"
      "closed_inv odoo a0 st'" by blast
    with fin [of st'] show ?thesis by (simp add: Some startExecution_eq True closed_inv_def then_do_def)
  next
    case False
    with fin [OF assms False] show ?thesis by (simp add: Some startExecution_eq then_do_def)
  qed
qed

text \<open>Each end call is made for the preview that is shown, as the application does.\<close>

definition view_ok :: "view_op \<Rightarrow> store \<Rightarrow> bool" where
  "view_ok op st \<longleftrightarrow>
     (case op of VEndHistory \<Rightarrow> \<not> ov_active (executionView st) | VEndExecution c \<Rightarrow> \<not> ov_active (historyPreview st) | _ \<Rightarrow> True)"

lemma debug_inv: "preview_inv odoo a0 st \<Longrightarrow> preview_inv odoo a0 (snd (debugExecution d st))"
proof -
  assume i: "preview_inv odoo a0 st"
  show ?thesis
  proof (cases "ov_active (executionView st)")
    case True
    with i have "\<not> ov_active (historyPreview st)" by (auto simp: preview_inv_def)
    with endExecution_closed [OF i, of True] obtain st' where "endExecutionView True True st = (None, st')"
      "closed_inv odoo a0 st'" by blast
    with i True show ?thesis by (simp add: debugExecution_def then_do_def results_frame closed_inv_def)
  qed (use i in \<open>simp add: debugExecution_def then_do_def results_frame\<close>)
qed

interpretation prv: op_system view_step view_ok "preview_inv odoo a0" for odoo a0
proof unfold_locales
  fix st op assume i: "preview_inv odoo a0 st" and ok: "view_ok op st"
  note ends = endHistory_closed [OF i] endExecution_closed [OF i]
  show "preview_inv odoo a0 (view_step op st)"
  proof (cases op)
    case VCopyExecution
    have "ov_active (executionView st) \<Longrightarrow> \<not> ov_active (historyPreview st)" using i by (auto simp: preview_inv_def)
    with ends(2) [of False] i VCopyExecution show ?thesis
      by (auto simp: copyExecutionToEditor_def closed_inv_def)
  next
    case (VEndExecution c)
    with ok ends(2) [of c] show ?thesis by (auto simp: view_ok_def closed_inv_def)
  qed (use i ok ends in \<open>auto simp: view_ok_def closed_inv_def startHistory_inv startExecution_inv debug_inv\<close>)
qed

lemma preview_inv_start:
  assumes "session_inv odoo (graph st)" and "\<not> ov_active (historyPreview st)" "\<not> ov_active (executionView st)"
    and "\<not> fl_active (ui_historyPreview (ui st))" "\<not> fl_active (ui_executionView (ui st))"
  shows "preview_inv odoo (graph st) st"
  using assms session_wired [OF assms(1)] by (simp add: preview_inv_def edited_graph_def)

subsection \<open>Pinned data in the snapshot\<close>

lemma map_of_obj_del: "map_of (obj_del k m) j = (if j = k then None else map_of m j)"
  by (simp add: jso.get_remove)

lemma map_of_foldl_del:
  "map_of (foldl (\<lambda>m k. obj_del k m) m ks) j = (if j \<in> set ks then None else map_of m j)"
  by (induction ks arbitrary: m) (auto simp: map_of_obj_del)

lemma clear_all_keys: "foldl (\<lambda>m k. obj_del k m) m (map_keys m) = []"
proof -
  have "map_of (foldl (\<lambda>m k. obj_del k m) m (map_keys m)) j = None" for j
    by (auto simp: map_of_foldl_del map_of_eq_None_iff)
  then have "set (map_keys (foldl (\<lambda>m k. obj_del k m) m (map_keys m))) = {}"
    by (metis empty_iff map_of_eq_None_iff set_map subsetI subset_antisym)
  then show ?thesis by simp
qed

definition sent_metadata :: "store \<Rightarrow> jsval" where
  "sent_metadata st = js_prop (buildFullSnapshot st) ''metadata''"

lemma sent_metadata_eq:
  "sent_metadata st =
     JObj (if pinData st \<noteq> [] then obj_set ''pin_data'' (JObj (pinData st)) (obj_del ''pinData'' (workflowMetadata st))
           else obj_del ''pin_data'' (obj_del ''pinData'' (workflowMetadata st)))"
proof -
  have ne: "isPlainObject (JObj ps)" for ps by (simp add: isPlainObject_def)
  have o: "js_prop (JObj (obj_set ''metadata'' m ps)) k = (if k = ''metadata'' then m else js_prop (JObj ps) k)" for m ps k
    by (simp add: jso.get_put)
  show ?thesis
    unfolding sent_metadata_def buildFullSnapshot_def Let_def sanitizeConnectorRequestSnapshot_def ne o
    by (simp add: jso.get_put snapshot_props_def)
qed

lemma loadWorkflow_pins:
  assumes "loadWorkflow i data st' = (None, st'')"
  shows "pinData st'' =
    (let raw = (if truthy (wd_metadata data) \<and> typeof_object (wd_metadata data) then wd_metadata data else JObj []);
         saved = js_or (js_prop raw ''pin_data'') (js_prop raw ''pinData'')
     in if truthy saved \<and> typeof_object saved then obj_assign [] (own_props saved) else [])"
  using assms by (auto simp: loadWorkflow_def then_do_def Let_def clear_all_keys split: prod.splits option.splits)

subsection \<open>Properties\<close>





text \<open>C14: Loading a workflow keeps the undo history and the private state of an open execution view, although the
  interface shows no view any more: a later end of the view replaces the loaded graph by the snapshot
  of the workflow that was open before.\<close>

theorem load_keeps_stale_state:
  assumes "loadWorkflow i data st = (None, st1)"
  shows "hist st1 = hist st \<and> executionView st1 = executionView st \<and> \<not> fl_active (ui_executionView (ui st1))
    \<and> (\<forall>s. ov_active (executionView st) \<and> ov_originalSnapshot (executionView st) = Some s \<longrightarrow>
         graph (snd (endExecutionView True c st1)) = snd (adapter_fromJSON s (graph st1)))"
proof -
  from assms have f: "hist st1 = hist st" "executionView st1 = executionView st" "\<not> fl_active (ui_executionView (ui st1))"
    by (auto simp: loadWorkflow_def then_do_def Let_def clearExecution_def dest!: load_graph_frame
        split: prod.splits option.splits)
  moreover have "graph (snd (endExecutionView True c st1)) = snd (adapter_fromJSON s (graph st1))"
    if "ov_active (executionView st)" "ov_originalSnapshot (executionView st) = Some s" for s
    using that f
    by (cases "load_graph s st1")
       (auto simp: endExecutionView_def restore_original_def then_do_def clearExecution_def dest!: load_graph_frame
         split: option.splits)
  ultimately show ?thesis by blast
qed

theorem load_keeps_stale_state_witness:
  "\<exists>st1. loadWorkflow (JNum 1)
       \<lparr>wd_draft = \<lparr>sn_version = ''1.0'', sn_nodes = [], sn_connections = []\<rparr>, wd_metadata = JNull,
        wd_version_hash = JStr ''h'', wd_auto_save = JBool True\<rparr>
       ((start_store [])\<lparr>hist := hist_push (createMoveNodeAction ''n_1'' (0, 0) (1, 1)) (hist (start_store []))\<rparr>)
       = (None, st1) \<and> undoStack (hist st1) \<noteq> []"
proof -
  let ?st = "(start_store [])\<lparr>hist := hist_push (createMoveNodeAction ''n_1'' (0, 0) (1, 1)) (hist (start_store []))\<rparr>"
  let ?d = "\<lparr>wd_draft = \<lparr>sn_version = ''1.0'', sn_nodes = [], sn_connections = []\<rparr>, wd_metadata = JNull,
        wd_version_hash = JStr ''h'', wd_auto_save = JBool True\<rparr>"
  obtain st1 where l: "loadWorkflow (JNum 1) ?d ?st = (None, st1)"
    by (simp add: loadWorkflow_def load_graph_def adapter_fromJSON_def editor_fromJSON_def then_do_def Let_def)
  have "undoStack (hist ?st) \<noteq> []"
    by (simp add: start_store_def hist_push_def hist_onChange_def new_HistoryManager_def Let_def)
  with load_keeps_stale_state [OF l] l show ?thesis by auto
qed

end
