(* ===== verification/Dfs.thy ===== *)
theory Dfs
  imports Js_Prelude
begin

section \<open>Depth-first search for back edges\<close>

text \<open>
  The search that utils/graph_utils.js writes three times (\<open>getBackEdgeKeySet\<close>, \<open>detectCycles\<close>,
  \<open>_detectCyclesInGraph\<close>): \<open>visit\<close> marks a node visited and on the stack, walks its edges, and takes
  it off the stack. An edge is a triple of source, target and key. The function below is the body of
  the loop over the edges of the node on top of the stack, with the recursive call in place.
\<close>

type_synonym ('n, 'k) edge = "'n \<times> 'n \<times> 'k"

definition out_edges :: "('n, 'k) edge list \<Rightarrow> 'n \<Rightarrow> ('n \<times> 'k) list" where
  "out_edges es n = map snd (filter (\<lambda>e. fst e = n) es)"

definition pool :: "('n, 'k) edge list \<Rightarrow> ('n \<times> 'k) list \<Rightarrow> 'n list \<Rightarrow> 'n set" where
  "pool G es V = (fst ` snd ` set G \<union> fst ` set es) - set V"

lemma pool_out: "t \<notin> set V \<Longrightarrow> pool G (out_edges G t) (t # V) \<subset> pool G ((t, k) # es) V"
  by (fastforce simp: pool_def out_edges_def)

lemma finite_pool: "finite (pool G es V)"
  by (simp add: pool_def)

function dfs_edges ::
    "('n, 'k) edge list \<Rightarrow> 'n list \<Rightarrow> ('n \<times> 'k) list \<Rightarrow> 'n list \<Rightarrow> 'k list \<Rightarrow> 'n list \<times> 'k list" where
  "dfs_edges G stack [] V B = (V, B)"
| "dfs_edges G stack ((t, k) # es) V B =
     (if t \<in> set stack then dfs_edges G stack es V (B @ [k])
      else if t \<in> set V then dfs_edges G stack es V B
      else (case dfs_edges G (t # stack) (out_edges G t) (t # V) B of
              (V', B') \<Rightarrow> dfs_edges G stack es V' B'))"
  by pat_completeness auto

termination
proof (relation "inv_image (finite_psubset <*lex*> less_than) (\<lambda>(G, stack, es, V, B). (pool G es V, length es))")
  show "wf (inv_image (finite_psubset <*lex*> less_than) (\<lambda>(G, stack, es, V, B). (pool G es V, length es)))"
    by (intro wf_inv_image wf_lex_prod wf_finite_psubset wf_less_than)
next
  fix G :: "('n, 'k) edge list" and stack :: "'n list" and t k es and V :: "'n list" and B :: "'k list"
  have visited: "set V \<subseteq> set (fst (dfs_edges G stack es V B))" if "dfs_edges_dom (G, stack, es, V, B)"
    for G :: "('n, 'k) edge list" and stack es V B
    using that
  proof (induction G stack es V B rule: dfs_edges.pinduct)
    case (2 G stack t k es V B)
    obtain V' B' where r: "dfs_edges G (t # stack) (out_edges G t) (t # V) B = (V', B')" by fastforce
    show ?case
    proof (cases "t \<in> set stack \<or> t \<in> set V")
      case True
      with 2 show ?thesis by (auto simp: dfs_edges.psimps)
    next
      case False
      then have "set (t # V) \<subseteq> set V'" using "2.IH"(3) r by simp
      moreover have "set V' \<subseteq> set (fst (dfs_edges G stack es V' B'))" using "2.IH"(4) False r by simp
      ultimately show ?thesis using False r 2(1) by (auto simp: dfs_edges.psimps)
    qed
  qed (simp add: dfs_edges.psimps)
  have sub: "pool G es V = pool G ((t, k) # es) V \<or> pool G es V \<subset> pool G ((t, k) # es) V"
    by (auto simp: pool_def)
  show "((G, stack, es, V, B @ [k]), G, stack, (t, k) # es, V, B)
      \<in> inv_image (finite_psubset <*lex*> less_than) (\<lambda>(G, stack, es, V, B). (pool G es V, length es))"
    using sub finite_pool by auto
  show "((G, stack, es, V, B), G, stack, (t, k) # es, V, B)
      \<in> inv_image (finite_psubset <*lex*> less_than) (\<lambda>(G, stack, es, V, B). (pool G es V, length es))"
    using sub finite_pool by auto
  show "((G, t # stack, out_edges G t, t # V, B), G, stack, (t, k) # es, V, B)
      \<in> inv_image (finite_psubset <*lex*> less_than) (\<lambda>(G, stack, es, V, B). (pool G es V, length es))"
    if "t \<notin> set V"
    using pool_out [OF that, of G k es] finite_pool [of G "(t, k) # es" V] by simp
  show "((G, stack, es, V', B'), G, stack, (t, k) # es, V, B)
      \<in> inv_image (finite_psubset <*lex*> less_than) (\<lambda>(G, stack, es, V, B). (pool G es V, length es))"
    if "t \<notin> set V" "dfs_edges_dom (G, t # stack, out_edges G t, t # V, B)"
      "(V', B') = dfs_edges G (t # stack) (out_edges G t) (t # V) B" for V' B'
  proof -
    have "insert t (set V) \<subseteq> set V'" using visited [OF that(2)] that(3) by (metis fst_conv list.simps(15))
    then have "pool G es V' \<subset> pool G ((t, k) # es) V" using that(1) by (auto simp: pool_def)
    then show ?thesis using finite_pool [of G "(t, k) # es" V] by simp
  qed
qed

text \<open>\<open>visit\<close> of a node that is not visited, and the loop over a list of nodes.\<close>

definition dfs_visit :: "('n, 'k) edge list \<Rightarrow> 'n \<Rightarrow> 'n list \<times> 'k list \<Rightarrow> 'n list \<times> 'k list" where
  "dfs_visit G n = (\<lambda>(V, B). if n \<in> set V then (V, B) else dfs_edges G [n] (out_edges G n) (n # V) B)"

definition dfs_roots :: "('n, 'k) edge list \<Rightarrow> 'n list \<Rightarrow> 'n list \<times> 'k list \<Rightarrow> 'n list \<times> 'k list" where
  "dfs_roots G ns s = foldl (\<lambda>s n. dfs_visit G n s) s ns"

lemma dfs_roots_twice: "dfs_roots G ns (dfs_roots G ms s) = dfs_roots G (ms @ ns) s"
  by (simp add: dfs_roots_def)

subsection \<open>Without the back edges the graph is acyclic\<close>

text \<open>
  The invariant speaks of the list \<open>F\<close> of finished nodes, in the order they were taken off the stack:
  the target of an edge of a finished node that is not a back edge was finished before.
\<close>

definition before :: "'n list \<Rightarrow> 'n \<Rightarrow> 'n \<Rightarrow> bool" where
  "before F w u \<longleftrightarrow> (\<exists>xs ys. F = xs @ u # ys \<and> w \<in> set xs)"

lemma before_append: "before F w u \<Longrightarrow> before (F @ F') w u"
  unfolding before_def by (metis append_Cons append_assoc)

definition dfs_inv :: "('n, 'k) edge list \<Rightarrow> 'n list \<Rightarrow> 'n list \<Rightarrow> 'k list \<Rightarrow> 'n list \<Rightarrow> bool" where
  "dfs_inv G stack V B F \<longleftrightarrow> distinct F \<and> set F = set V - set stack \<and> set stack \<subseteq> set V
     \<and> (\<forall>u w k. (u, w, k) \<in> set G \<longrightarrow> u \<in> set F \<longrightarrow> k \<in> set B \<or> before F w u)"

lemma dfs_inv_push: "dfs_inv G stack V B F \<Longrightarrow> t \<notin> set V \<Longrightarrow> dfs_inv G (t # stack) (t # V) B F"
  by (auto simp: dfs_inv_def)

lemma dfs_inv_pop:
  assumes "dfs_inv G (t # stack) V B F" and "t \<notin> set stack"
    and "\<forall>(w, k) \<in> set (out_edges G t). k \<in> set B \<or> w \<in> set F"
  shows "dfs_inv G stack V B (F @ [t])"
proof -
  have "k \<in> set B \<or> before (F @ [t]) w u" if "(u, w, k) \<in> set G" "u \<in> set (F @ [t])" for u w k
  proof (cases "u = t")
    case True
    then have "(w, k) \<in> set (out_edges G t)" using that(1) by (force simp: out_edges_def)
    with assms(3) True show ?thesis by (auto simp: before_def)
  next
    case False
    then have "u \<in> set F" using that(2) by simp
    then have "k \<in> set B \<or> before F w u" using that(1) assms(1) unfolding dfs_inv_def by blast
    then show ?thesis using before_append [of F w u "[t]"] by auto
  qed
  moreover have "distinct (F @ [t])" "set (F @ [t]) = set V - set stack" "set stack \<subseteq> set V"
    using assms(1,2) by (auto simp: dfs_inv_def)
  ultimately show ?thesis unfolding dfs_inv_def by blast
qed

lemma dfs_inv_more: "dfs_inv G stack V B F \<Longrightarrow> set B \<subseteq> set B' \<Longrightarrow> dfs_inv G stack V B' F"
  unfolding dfs_inv_def by blast

lemma dfs_edges_inv:
  "dfs_inv G stack V B F \<Longrightarrow> dfs_edges G stack es V B = (V', B') \<Longrightarrow>
   \<exists>F'. dfs_inv G stack V' B' (F @ F') \<and> set B \<subseteq> set B' \<and> set V \<subseteq> set V'
     \<and> (\<forall>(t, k) \<in> set es. k \<in> set B' \<or> t \<in> set (F @ F'))"
proof (induction G stack es V B arbitrary: F V' B' rule: dfs_edges.induct)
  case (1 G stack V B)
  then show ?case by (auto intro!: exI [of _ "[]"])
next
  case (2 G stack t k es V B)
  consider (stack) "t \<in> set stack" | (visited) "t \<notin> set stack" "t \<in> set V" | (new) "t \<notin> set stack" "t \<notin> set V" by blast
  then show ?case
  proof cases
    case stack
    then have "dfs_edges G stack es V (B @ [k]) = (V', B')" using "2.prems"(2) by simp
    from "2.IH"(1) [OF stack dfs_inv_more [OF "2.prems"(1)] this] show ?thesis by fastforce
  next
    case visited
    then have "dfs_edges G stack es V B = (V', B')" using "2.prems"(2) by simp
    from "2.IH"(2) [OF visited "2.prems"(1) this] obtain F' where F': "dfs_inv G stack V' B' (F @ F')"
      "set B \<subseteq> set B'" "set V \<subseteq> set V'" "\<forall>(t, k) \<in> set es. k \<in> set B' \<or> t \<in> set (F @ F')" by blast
    moreover have "t \<in> set (F @ F')" using visited "2.prems"(1) by (auto simp: dfs_inv_def)
    ultimately show ?thesis by (intro exI [of _ F']) auto
  next
    case new
    obtain V1 B1 where r: "dfs_edges G (t # stack) (out_edges G t) (t # V) B = (V1, B1)" by fastforce
    from "2.IH"(3) [OF new dfs_inv_push [OF "2.prems"(1) new(2)] r] obtain F1 where F1:
      "dfs_inv G (t # stack) V1 B1 (F @ F1)" "set B \<subseteq> set B1" "set (t # V) \<subseteq> set V1"
      "\<forall>(w, k) \<in> set (out_edges G t). k \<in> set B1 \<or> w \<in> set (F @ F1)" by blast
    have "dfs_edges G stack es V1 B1 = (V', B')" using "2.prems"(2) new r by simp
    from "2.IH"(4) [OF new r [symmetric] dfs_inv_pop [OF F1(1) new(1) F1(4)] this] obtain F2 where F2: "dfs_inv G stack V' B' (((F @ F1) @ [t]) @ F2)" "set B1 \<subseteq> set B'"
      "set V1 \<subseteq> set V'" "\<forall>(w, k) \<in> set es. k \<in> set B' \<or> w \<in> set (((F @ F1) @ [t]) @ F2)"
      by blast
    show ?thesis using F1 F2 by (intro exI [of _ "F1 @ [t] @ F2"]) auto
  qed
qed

lemma dfs_visit_inv:
  assumes "dfs_inv G [] V B F" and "dfs_visit G n (V, B) = (V', B')"
  shows "\<exists>F'. dfs_inv G [] V' B' F' \<and> set B \<subseteq> set B' \<and> set V \<subseteq> set V' \<and> n \<in> set V'"
proof (cases "n \<in> set V")
  case True
  with assms show ?thesis by (auto simp: dfs_visit_def)
next
  case False
  then have "dfs_edges G [n] (out_edges G n) (n # V) B = (V', B')" using assms(2) by (simp add: dfs_visit_def)
  from dfs_edges_inv [OF dfs_inv_push [OF assms(1) False] this] obtain F' where F':
    "dfs_inv G [n] V' B' (F @ F')" "set B \<subseteq> set B'" "set (n # V) \<subseteq> set V'"
    "\<forall>(w, k) \<in> set (out_edges G n). k \<in> set B' \<or> w \<in> set (F @ F')" by blast
  from dfs_inv_pop [OF F'(1) _ F'(4)] F'(2,3) show ?thesis by auto
qed

lemma dfs_roots_inv:
  assumes "dfs_inv G [] V B F" and "dfs_roots G ns (V, B) = (V', B')"
  shows "\<exists>F'. dfs_inv G [] V' B' F' \<and> set B \<subseteq> set B' \<and> set V \<union> set ns \<subseteq> set V'"
  using assms
proof (induction ns arbitrary: V B F)
  case Nil
  then show ?case by (auto simp: dfs_roots_def)
next
  case (Cons n ns)
  obtain V1 B1 where r: "dfs_visit G n (V, B) = (V1, B1)" by fastforce
  from dfs_visit_inv [OF Cons.prems(1) r] obtain F1 where F1:
    "dfs_inv G [] V1 B1 F1" "set B \<subseteq> set B1" "set V \<subseteq> set V1" "n \<in> set V1" by blast
  have "dfs_roots G ns (V1, B1) = (V', B')" using Cons.prems(2) r by (simp add: dfs_roots_def)
  from Cons.IH [OF F1(1) this] F1 show ?case by fastforce
qed

definition edge_rel :: "('n, 'k) edge list \<Rightarrow> 'n rel" where
  "edge_rel G = {(u, w). \<exists>k. (u, w, k) \<in> set G}"

lemma before_index:
  assumes "distinct F" and "before F w u"
  shows "length (takeWhile (\<lambda>x. x \<noteq> w) F) < length (takeWhile (\<lambda>x. x \<noteq> u) F)"
proof -
  obtain xs ys where F: "F = xs @ u # ys" "w \<in> set xs" using assms(2) by (auto simp: before_def)
  then have "takeWhile (\<lambda>x. x \<noteq> u) F = xs" using assms(1) by (auto simp: takeWhile_append)
  moreover have "length (takeWhile (\<lambda>x. x \<noteq> w) xs) < length xs"
    using F(2) by (induction xs) auto
  moreover have "takeWhile (\<lambda>x. x \<noteq> w) F = takeWhile (\<lambda>x. x \<noteq> w) xs"
    unfolding F(1) using F(2) by (intro takeWhile_append1) auto
  ultimately show ?thesis by simp
qed

lemma acyclic_without_back:
  assumes "dfs_roots G ns ([], []) = (V, B)" and "fst ` set G \<subseteq> set ns"
  shows "acyclic (edge_rel (filter (\<lambda>(u, w, k). k \<notin> set B) G))"
proof -
  have "dfs_inv G [] [] [] []" by (simp add: dfs_inv_def)
  from dfs_roots_inv [OF this assms(1)] obtain F where F: "dfs_inv G [] V B F" "set ns \<subseteq> set V" by auto
  have "length (takeWhile (\<lambda>x. x \<noteq> w) F) < length (takeWhile (\<lambda>x. x \<noteq> u) F)"
    if "(u, w) \<in> edge_rel (filter (\<lambda>(u, w, k). k \<notin> set B) G)" for u w
  proof -
    from that obtain k where k: "(u, w, k) \<in> set G" "k \<notin> set B" by (auto simp: edge_rel_def)
    then have "u \<in> set F" using F assms(2) by (force simp: dfs_inv_def)
    then have "before F w u" "distinct F" using F(1) k unfolding dfs_inv_def by blast+
    then show ?thesis by (simp add: before_index)
  qed
  then show ?thesis by (rule acyclicI_order)
qed

subsection \<open>A back edge closes a cycle\<close>

definition closes_cycle :: "('n, 'k) edge list \<Rightarrow> 'k \<Rightarrow> bool" where
  "closes_cycle G k \<longleftrightarrow> (\<exists>u w. (u, w, k) \<in> set G \<and> (w, u) \<in> (edge_rel G)\<^sup>*)"

lemma dfs_edges_back:
  "dfs_edges G stack es V B = (V', B') \<Longrightarrow> stack \<noteq> [] \<Longrightarrow> set es \<subseteq> set (out_edges G (hd stack)) \<Longrightarrow>
   \<forall>s \<in> set stack. (s, hd stack) \<in> (edge_rel G)\<^sup>* \<Longrightarrow> \<forall>k \<in> set B'. k \<in> set B \<or> closes_cycle G k"
proof (induction G stack es V B arbitrary: V' B' rule: dfs_edges.induct)
  case (1 G stack V B)
  then show ?case by simp
next
  case (2 G stack t k es V B)
  have e: "(hd stack, t, k) \<in> set G" using "2.prems"(3) by (auto simp: out_edges_def)
  have es: "set es \<subseteq> set (out_edges G (hd stack))" using "2.prems"(3) by simp
  consider (stack) "t \<in> set stack" | (visited) "t \<notin> set stack" "t \<in> set V" | (new) "t \<notin> set stack" "t \<notin> set V" by blast
  then show ?case
  proof cases
    case stack
    then have "closes_cycle G k" using e "2.prems"(4) by (auto simp: closes_cycle_def)
    moreover have "dfs_edges G stack es V (B @ [k]) = (V', B')" using "2.prems"(1) stack by simp
    ultimately show ?thesis using "2.IH"(1) [OF stack _ "2.prems"(2) es "2.prems"(4)] by auto
  next
    case visited
    then show ?thesis using "2.IH"(2) [OF visited _ "2.prems"(2) es "2.prems"(4)] "2.prems"(1) by simp
  next
    case new
    obtain V1 B1 where r: "dfs_edges G (t # stack) (out_edges G t) (t # V) B = (V1, B1)" by fastforce
    have "(hd stack, t) \<in> edge_rel G" using e by (auto simp: edge_rel_def)
    then have "\<forall>s \<in> set (t # stack). (s, hd (t # stack)) \<in> (edge_rel G)\<^sup>*"
      using "2.prems"(4) by (auto intro: rtrancl_into_rtrancl)
    with "2.IH"(3) [OF new r] have B1: "\<forall>k \<in> set B1. k \<in> set B \<or> closes_cycle G k" by simp
    have "dfs_edges G stack es V1 B1 = (V', B')" using "2.prems"(1) new r by simp
    from "2.IH"(4) [OF new r [symmetric] this "2.prems"(2) es "2.prems"(4)] B1 show ?thesis by blast
  qed
qed

lemma dfs_roots_back:
  assumes "dfs_roots G ns (V, B) = (V', B')" and "\<forall>k \<in> set B. closes_cycle G k"
  shows "\<forall>k \<in> set B'. closes_cycle G k"
  using assms
proof (induction ns arbitrary: V B)
  case (Cons n ns)
  obtain V1 B1 where r: "dfs_visit G n (V, B) = (V1, B1)" by fastforce
  have "\<forall>k \<in> set B1. closes_cycle G k"
  proof (cases "n \<in> set V")
    case False
    then have "dfs_edges G [n] (out_edges G n) (n # V) B = (V1, B1)" using r by (simp add: dfs_visit_def)
    from dfs_edges_back [OF this] Cons.prems(2) show ?thesis by auto
  qed (use r Cons.prems(2) in \<open>simp add: dfs_visit_def\<close>)
  with Cons.IH Cons.prems(1) r show ?case by (simp add: dfs_roots_def)
qed (simp add: dfs_roots_def)

end
