(* ===== verification/Graph_Utils.thy ===== *)
theory Graph_Utils
  imports Dfs
begin

section \<open>Structural connections and predecessors (utils/graph_utils.js)\<close>

text \<open>
  What the data panels know of the graph before a node: its connections without the back edges of
  loops, the parents and the predecessors of a node, and the latest results of a set of nodes. The
  connections are JavaScript values, as the components pass them. Sets keep insertion order.
\<close>

subsection \<open>Connections\<close>

abbreviation gc_source :: "jsval \<Rightarrow> string" where
  "gc_source c \<equiv> js_string (js_prop c ''source'')"

abbreviation gc_target :: "jsval \<Rightarrow> string" where
  "gc_target c \<equiv> js_string (js_prop c ''target'')"

definition is_connection :: "jsval \<Rightarrow> bool" where
  "is_connection c \<longleftrightarrow> truthy c \<and> truthy (js_prop c ''source'') \<and> truthy (js_prop c ''target'')"

definition normalizeConnections :: "jsval \<Rightarrow> jsval list" where
  "normalizeConnections connections =
     (if \<not> is_array connections then [] else filter is_connection (arr_items connections))"

definition getConnectionKey :: "jsval \<Rightarrow> string" where
  "getConnectionKey c =
     (if truthy (js_prop c ''id'') then js_string (js_prop c ''id'')
      else js_join ''=>''
             [gc_source c,
              js_string (js_or (js_prop c ''sourceHandle'') (js_or (js_prop c ''sourceSocket'') (JStr []))),
              gc_target c,
              js_string (js_or (js_prop c ''targetHandle'') (js_or (js_prop c ''targetSocket'') (JStr [])))])"

text \<open>The two adjacency maps: a list per id, created empty and pushed to; \<open>entry\<close> is \<open>get(k) || []\<close>.\<close>

definition entry :: "('k, 'v list) js_map \<Rightarrow> 'k \<Rightarrow> 'v list" where
  "entry m k = (case map_of m k of Some vs \<Rightarrow> vs | None \<Rightarrow> [])"

definition push_at :: "'k \<Rightarrow> 'v \<Rightarrow> ('k, 'v list) js_map \<Rightarrow> ('k, 'v list) js_map" where
  "push_at k v m = map_set k (entry m k @ [v]) m"

definition buildForwardAdjacency :: "jsval list \<Rightarrow> (string, jsval list) js_map" where
  "buildForwardAdjacency cs =
     foldl (\<lambda>m c. push_at (gc_source c) c m) [] (normalizeConnections (JArr cs))"

definition buildReverseAdjacency :: "jsval list \<Rightarrow> (string, string list) js_map" where
  "buildReverseAdjacency cs =
     foldl (\<lambda>m c. push_at (gc_target c) (gc_source c) m) [] (normalizeConnections (JArr cs))"

subsection \<open>Back edges\<close>

text \<open>The edges of the search: the connections of \<open>forwardAdjacency.get(nodeId)\<close> in their order (lemma
  \<open>forward_entry\<close>), each with its target and key. A connection from a node to itself is found on the
  stack, which has the node on top.\<close>

definition conn_edges :: "jsval list \<Rightarrow> (string, string) edge list" where
  "conn_edges cs = map (\<lambda>c. (gc_source c, gc_target c, getConnectionKey c)) cs"

definition end_ids :: "jsval list \<Rightarrow> string list" where
  "end_ids cs = unique (concat (map (\<lambda>c. [gc_source c, gc_target c]) cs))"

definition inDegree :: "jsval list \<Rightarrow> (string, nat) js_map" where
  "inDegree cs =
     foldl (\<lambda>m c.
              let m1 = map_set (gc_source c) (case map_of m (gc_source c) of Some d \<Rightarrow> d | None \<Rightarrow> 0) m
              in map_set (gc_target c) (Suc (case map_of m1 (gc_target c) of Some d \<Rightarrow> d | None \<Rightarrow> 0)) m1) [] cs"

definition getBackEdgeKeySet :: "jsval list \<Rightarrow> string list" where
  "getBackEdgeKeySet connections =
     (let normalized = normalizeConnections (JArr connections)
      in if normalized = [] then []
         else
           (let G = conn_edges normalized;
                nodeIds = end_ids normalized;
                roots = filter (\<lambda>n. (case map_of (inDegree normalized) n of Some d \<Rightarrow> d | None \<Rightarrow> 0) = 0) nodeIds
            in snd (dfs_roots G nodeIds (dfs_roots G roots ([], [])))))"

definition getStructuralConnections :: "jsval \<Rightarrow> jsval list" where
  "getStructuralConnections connections =
     (let normalized = normalizeConnections connections
      in if normalized = [] then []
         else
           (let back = getBackEdgeKeySet normalized
            in filter (\<lambda>c. gc_source c \<noteq> gc_target c \<and> getConnectionKey c \<notin> set back) normalized))"

subsection \<open>Parents and predecessors\<close>

definition getStructuralParentIds :: "jsval \<Rightarrow> jsval \<Rightarrow> string list" where
  "getStructuralParentIds workflow nodeId =
     (if \<not> truthy workflow \<or> \<not> truthy nodeId then []
      else entry (buildReverseAdjacency (getStructuralConnections (js_prop workflow ''connections''))) (js_string nodeId))"

text \<open>The inner loop over the parents: the ones it adds to the visited ids, the result and the queue.\<close>

fun unvisited :: "'a list \<Rightarrow> 'a list \<Rightarrow> 'a list" where
  "unvisited V [] = []"
| "unvisited V (p # ps) = (if p \<in> set V then unvisited V ps else p # unvisited (p # V) ps)"

lemma set_unvisited: "set (unvisited V ps) = set ps - set V"
  by (induction V ps rule: unvisited.induct) auto

lemma distinct_unvisited: "distinct (unvisited V ps)"
  by (induction V ps rule: unvisited.induct) (auto simp: set_unvisited)

function bfs :: "('a, 'a list) js_map \<Rightarrow> 'a list \<Rightarrow> 'a list \<Rightarrow> 'a list \<Rightarrow> 'a list" where
  "bfs R [] V P = P"
| "bfs R (c # q) V P =
     (let new = unvisited V (entry R c) in bfs R (q @ new) (V @ new) (P @ new))"
  by pat_completeness auto

termination
proof (relation "inv_image (finite_psubset <*lex*> less_than)
    (\<lambda>(R, q, V, P). (\<Union> (set ` snd ` set R) - set V, length q))")
  show "wf (inv_image (finite_psubset <*lex*> less_than)
      (\<lambda>(R, q, V, P). (\<Union> (set ` snd ` set R) - set V, length q)))"
    by (intro wf_inv_image wf_lex_prod wf_finite_psubset wf_less_than)
next
  fix R :: "('a, 'a list) js_map" and c q V P new
  assume new: "new = unvisited V (entry R c)"
  let ?U = "\<Union> (set ` snd ` set R)"
  have "set new \<subseteq> ?U - set V"
    using new by (auto simp: set_unvisited entry_def split: option.splits dest!: map_of_SomeD intro!: bexI)
  then have "new \<noteq> [] \<Longrightarrow> ?U - set (V @ new) \<subset> ?U - set V"
    by (cases new) auto
  then show "((R, q @ new, V @ new, P @ new), R, c # q, V, P) \<in> inv_image (finite_psubset <*lex*> less_than)
      (\<lambda>(R, q, V, P). (\<Union> (set ` snd ` set R) - set V, length q))"
    by (cases "new = []") auto
qed

definition getStructuralPredecessorIds :: "jsval \<Rightarrow> jsval \<Rightarrow> string list" where
  "getStructuralPredecessorIds workflow nodeId =
     (if \<not> truthy workflow \<or> \<not> truthy nodeId then []
      else bfs (buildReverseAdjacency (getStructuralConnections (js_prop workflow ''connections'')))
             [js_string nodeId] [js_string nodeId] [])"

subsection \<open>Latest results\<close>

definition has_node_id :: "jsval \<Rightarrow> bool" where
  "has_node_id r \<longleftrightarrow> truthy r \<and> js_prop r ''node_id'' \<noteq> JUndef \<and> js_prop r ''node_id'' \<noteq> JNull"

definition allowed_ids :: "jsval \<Rightarrow> string list" where
  "allowed_ids nodeIds = map js_string (arr_items (js_or nodeIds (JArr [])))"

definition getLatestNodeResultsByNodeIds :: "jsval \<Rightarrow> jsval \<Rightarrow> jsval list" where
  "getLatestNodeResultsByNodeIds nodeResults nodeIds =
     (if \<not> is_array nodeResults \<or> arr_items nodeResults = [] \<or> allowed_ids nodeIds = [] then []
      else map snd
        (foldl (\<lambda>m r. if has_node_id r \<and> js_string (js_prop r ''node_id'') \<in> set (allowed_ids nodeIds)
                      then map_set (js_string (js_prop r ''node_id'')) r (map_del (js_string (js_prop r ''node_id'')) m)
                      else m) [] (arr_items nodeResults)))"

definition getLatestNodeResultForNodeIds :: "jsval \<Rightarrow> jsval \<Rightarrow> jsval option" where
  "getLatestNodeResultForNodeIds nodeResults nodeIds =
     (if \<not> is_array nodeResults \<or> arr_items nodeResults = [] \<or> allowed_ids nodeIds = [] then None
      else List.find (\<lambda>r. has_node_id r \<and> js_string (js_prop r ''node_id'') \<in> set (allowed_ids nodeIds))
             (rev (arr_items nodeResults)))"

subsection \<open>The adjacency maps\<close>

lemma entry_push_at: "entry (push_at k v m) j = (if j = k then entry m k @ [v] else entry m j)"
  by (simp add: push_at_def entry_def jsm.get_put)

lemma entry_foldl_push: "entry (foldl (\<lambda>m c. push_at (f c) (g c) m) m cs) j = entry m j @ map g (filter (\<lambda>c. f c = j) cs)"
proof (induction cs arbitrary: m)
  case (Cons c cs)
  show ?case using Cons.IH [of "push_at (f c) (g c) m"] by (simp add: entry_push_at split: if_splits)
qed simp

lemma normalize_idem [simp]: "normalizeConnections (JArr (normalizeConnections cs)) = normalizeConnections cs"
  by (simp add: normalizeConnections_def)

lemma normalize_filter: "normalizeConnections (JArr (filter P (normalizeConnections cs))) = filter P (normalizeConnections cs)"
  by (auto simp: normalizeConnections_def intro!: filter_cong)

lemma forward_entry:
  "entry (buildForwardAdjacency (normalizeConnections cs)) n = filter (\<lambda>c. gc_source c = n) (normalizeConnections cs)"
  using entry_foldl_push [of gc_source "\<lambda>c. c" "[]" "normalizeConnections cs" n]
  by (simp add: buildForwardAdjacency_def entry_def [of "[]"])

lemma out_edges_conn:
  "out_edges (conn_edges cs) n = map (\<lambda>c. (gc_target c, getConnectionKey c)) (filter (\<lambda>c. gc_source c = n) cs)"
  by (simp add: out_edges_def conn_edges_def filter_map comp_def)

lemma reverse_entry:
  assumes "normalizeConnections (JArr cs) = cs"
  shows "entry (buildReverseAdjacency cs) n = map gc_source (filter (\<lambda>c. gc_target c = n) cs)"
  using entry_foldl_push [of gc_target gc_source "[]" cs n] assms by (simp add: buildReverseAdjacency_def entry_def [of "[]"])

subsection \<open>Structural connections\<close>

definition conn_rel :: "jsval list \<Rightarrow> string rel" where
  "conn_rel cs = {(gc_source c, gc_target c) |c. c \<in> set cs}"

lemma edge_rel_conn: "edge_rel (conn_edges cs) = conn_rel cs"
  by (auto simp: edge_rel_def conn_edges_def conn_rel_def)

lemma structural_normalized: "normalizeConnections (JArr (getStructuralConnections cs)) = getStructuralConnections cs"
  by (auto simp: getStructuralConnections_def Let_def normalize_filter) (simp add: normalizeConnections_def)

lemma back_keys_dfs:
  assumes "normalizeConnections cs \<noteq> []"
  obtains ns V where "dfs_roots (conn_edges (normalizeConnections cs)) ns ([], [])
      = (V, getBackEdgeKeySet (normalizeConnections cs))"
    and "fst ` set (conn_edges (normalizeConnections cs)) \<subseteq> set ns"
proof -
  let ?N = "normalizeConnections cs"
  let ?roots = "filter (\<lambda>n. (case map_of (inDegree ?N) n of Some d \<Rightarrow> d | None \<Rightarrow> 0) = 0) (end_ids ?N)"
  have "getBackEdgeKeySet ?N = snd (dfs_roots (conn_edges ?N) (?roots @ end_ids ?N) ([], []))"
    using assms by (simp add: getBackEdgeKeySet_def Let_def dfs_roots_twice)
  moreover have "fst ` set (conn_edges ?N) \<subseteq> set (?roots @ end_ids ?N)"
    by (force simp: conn_edges_def end_ids_def)
  ultimately show ?thesis using that by (metis prod.collapse)
qed

lemma structural_acyclic: "acyclic (conn_rel (getStructuralConnections cs))"
proof (cases "normalizeConnections cs = []")
  case True
  then show ?thesis by (simp add: getStructuralConnections_def conn_rel_def acyclic_def)
next
  case False
  let ?N = "normalizeConnections cs" and ?B = "getBackEdgeKeySet (normalizeConnections cs)"
  from False obtain ns V where "dfs_roots (conn_edges ?N) ns ([], []) = (V, ?B)" "fst ` set (conn_edges ?N) \<subseteq> set ns"
    by (rule back_keys_dfs)
  from acyclic_without_back [OF this]
  have "acyclic (edge_rel (filter (\<lambda>(u, w, k). k \<notin> set ?B) (conn_edges ?N)))" .
  moreover have "conn_rel (getStructuralConnections cs) \<subseteq> edge_rel (filter (\<lambda>(u, w, k). k \<notin> set ?B) (conn_edges ?N))"
    using False by (auto simp: conn_rel_def edge_rel_def getStructuralConnections_def Let_def conn_edges_def)
  ultimately show ?thesis by (rule acyclic_subset)
qed

lemma structural_keeps:
  assumes c: "c \<in> set (normalizeConnections cs)" and d: "distinct (map getConnectionKey (normalizeConnections cs))"
    and nc: "(gc_target c, gc_source c) \<notin> (conn_rel (normalizeConnections cs))\<^sup>*"
  shows "c \<in> set (getStructuralConnections cs)"
proof -
  let ?N = "normalizeConnections cs" and ?B = "getBackEdgeKeySet (normalizeConnections cs)"
  have ne: "?N \<noteq> []" using c by auto
  from ne obtain ns V where "dfs_roots (conn_edges ?N) ns ([], []) = (V, ?B)"
    by (rule back_keys_dfs)
  from dfs_roots_back [OF this] have cyc: "\<forall>k \<in> set ?B. closes_cycle (conn_edges ?N) k" by simp
  have "getConnectionKey c \<notin> set ?B"
  proof
    assume "getConnectionKey c \<in> set ?B"
    with cyc obtain c' where c': "c' \<in> set ?N" "getConnectionKey c' = getConnectionKey c"
      "(gc_target c', gc_source c') \<in> (conn_rel ?N)\<^sup>*"
      by (auto simp: closes_cycle_def edge_rel_conn) (auto simp: conn_edges_def)
    then have "c' = c" using d c by (auto simp: distinct_map dest: inj_onD)
    with c' nc show False by simp
  qed
  moreover have "gc_source c \<noteq> gc_target c" using nc by auto
  ultimately show ?thesis using c ne by (simp add: getStructuralConnections_def Let_def)
qed

subsection \<open>Predecessors\<close>

text \<open>The search keeps: what it visited leads to the start, and the parents of everything visited that is no
  longer in the queue are visited.\<close>

definition parent_rel :: "('a, 'a list) js_map \<Rightarrow> 'a rel" where
  "parent_rel R = {(p, c). p \<in> set (entry R c)}"

definition bfs_inv :: "('a, 'a list) js_map \<Rightarrow> 'a \<Rightarrow> 'a list \<Rightarrow> 'a list \<Rightarrow> 'a list \<Rightarrow> bool" where
  "bfs_inv R s q V P \<longleftrightarrow> set q \<subseteq> set V \<and> distinct (s # P) \<and> set V = insert s (set P)
     \<and> (\<forall>v \<in> set V. (v, s) \<in> (parent_rel R)\<^sup>*)
     \<and> (\<forall>v \<in> set V - set q. set (entry R v) \<subseteq> set V)"

lemma bfs_inv_step:
  assumes "bfs_inv R s (c # q) V P"
  shows "bfs_inv R s (q @ unvisited V (entry R c)) (V @ unvisited V (entry R c)) (P @ unvisited V (entry R c))"
proof -
  let ?new = "unvisited V (entry R c)"
  note i = assms [unfolded bfs_inv_def]
  have "(v, s) \<in> (parent_rel R)\<^sup>*" if "v \<in> set ?new" for v
  proof -
    have "(v, c) \<in> parent_rel R" using that by (simp add: set_unvisited parent_rel_def)
    moreover have "(c, s) \<in> (parent_rel R)\<^sup>*" using i by (metis list.set_intros(1) subset_iff)
    ultimately show ?thesis by (rule converse_rtrancl_into_rtrancl)
  qed
  moreover have "distinct (s # P @ ?new)" using i distinct_unvisited [of V] by (auto simp: set_unvisited)
  moreover have "set (entry R v) \<subseteq> set (V @ ?new)" if "v \<in> set (V @ ?new) - set (q @ ?new)" for v
  proof (cases "v = c")
    case False
    with that have "v \<in> set V - set (c # q)" by auto
    then have "set (entry R v) \<subseteq> set V" using i by blast
    then show ?thesis by auto
  qed (auto simp: set_unvisited)
  moreover have "set (q @ ?new) \<subseteq> set (V @ ?new)" "set (V @ ?new) = insert s (set (P @ ?new))" using i by auto
  moreover have "\<forall>v \<in> set V. (v, s) \<in> (parent_rel R)\<^sup>*" using i by blast
  ultimately show ?thesis unfolding bfs_inv_def by (intro conjI ballI) (auto simp only: set_append)
qed

lemma bfs_correct:
  "bfs_inv R s q V P \<Longrightarrow> distinct (bfs R q V P) \<and>
     set (bfs R q V P) = {p. (p, s) \<in> (parent_rel R)\<^sup>*} - {s}"
proof (induction R q V P rule: bfs.induct)
  case (1 R V P)
  note i = "1.prems" [unfolded bfs_inv_def]
  have "p \<in> set V" if "(p, s) \<in> (parent_rel R)\<^sup>*" for p
    using that
  proof (induction rule: converse_rtrancl_induct)
    case (step y z)
    then have "set (entry R z) \<subseteq> set V" using i by (metis Diff_empty empty_set)
    then show ?case using step.hyps(1) by (auto simp: parent_rel_def)
  qed (use i in simp)
  with i show ?case by auto
next
  case (2 R c q V P)
  from "2.IH" [OF refl bfs_inv_step [OF "2.prems"]] show ?case by (simp add: Let_def)
qed

lemma predecessors_correct:
  assumes "truthy workflow" and "truthy nodeId"
  shows "distinct (getStructuralPredecessorIds workflow nodeId)
    \<and> set (getStructuralPredecessorIds workflow nodeId)
      = {p. (p, js_string nodeId) \<in> (conn_rel (getStructuralConnections (js_prop workflow ''connections'')))\<^sup>+}"
proof -
  let ?S = "getStructuralConnections (js_prop workflow ''connections'')" and ?n = "js_string nodeId"
  let ?R = "buildReverseAdjacency ?S"
  have E: "parent_rel ?R = conn_rel ?S"
    unfolding parent_rel_def reverse_entry [OF structural_normalized] by (auto simp: conn_rel_def)
  have "bfs_inv ?R ?n [?n] [?n] []" by (simp add: bfs_inv_def)
  from bfs_correct [OF this]
  have "distinct (bfs ?R [?n] [?n] [])" "set (bfs ?R [?n] [?n] []) = {p. (p, ?n) \<in> (conn_rel ?S)\<^sup>*} - {?n}"
    unfolding E by simp_all
  moreover have "{p. (p, ?n) \<in> (conn_rel ?S)\<^sup>*} - {?n} = {p. (p, ?n) \<in> (conn_rel ?S)\<^sup>+}"
    using structural_acyclic [of "js_prop workflow ''connections''"]
    by (auto simp: acyclic_def dest: rtranclD)
  ultimately show ?thesis using assms by (simp add: getStructuralPredecessorIds_def)
qed

subsection \<open>Latest results\<close>

lemma map_set_del: "map_set k v (map_del k m) = map_del k m @ [(k, v)]"
  by (intro map_set_fresh) (auto simp: set_map_del)

lemma latest_last:
  assumes "getLatestNodeResultsByNodeIds rs ids = xs"
  shows "getLatestNodeResultForNodeIds rs ids = (if xs = [] then None else Some (last xs))"
proof (cases "\<not> is_array rs \<or> arr_items rs = [] \<or> allowed_ids ids = []")
  case True
  with assms show ?thesis by (auto simp: getLatestNodeResultsByNodeIds_def getLatestNodeResultForNodeIds_def)
next
  case False
  let ?k = "\<lambda>r. js_string (js_prop r ''node_id'')"
  let ?p = "\<lambda>r. has_node_id r \<and> ?k r \<in> set (allowed_ids ids)"
  let ?f = "\<lambda>m r. if ?p r then map_set (?k r) r (map_del (?k r) m) else m"
  have "List.find ?p (rev ys) = (if foldl ?f [] ys = [] then None else Some (snd (last (foldl ?f [] ys))))" for ys
    by (induction ys rule: rev_induct) (auto simp: map_set_del)
  from this [of "arr_items rs"] assms False show ?thesis
    by (auto simp: getLatestNodeResultsByNodeIds_def getLatestNodeResultForNodeIds_def last_map)
qed

subsection \<open>Properties\<close>

text \<open>C17: The structural connections of any workflow form an acyclic graph, whatever loops the workflow has, and a
  connection that lies on no cycle is always among them, provided the keys are distinct.\<close>

theorem structural_connections_spec:
  "acyclic (conn_rel (getStructuralConnections cs))
   \<and> (distinct (map getConnectionKey (normalizeConnections cs)) \<longrightarrow>
        (\<forall>c \<in> set (normalizeConnections cs).
           (gc_target c, gc_source c) \<notin> (conn_rel (normalizeConnections cs))\<^sup>* \<longrightarrow> c \<in> set (getStructuralConnections cs)))"
  using structural_acyclic structural_keeps by blast

abbreviation demo_conn :: "string \<Rightarrow> string \<Rightarrow> string \<Rightarrow> jsval" where
  "demo_conn i s t \<equiv> JObj [(''id'', JStr i), (''source'', JStr s), (''target'', JStr t)]"

theorem structural_connections_spec_witness:
  "demo_conn ''1'' ''a'' ''b'' \<in> set (getStructuralConnections (JArr [demo_conn ''1'' ''a'' ''b'']))"
proof -
  let ?cs = "JArr [demo_conn ''1'' ''a'' ''b'']"
  have n: "normalizeConnections ?cs = [demo_conn ''1'' ''a'' ''b'']"
    by (simp add: normalizeConnections_def is_connection_def)
  have "(''b'', ''a'') \<notin> (conn_rel (normalizeConnections ?cs))\<^sup>*"
  proof
    assume "(''b'', ''a'') \<in> (conn_rel (normalizeConnections ?cs))\<^sup>*"
    then show False by (cases rule: converse_rtranclE) (auto simp: n conn_rel_def)
  qed
  with structural_connections_spec [of ?cs] show ?thesis by (simp add: n)
qed

text \<open>The structural predecessors of a node are exactly the nodes from which a path of structural connections
  leads to it, each listed once; the breadth-first search ends for every workflow.\<close>

theorem predecessors_are_ancestors:
  assumes "truthy workflow" and "truthy nodeId"
  shows "distinct (getStructuralPredecessorIds workflow nodeId)
    \<and> set (getStructuralPredecessorIds workflow nodeId)
      = {p. (p, js_string nodeId) \<in> (conn_rel (getStructuralConnections (js_prop workflow ''connections'')))\<^sup>+}"
  using assms by (rule predecessors_correct)

theorem predecessors_are_ancestors_witness:
  "''n_1'' \<in> set (getStructuralPredecessorIds
      (JObj [(''connections'', JArr [demo_conn ''1'' ''n_1'' ''n_2''])]) (JStr ''n_2''))"
proof -
  let ?cs = "JArr [demo_conn ''1'' ''n_1'' ''n_2'']"
  have n: "normalizeConnections ?cs = [demo_conn ''1'' ''n_1'' ''n_2'']"
    by (simp add: normalizeConnections_def is_connection_def)
  have "(''n_2'', ''n_1'') \<notin> (conn_rel (normalizeConnections ?cs))\<^sup>*"
  proof
    assume "(''n_2'', ''n_1'') \<in> (conn_rel (normalizeConnections ?cs))\<^sup>*"
    then show False by (cases rule: converse_rtranclE) (auto simp: n conn_rel_def)
  qed
  then have "demo_conn ''1'' ''n_1'' ''n_2'' \<in> set (getStructuralConnections ?cs)"
    by (intro structural_keeps) (simp_all add: n)
  then have "(''n_1'', ''n_2'') \<in> conn_rel (getStructuralConnections ?cs)" by (force simp: conn_rel_def)
  then show ?thesis
    using predecessors_are_ancestors [of "JObj [(''connections'', ?cs)]" "JStr ''n_2''"] by (simp add: r_into_trancl')
qed

text \<open>The two ways to ask for the latest result agree: the single latest result for a set of nodes is the last of
  the per-node latest results, and is missing exactly when there are none.\<close>

theorem latest_result_agrees:
  "getLatestNodeResultForNodeIds rs ids =
     (if getLatestNodeResultsByNodeIds rs ids = [] then None else Some (last (getLatestNodeResultsByNodeIds rs ids)))"
  by (rule latest_last [OF refl])

end
