(* ===== verification/Geometry.thy ===== *)
theory Geometry
  imports Js_Prelude
begin

section \<open>Dimensions, geometry and the view of the canvas\<close>

text \<open>
  core/dimensions.js, components/editor_canvas/utils/geometry.js, utils/view_utils.js and the
  calculations of hooks/use_viewport.js. Numbers are rationals. A node is seen here through its
  coordinates and the keys of its sockets; an absent option of a configuration is None.
\<close>

subsection \<open>Points and rectangles\<close>

type_synonym point = "rat \<times> rat"

record rect =
  rx :: rat
  rY :: rat
  rwidth :: rat
  rheight :: rat

record view =
  vpan :: point
  vzoom :: rat

definition pointInRect :: "point \<Rightarrow> rect \<Rightarrow> bool" where
  "pointInRect p r \<longleftrightarrow> fst p \<ge> rx r \<and> fst p \<le> rx r + rwidth r \<and> snd p \<ge> rY r \<and> snd p \<le> rY r + rheight r"

definition rectsIntersect :: "rect \<Rightarrow> rect \<Rightarrow> bool" where
  "rectsIntersect r s \<longleftrightarrow> \<not> (rx r + rwidth r < rx s \<or> rx s + rwidth s < rx r
     \<or> rY r + rheight r < rY s \<or> rY s + rheight s < rY r)"

text \<open>Math.round rounds halves up.\<close>

definition js_round :: "rat \<Rightarrow> int" where
  "js_round v = \<lfloor>v + 1 / 2\<rfloor>"

definition snapToGrid :: "rat \<Rightarrow> rat \<Rightarrow> rat" where
  "snapToGrid v grid = of_int (js_round (v / grid)) * grid"

definition snapPositionToGrid :: "point \<Rightarrow> rat \<Rightarrow> point" where
  "snapPositionToGrid p grid = (snapToGrid (fst p) grid, snapToGrid (snd p) grid)"

definition clamp :: "rat \<Rightarrow> rat \<Rightarrow> rat \<Rightarrow> rat" where
  "clamp v lo hi = max lo (min hi v)"

text \<open>The rectangle of the container element is an argument: its left and top are where it is on screen.\<close>

definition screenToCanvas :: "point \<Rightarrow> rect \<Rightarrow> view \<Rightarrow> point" where
  "screenToCanvas ev container v =
     ((fst ev - rx container - fst (vpan v)) / vzoom v, (snd ev - rY container - snd (vpan v)) / vzoom v)"

definition canvasToScreen :: "rat \<Rightarrow> rat \<Rightarrow> view \<Rightarrow> point" where
  "canvasToScreen x y v = (x * vzoom v + fst (vpan v), y * vzoom v + snd (vpan v))"

definition getSelectionBox :: "point \<Rightarrow> point \<Rightarrow> rect" where
  "getSelectionBox p q =
     \<lparr>rx = min (fst p) (fst q), rY = min (snd p) (snd q), rwidth = \<bar>fst q - fst p\<bar>, rheight = \<bar>snd q - snd p\<bar>\<rparr>"

subsection \<open>Dimensions of a node\<close>

datatype socket_side = Input | Output

datatype anchor_mode = BORDER_EDGE | MARKER_CENTER

record geo_node =
  gn_id :: string
  gn_at :: point
  gn_inputs :: "string list"
  gn_outputs :: "string list"

record dimension_config =
  nodeWidth :: rat
  nodeChromeMinHeight :: rat
  nodeBorderWidth :: rat
  socketPitch :: rat
  socketHitboxSize :: rat
  socketMarkerWidth :: rat
  socketMarkerHeight :: rat
  socketClearanceY :: rat
  socketMinRows :: nat
  socketAnchorMode :: anchor_mode
  gridSize :: rat

record dimension_options =
  o_nodeWidth :: "rat option"
  o_nodeChromeMinHeight :: "rat option"
  o_nodeBorderWidth :: "rat option"
  o_socketPitch :: "rat option"
  o_socketSpacing :: "rat option"
  o_socketHitboxSize :: "rat option"
  o_socketRadius :: "rat option"
  o_socketMarkerWidth :: "rat option"
  o_socketMarkerHeight :: "rat option"
  o_socketClearanceY :: "rat option"
  o_nodeBodyPadding :: "rat option"
  o_socketMinRows :: "nat option"
  o_socketAnchorMode :: "anchor_mode option"
  o_gridSize :: "rat option"

definition with_default :: "'a option \<Rightarrow> 'a \<Rightarrow> 'a" where
  "with_default x d = (case x of Some v \<Rightarrow> v | None \<Rightarrow> d)"

definition new_DimensionConfig :: "dimension_options \<Rightarrow> dimension_config" where
  "new_DimensionConfig c =
     \<lparr>nodeWidth = with_default (o_nodeWidth c) 240,
      nodeChromeMinHeight = with_default (o_nodeChromeMinHeight c) 68,
      nodeBorderWidth = with_default (o_nodeBorderWidth c) 2,
      socketPitch = with_default (o_socketPitch c) (with_default (o_socketSpacing c) 24),
      socketHitboxSize = with_default (o_socketHitboxSize c) (case o_socketRadius c of Some r \<Rightarrow> r * 2 | None \<Rightarrow> 10),
      socketMarkerWidth = with_default (o_socketMarkerWidth c) 5,
      socketMarkerHeight = with_default (o_socketMarkerHeight c) 10,
      socketClearanceY = with_default (o_socketClearanceY c) (with_default (o_nodeBodyPadding c) 10),
      socketMinRows = with_default (o_socketMinRows c) 2,
      socketAnchorMode = with_default (o_socketAnchorMode c) MARKER_CENTER,
      gridSize = with_default (o_gridSize c) 20\<rparr>"

definition getSocketKeys :: "geo_node \<Rightarrow> socket_side \<Rightarrow> string list" where
  "getSocketKeys n side = (case side of Input \<Rightarrow> gn_inputs n | Output \<Rightarrow> gn_outputs n)"

definition getSocketCount :: "geo_node \<Rightarrow> socket_side \<Rightarrow> nat" where
  "getSocketCount n side = length (getSocketKeys n side)"

text \<open>\<open>indexOf\<close>, with 0 for a key that is not there.\<close>

definition getSocketIndex :: "geo_node \<Rightarrow> string \<Rightarrow> socket_side \<Rightarrow> nat" where
  "getSocketIndex n key side =
     (let i = length (takeWhile (\<lambda>k. k \<noteq> key) (getSocketKeys n side))
      in if i < getSocketCount n side then i else 0)"

definition getSocketRowCount :: "geo_node \<Rightarrow> nat" where
  "getSocketRowCount n = max (length (gn_inputs n)) (length (gn_outputs n))"

definition getSocketLayoutRowCount :: "dimension_config \<Rightarrow> geo_node \<Rightarrow> nat" where
  "getSocketLayoutRowCount d n =
     (if getSocketRowCount n = 0 then 0 else max (getSocketRowCount n) (socketMinRows d))"

definition getSocketDrivenMinHeight :: "dimension_config \<Rightarrow> geo_node \<Rightarrow> rat" where
  "getSocketDrivenMinHeight d n =
     (if getSocketLayoutRowCount d n = 0 then 0
      else of_nat (getSocketLayoutRowCount d n) * socketPitch d + socketClearanceY d * 2)"

definition getNodeMinHeight :: "dimension_config \<Rightarrow> geo_node \<Rightarrow> rat" where
  "getNodeMinHeight d n = max (nodeChromeMinHeight d) (getSocketDrivenMinHeight d n)"

definition getSocketCenterX :: "dimension_config \<Rightarrow> geo_node \<Rightarrow> socket_side \<Rightarrow> rat" where
  "getSocketCenterX d n side =
     (let borderEdgeX = (case side of Input \<Rightarrow> fst (gn_at n) | Output \<Rightarrow> fst (gn_at n) + nodeWidth d)
      in if socketAnchorMode d = BORDER_EDGE then borderEdgeX
         else case side of Input \<Rightarrow> borderEdgeX - socketMarkerWidth d / 2 | Output \<Rightarrow> borderEdgeX + socketMarkerWidth d / 2)"

definition getSocketCenterY :: "dimension_config \<Rightarrow> geo_node \<Rightarrow> string \<Rightarrow> socket_side \<Rightarrow> rat" where
  "getSocketCenterY d n key side =
     (let socketCount = max (getSocketCount n side) 1;
          centeredIndex = of_nat (getSocketIndex n key side) - (of_nat socketCount - 1) / 2
      in snd (gn_at n) + getNodeMinHeight d n / 2 + centeredIndex * socketPitch d)"

definition getSocketPosition :: "dimension_config \<Rightarrow> geo_node \<Rightarrow> string \<Rightarrow> socket_side \<Rightarrow> point" where
  "getSocketPosition d n key side = (getSocketCenterX d n side, getSocketCenterY d n key side)"

definition estimateNodeHeight :: "dimension_config \<Rightarrow> geo_node \<Rightarrow> rat" where
  "estimateNodeHeight d n = getNodeMinHeight d n"

definition getNodeBounds :: "dimension_config \<Rightarrow> geo_node \<Rightarrow> rect" where
  "getNodeBounds d n = \<lparr>rx = fst (gn_at n), rY = snd (gn_at n), rwidth = nodeWidth d, rheight = estimateNodeHeight d n\<rparr>"

text \<open>The kind of curve of a connection: (isVerticalStack, isBackEdge).\<close>

definition detectConnectionType :: "point \<Rightarrow> point \<Rightarrow> bool \<times> bool" where
  "detectConnectionType s t =
     (let deltaX = fst s - fst t; deltaY = snd t - snd s;
          isVerticalStack = (deltaY > 60 \<and> deltaX > 0)
      in (isVerticalStack, deltaX > 20 \<and> \<not> isVerticalStack))"

subsection \<open>Fitting the view\<close>

datatype fit_mode = Contain | CoverWidth | CoverHeight

definition getFitZoom :: "fit_mode \<Rightarrow> rect \<Rightarrow> rat \<Rightarrow> rat \<Rightarrow> rat \<Rightarrow> rat" where
  "getFitZoom mode canvas contentWidth contentHeight topOffset =
     (let availableHeight = max (rheight canvas - topOffset) 1;
          widthZoom = rwidth canvas / contentWidth;
          heightZoom = availableHeight / contentHeight
      in case mode of CoverWidth \<Rightarrow> min widthZoom 1 | CoverHeight \<Rightarrow> min heightZoom 1
         | Contain \<Rightarrow> min (min widthZoom heightZoom) 1)"

record content_bounds =
  cb_minX :: rat
  cb_maxX :: rat
  cb_minY :: rat
  cb_maxY :: rat

definition contentBounds :: "dimension_config \<Rightarrow> geo_node list \<Rightarrow> content_bounds" where
  "contentBounds d ns =
     \<lparr>cb_minX = Min ((\<lambda>n. fst (gn_at n)) ` set ns), cb_maxX = Max ((\<lambda>n. fst (gn_at n) + nodeWidth d) ` set ns),
      cb_minY = Min ((\<lambda>n. snd (gn_at n)) ` set ns),
      cb_maxY = Max ((\<lambda>n. snd (gn_at n) + estimateNodeHeight d n) ` set ns)\<rparr>"

definition calculateFitView ::
    "geo_node list \<Rightarrow> dimension_config \<Rightarrow> rect \<Rightarrow> rat option \<Rightarrow> fit_mode \<Rightarrow> rat \<Rightarrow> view option" where
  "calculateFitView ns d canvas pad mode topOffsetPx =
     (if ns = [] then None
      else
        (let padding = with_default pad 50;
             topOffset = max 0 topOffsetPx;
             b = contentBounds d ns;
             contentWidth = max (cb_maxX b - cb_minX b + padding * 2) 1;
             contentHeight = max (cb_maxY b - cb_minY b + padding * 2) 1;
             z = getFitZoom mode canvas contentWidth contentHeight topOffset;
             topOffsetWorld = topOffset / z;
             availableHeightWorld = max ((rheight canvas - topOffset) / z) 1;
             centerYOffset = (availableHeightWorld - contentHeight) / 2;
             fitTopOffset = (if mode = CoverWidth then 0 else centerYOffset)
         in Some \<lparr>vpan = (rwidth canvas / 2 - (cb_minX b + cb_maxX b) / 2 * z,
                           - cb_minY b + padding + topOffsetWorld + fitTopOffset),
                  vzoom = z\<rparr>))"

subsection \<open>The viewport hook\<close>

text \<open>The part of the canvas that is drawn, with a buffer around it.\<close>

definition updateViewRect :: "rect \<Rightarrow> view \<Rightarrow> rect" where
  "updateViewRect container v =
     \<lparr>rx = - fst (vpan v) / vzoom v - 300, rY = - snd (vpan v) / vzoom v - 300,
      rwidth = rwidth container / vzoom v + 300 * 2, rheight = rheight container / vzoom v + 300 * 2\<rparr>"

definition wheel_zoom :: "rat \<Rightarrow> point \<Rightarrow> rect \<Rightarrow> view \<Rightarrow> view" where
  "wheel_zoom deltaY client container v =
     (let newZoom = clamp (vzoom v * (if deltaY > 0 then 9 / 10 else 11 / 10)) (1 / 4) 2;
          mouseX = fst client - rx container; mouseY = snd client - rY container;
          factor = newZoom / vzoom v
      in \<lparr>vpan = (mouseX - (mouseX - fst (vpan v)) * factor, mouseY - (mouseY - snd (vpan v)) * factor),
          vzoom = newZoom\<rparr>)"

definition getZoomPercentage :: "view \<Rightarrow> int" where
  "getZoomPercentage v = js_round (vzoom v * 100)"

definition zoom_in :: "rat \<Rightarrow> rat" where
  "zoom_in z = min (of_int (js_round ((z + 1 / 10) * 10)) / 10) 2"

definition zoom_out :: "rat \<Rightarrow> rat" where
  "zoom_out z = max (of_int (js_round ((z - 1 / 10) * 10)) / 10) (1 / 4)"

definition panToNode :: "dimension_config \<Rightarrow> rect \<Rightarrow> string \<Rightarrow> geo_node list \<Rightarrow> view \<Rightarrow> view" where
  "panToNode d container nodeId ns v =
     (case List.find (\<lambda>n. gn_id n = nodeId) ns of
        None \<Rightarrow> v
      | Some n \<Rightarrow>
          v\<lparr>vpan := (- ((fst (gn_at n) + nodeWidth d / 2) * vzoom v) + rwidth container / 2,
                     - ((snd (gn_at n) + estimateNodeHeight d n / 2) * vzoom v) + rheight container / 2)\<rparr>)"

text \<open>Box selection (hooks/use_canvas_gestures.js, \<open>completeSelection\<close>): the nodes that overlap the box.\<close>

definition selected_by_box :: "dimension_config \<Rightarrow> point \<Rightarrow> point \<Rightarrow> geo_node list \<Rightarrow> geo_node list" where
  "selected_by_box d p q ns =
     (let minX = min (fst p) (fst q); maxX = max (fst p) (fst q);
          minY = min (snd p) (snd q); maxY = max (snd p) (snd q)
      in filter (\<lambda>n. let b = getNodeBounds d n in
                   rx b < maxX \<and> rx b + rwidth b > minX \<and> rY b < maxY \<and> rY b + rheight b > minY) ns)"

subsection \<open>Rounding and rectangles\<close>

lemma js_round_of_int [simp]: "js_round (of_int k) = k"
  unfolding js_round_def by (rule floor_unique) simp_all

lemma js_round_numeral [simp]: "js_round (numeral k) = numeral k"
  using js_round_of_int [of "numeral k"] by simp

lemma js_round_close: "\<bar>of_int (js_round v) - v\<bar> \<le> 1 / 2"
proof -
  have "of_int (js_round v) \<le> v + 1 / 2" "v + 1 / 2 < of_int (js_round v) + 1"
    using floor_correct [of "v + 1 / 2"] by (simp_all add: js_round_def)
  then show ?thesis by linarith
qed

lemma snapToGrid_spec:
  assumes "0 < grid"
  shows "\<bar>snapToGrid v grid - v\<bar> \<le> grid / 2" and "snapToGrid (snapToGrid v grid) grid = snapToGrid v grid"
proof -
  have "snapToGrid v grid - v = (of_int (js_round (v / grid)) - v / grid) * grid"
    using assms by (simp add: snapToGrid_def field_simps)
  then have "\<bar>snapToGrid v grid - v\<bar> = \<bar>of_int (js_round (v / grid)) - v / grid\<bar> * grid"
    using assms by (simp add: abs_mult)
  also have "\<dots> \<le> (1 / 2) * grid" using js_round_close assms by (intro mult_right_mono) auto
  finally show "\<bar>snapToGrid v grid - v\<bar> \<le> grid / 2" by simp
  show "snapToGrid (snapToGrid v grid) grid = snapToGrid v grid" using assms by (simp add: snapToGrid_def)
qed

lemma selection_box_corners:
  "pointInRect z (getSelectionBox p q) \<longleftrightarrow>
     min (fst p) (fst q) \<le> fst z \<and> fst z \<le> max (fst p) (fst q) \<and> min (snd p) (snd q) \<le> snd z \<and> snd z \<le> max (snd p) (snd q)"
  by (auto simp: pointInRect_def getSelectionBox_def)

lemma screen_canvas_roundtrip:
  assumes "vzoom v \<noteq> 0"
  shows "screenToCanvas (fst (canvasToScreen x y v) + rx c, snd (canvasToScreen x y v) + rY c) c v = (x, y)"
  using assms by (simp add: screenToCanvas_def canvasToScreen_def)

subsection \<open>Sockets\<close>

lemma index_less: "key \<in> set ks \<Longrightarrow> length (takeWhile (\<lambda>k. k \<noteq> key) ks) < length ks"
  by (induction ks) auto

lemma getSocketIndex_key:
  assumes "key \<in> set (getSocketKeys n side)"
  shows "getSocketIndex n key side < getSocketCount n side" and "getSocketKeys n side ! getSocketIndex n key side = key"
proof -
  let ?i = "length (takeWhile (\<lambda>k. k \<noteq> key) (getSocketKeys n side))"
  have "?i < length (getSocketKeys n side)" using assms by (rule index_less)
  then have i: "getSocketIndex n key side = ?i" "?i < getSocketCount n side"
    by (simp_all add: getSocketIndex_def getSocketCount_def)
  then show "getSocketIndex n key side < getSocketCount n side" by simp
  show "getSocketKeys n side ! getSocketIndex n key side = key"
    using i nth_length_takeWhile [of "\<lambda>k. k \<noteq> key"] by (simp add: getSocketCount_def)
qed

lemma socket_rows:
  "getSocketCount n side \<le> getSocketRowCount n"
  by (cases side) (simp_all add: getSocketCount_def getSocketKeys_def getSocketRowCount_def)

lemma socket_height:
  assumes "0 \<le> socketPitch d" and "0 < getSocketCount n side"
  shows "of_nat (getSocketCount n side) * socketPitch d + socketClearanceY d * 2 \<le> getNodeMinHeight d n"
proof -
  have "getSocketCount n side \<le> getSocketLayoutRowCount d n" "getSocketLayoutRowCount d n \<noteq> 0"
    using assms(2) socket_rows [of n side] by (auto simp: getSocketLayoutRowCount_def)
  then show ?thesis using assms(1)
    by (auto simp: getNodeMinHeight_def getSocketDrivenMinHeight_def le_max_iff_disj intro!: mult_right_mono)
qed

lemma socket_center:
  assumes "0 < getSocketCount n side"
  shows "getSocketCenterY d n key side = snd (gn_at n) + getNodeMinHeight d n / 2
    + (of_nat (getSocketIndex n key side) - (of_nat (getSocketCount n side) - 1) / 2) * socketPitch d"
  using assms by (simp add: getSocketCenterY_def Let_def max_def)

subsection \<open>The view\<close>

lemma content_bounds:
  assumes "n \<in> set ns"
  shows "cb_minX (contentBounds d ns) \<le> fst (gn_at n)" and "fst (gn_at n) + nodeWidth d \<le> cb_maxX (contentBounds d ns)"
    and "cb_minY (contentBounds d ns) \<le> snd (gn_at n)" and "snd (gn_at n) + estimateNodeHeight d n \<le> cb_maxY (contentBounds d ns)"
  using assms by (auto simp: contentBounds_def)

lemma fit_zoom:
  assumes "0 < rwidth c" and "0 < w" and "0 < h" and "mode \<noteq> CoverHeight"
  shows "0 < getFitZoom mode c w h t" and "getFitZoom mode c w h t * w \<le> rwidth c"
proof -
  show "0 < getFitZoom mode c w h t" using assms by (cases mode) (auto simp: getFitZoom_def Let_def)
  have "getFitZoom mode c w h t \<le> rwidth c / w" using assms by (cases mode) (auto simp: getFitZoom_def Let_def)
  then show "getFitZoom mode c w h t * w \<le> rwidth c" using assms(2) by (simp add: pos_le_divide_eq)
qed

subsection \<open>Properties\<close>

text \<open>The sockets of a node are inside its card and do not overlap. For a configuration with nonnegative
  pitch and clearance, the centre of every socket is at least half a pitch and the clearance away from
  the upper and the lower edge of the node, and the centres of two sockets of one side are at least one
  pitch apart.\<close>

theorem sockets_spread:
  assumes "0 \<le> socketPitch d" and "key \<in> set (getSocketKeys n side)"
  shows "snd (gn_at n) + socketClearanceY d + socketPitch d / 2 \<le> getSocketCenterY d n key side
    \<and> getSocketCenterY d n key side + socketClearanceY d + socketPitch d / 2 \<le> snd (gn_at n) + getNodeMinHeight d n
    \<and> (\<forall>key' \<in> set (getSocketKeys n side). key' \<noteq> key \<longrightarrow>
         socketPitch d \<le> \<bar>getSocketCenterY d n key side - getSocketCenterY d n key' side\<bar>)"
proof -
  let ?p = "socketPitch d" and ?c = "getSocketCount n side" and ?i = "getSocketIndex n key side"
  have i: "?i < ?c" by (rule getSocketIndex_key(1) [OF assms(2)])
  then have pos: "0 < ?c" by simp
  note center = socket_center [OF pos] and height = socket_height [OF assms(1) pos]
  have "0 \<le> of_nat ?i * ?p" "of_nat ?i * ?p \<le> (of_nat ?c - 1) * ?p"
    using assms(1) i by (auto intro!: mult_right_mono simp: of_nat_diff [symmetric] simp flip: of_nat_Suc)
  then have "snd (gn_at n) + socketClearanceY d + ?p / 2 \<le> getSocketCenterY d n key side
    \<and> getSocketCenterY d n key side + socketClearanceY d + ?p / 2 \<le> snd (gn_at n) + getNodeMinHeight d n"
    using height unfolding center by (simp add: field_simps)
  moreover have "?p \<le> \<bar>getSocketCenterY d n key side - getSocketCenterY d n key' side\<bar>"
    if "key' \<in> set (getSocketKeys n side)" "key' \<noteq> key" for key'
  proof -
    let ?j = "getSocketIndex n key' side"
    have "?i \<noteq> ?j" using getSocketIndex_key(2) assms(2) that by metis
    then have "1 \<le> \<bar>of_nat ?i - of_nat ?j :: rat\<bar>" by (cases ?i ?j rule: linorder_cases) auto
    then have "1 * ?p \<le> \<bar>of_nat ?i - of_nat ?j\<bar> * ?p" using assms(1) by (rule mult_right_mono)
    also have "\<dots> = \<bar>(of_nat ?i - of_nat ?j) * ?p\<bar>" using assms(1) by (simp add: abs_mult)
    also have "(of_nat ?i - of_nat ?j) * ?p = getSocketCenterY d n key side - getSocketCenterY d n key' side"
      unfolding center by (simp add: algebra_simps)
    finally show ?thesis by simp
  qed
  ultimately show ?thesis by blast
qed

abbreviation no_dimensions :: dimension_options where
  "no_dimensions \<equiv> \<lparr>o_nodeWidth = None, o_nodeChromeMinHeight = None, o_nodeBorderWidth = None, o_socketPitch = None,
     o_socketSpacing = None, o_socketHitboxSize = None, o_socketRadius = None, o_socketMarkerWidth = None,
     o_socketMarkerHeight = None, o_socketClearanceY = None, o_nodeBodyPadding = None, o_socketMinRows = None,
     o_socketAnchorMode = None, o_gridSize = None\<rparr>"

abbreviation demo_card :: "point \<Rightarrow> geo_node" where
  "demo_card p \<equiv> \<lparr>gn_id = ''n_1'', gn_at = p, gn_inputs = [''data''], gn_outputs = [''true'', ''false'']\<rparr>"

theorem sockets_spread_witness:
  "24 \<le> \<bar>getSocketCenterY (new_DimensionConfig no_dimensions) (demo_card (0, 0)) ''true'' Output
        - getSocketCenterY (new_DimensionConfig no_dimensions) (demo_card (0, 0)) ''false'' Output\<bar>"
  using sockets_spread [of "new_DimensionConfig no_dimensions" "''true''" "demo_card (0, 0)" Output]
  by (simp add: new_DimensionConfig_def with_default_def getSocketKeys_def)

text \<open>Zooming with the wheel keeps the point under the cursor: the canvas coordinates of the cursor are the
  same before and after, and the new zoom is between a quarter and two, whatever the old one was.\<close>

theorem wheel_zoom_fixes_cursor:
  assumes "vzoom v \<noteq> 0"
  shows "screenToCanvas client container (wheel_zoom deltaY client container v) = screenToCanvas client container v
    \<and> 1 / 4 \<le> vzoom (wheel_zoom deltaY client container v) \<and> vzoom (wheel_zoom deltaY client container v) \<le> 2"
proof -
  define z where "z = clamp (vzoom v * (if deltaY > 0 then 9 / 10 else 11 / 10)) (1 / 4) 2"
  have z: "1 / 4 \<le> z" "z \<le> 2" by (auto simp: z_def clamp_def)
  have step: "(m - (m - (m - p) * (z / vzoom v))) / z = (m - p) / vzoom v" for m p
    using z assms by (simp add: field_simps)
  have "wheel_zoom deltaY client container v =
      \<lparr>vpan = ((fst client - rx container) - ((fst client - rx container) - fst (vpan v)) * (z / vzoom v),
               (snd client - rY container) - ((snd client - rY container) - snd (vpan v)) * (z / vzoom v)), vzoom = z\<rparr>"
    by (simp add: wheel_zoom_def Let_def z_def)
  then show ?thesis using z by (simp add: screenToCanvas_def step)
qed

theorem wheel_zoom_fixes_cursor_witness:
  "screenToCanvas (300, 200) \<lparr>rx = 10, rY = 20, rwidth = 800, rheight = 600\<rparr>
     (wheel_zoom 1 (300, 200) \<lparr>rx = 10, rY = 20, rwidth = 800, rheight = 600\<rparr> \<lparr>vpan = (5, 7), vzoom = 1\<rparr>) = (285, 173)"
  using wheel_zoom_fixes_cursor [of "\<lparr>vpan = (5, 7), vzoom = 1\<rparr>" "(300, 200)" "\<lparr>rx = 10, rY = 20, rwidth = 800, rheight = 600\<rparr>" 1]
  by (simp add: screenToCanvas_def)

text \<open>Fitting the view shows all nodes horizontally: in the modes that fit the width, with a padding that
  is not negative, every node lies between the left and the right edge of the canvas after the fit, the
  content is centred, and the view never zooms in beyond 100 percent.\<close>

theorem fit_view_horizontal:
  assumes "ns \<noteq> []" and "0 < rwidth canvas" and "0 \<le> with_default pad 50" and "mode \<noteq> CoverHeight" and "0 \<le> nodeWidth d"
  shows "\<exists>v. calculateFitView ns d canvas pad mode topPx = Some v \<and> 0 < vzoom v \<and> vzoom v \<le> 1
    \<and> (\<forall>n \<in> set ns. 0 \<le> fst (canvasToScreen (fst (gn_at n)) (snd (gn_at n)) v)
         \<and> fst (canvasToScreen (fst (gn_at n) + nodeWidth d) (snd (gn_at n)) v) \<le> rwidth canvas)
    \<and> fst (canvasToScreen ((cb_minX (contentBounds d ns) + cb_maxX (contentBounds d ns)) / 2) 0 v) = rwidth canvas / 2"
proof -
  let ?b = "contentBounds d ns" and ?p = "with_default pad 50"
  let ?w = "max (cb_maxX ?b - cb_minX ?b + ?p * 2) 1" and ?h = "max (cb_maxY ?b - cb_minY ?b + ?p * 2) 1"
  define z where "z = getFitZoom mode canvas ?w ?h (max 0 topPx)"
  obtain y where v: "calculateFitView ns d canvas pad mode topPx
      = Some \<lparr>vpan = (rwidth canvas / 2 - (cb_minX ?b + cb_maxX ?b) / 2 * z, y), vzoom = z\<rparr>" (is "_ = Some ?v")
    using assms(1) by (simp add: calculateFitView_def Let_def z_def)
  have z: "0 < z" "z * ?w \<le> rwidth canvas"
    unfolding z_def using assms(2,4) by (auto intro!: fit_zoom)
  have "z \<le> 1" unfolding z_def by (cases mode) (auto simp: getFitZoom_def Let_def)
  moreover have "z * (cb_maxX ?b - cb_minX ?b) \<le> z * ?w" using z(1) assms(3) by (intro mult_left_mono) auto
  then have half: "z * (cb_maxX ?b - cb_minX ?b) \<le> rwidth canvas" using z(2) by linarith
  moreover have "0 \<le> x * z + (rwidth canvas / 2 - (cb_minX ?b + cb_maxX ?b) / 2 * z)
      \<and> x * z + (rwidth canvas / 2 - (cb_minX ?b + cb_maxX ?b) / 2 * z) \<le> rwidth canvas"
    if "cb_minX ?b \<le> x" "x \<le> cb_maxX ?b" for x
  proof -
    have "cb_minX ?b * z \<le> x * z" "x * z \<le> cb_maxX ?b * z" using that z(1) by (auto intro: mult_right_mono)
    with half show ?thesis by (simp add: algebra_simps add_divide_distrib)
  qed
  moreover have "cb_minX ?b \<le> fst (gn_at n)" "fst (gn_at n) + nodeWidth d \<le> cb_maxX ?b" if "n \<in> set ns" for n
    using content_bounds [OF that] by auto
  ultimately show ?thesis using v z(1) assms(5) by (intro exI [of _ ?v]) (fastforce simp: canvasToScreen_def)
qed

theorem fit_view_horizontal_witness:
  "\<exists>v. calculateFitView [demo_card (0, 0), demo_card (2000, 0)] (new_DimensionConfig no_dimensions)
         \<lparr>rx = 0, rY = 0, rwidth = 1000, rheight = 800\<rparr> None Contain 0 = Some v \<and> vzoom v \<le> 1"
  using fit_view_horizontal [of "[demo_card (0, 0), demo_card (2000, 0)]" "\<lparr>rx = 0, rY = 0, rwidth = 1000, rheight = 800\<rparr>"
      None Contain "new_DimensionConfig no_dimensions" 0]
  by (auto simp: with_default_def new_DimensionConfig_def)

text \<open>Vertically the fit does not hold when it zooms out: the vertical offset is not scaled by the zoom.
  Two nodes at height 10000, too far apart for a canvas of 1000 by 800 at full size, are both placed above
  the upper edge of the canvas by the fit that should show them.\<close>

theorem fit_view_misses_content:
  "\<exists>v. calculateFitView [demo_card (0, 10000), demo_card (4000, 10000)] (new_DimensionConfig no_dimensions)
         \<lparr>rx = 0, rY = 0, rwidth = 1000, rheight = 800\<rparr> None Contain 0 = Some v
     \<and> snd (canvasToScreen 0 (10000 + estimateNodeHeight (new_DimensionConfig no_dimensions) (demo_card (0, 10000))) v) < 0
     \<and> snd (canvasToScreen 0 (10000 + estimateNodeHeight (new_DimensionConfig no_dimensions) (demo_card (4000, 10000))) v) < 0"
  by (simp add: calculateFitView_def contentBounds_def new_DimensionConfig_def with_default_def Let_def getFitZoom_def
      canvasToScreen_def estimateNodeHeight_def getNodeMinHeight_def getSocketDrivenMinHeight_def
      getSocketLayoutRowCount_def getSocketRowCount_def)

end
