(* ===== verification/Canvas_Paths.thy ===== *)
theory Canvas_Paths
  imports Geometry
begin

section \<open>Paths of connections and what is drawn\<close>

text \<open>
  components/editor_canvas/utils/connection_path.js and hooks/use_connection_culling.js. A path is the
  list of its drawing commands; the source writes the same commands and coordinates into a string. The
  hook keeps a cache of the latest path of each connection, keyed by the positions of its ends.
\<close>

datatype svg_cmd =
    MoveTo point
  | LineTo point
  | QuadTo point point
  | CubicTo point point point

type_synonym svg_path = "svg_cmd list"

definition getBezierPath :: "rat \<Rightarrow> rat \<Rightarrow> rat \<Rightarrow> rat \<Rightarrow> svg_path" where
  "getBezierPath sx sy tx ty =
     (let dx = \<bar>tx - sx\<bar>; controlOffset = max (dx * (1 / 2)) 50
      in [MoveTo (sx, sy), CubicTo (sx + controlOffset, sy) (tx - controlOffset, ty) (tx, ty)])"

definition getBackEdgePath :: "rat \<Rightarrow> rat \<Rightarrow> rat \<Rightarrow> rat \<Rightarrow> svg_path \<times> svg_path \<times> point" where
  "getBackEdgePath sx sy tx ty =
     (let r = 20; rightX = sx + r; leftX = tx - r; bottomY = max sy ty + 80; midBottomX = (rightX + leftX) / 2
      in ([MoveTo (sx, sy), LineTo (rightX, sy), QuadTo (rightX + r, sy) (rightX + r, sy + r),
           LineTo (rightX + r, bottomY - r), QuadTo (rightX + r, bottomY) (rightX, bottomY), LineTo (midBottomX, bottomY)],
          [MoveTo (midBottomX, bottomY), LineTo (leftX, bottomY), QuadTo (leftX - r, bottomY) (leftX - r, bottomY - r),
           LineTo (leftX - r, ty + r), QuadTo (leftX - r, ty) (leftX, ty), LineTo (tx, ty)],
          (midBottomX, bottomY)))"

definition getVerticalStackPath :: "rat \<Rightarrow> rat \<Rightarrow> rat \<Rightarrow> rat \<Rightarrow> svg_path \<times> svg_path" where
  "getVerticalStackPath sx sy tx ty =
     (let r = 16; midX = (sx + tx) / 2; midY = (sy + ty) / 2; rightX = max sx tx + 60; leftX = min sx tx - 60
      in ([MoveTo (sx, sy), LineTo (rightX - r, sy), QuadTo (rightX, sy) (rightX, sy + r),
           LineTo (rightX, midY - r), QuadTo (rightX, midY) (rightX - r, midY), LineTo (midX, midY)],
          [MoveTo (midX, midY), LineTo (leftX + r, midY), QuadTo (leftX, midY) (leftX, midY + r),
           LineTo (leftX, ty - r), QuadTo (leftX, ty) (leftX + r, ty), LineTo (tx, ty)]))"

record path_details =
  pd_paths :: "svg_path list"
  pd_isBackEdge :: bool
  pd_isVerticalStack :: bool
  pd_midpoint :: "point option"

definition getConnectionPath :: "point \<Rightarrow> point \<Rightarrow> bool \<times> bool \<Rightarrow> path_details" where
  "getConnectionPath s t ty =
     (if fst ty then
        (case getVerticalStackPath (fst s) (snd s) (fst t) (snd t) of (p1, p2) \<Rightarrow>
           \<lparr>pd_paths = [p1, p2], pd_isBackEdge = False, pd_isVerticalStack = True,
            pd_midpoint = Some ((fst s + fst t) / 2, (snd s + snd t) / 2)\<rparr>)
      else if snd ty then
        (case getBackEdgePath (fst s) (snd s) (fst t) (snd t) of (p1, p2, m) \<Rightarrow>
           \<lparr>pd_paths = [p1, p2], pd_isBackEdge = True, pd_isVerticalStack = False, pd_midpoint = Some m\<rparr>)
      else \<lparr>pd_paths = [getBezierPath (fst s) (snd s) (fst t) (snd t)], pd_isBackEdge = False,
            pd_isVerticalStack = False, pd_midpoint = None\<rparr>)"

subsection \<open>Culling\<close>

record geo_conn =
  gcn_id :: string
  gcn_source :: string
  gcn_sourceHandle :: string
  gcn_target :: string
  gcn_targetHandle :: string

type_synonym path_cache = "(string, (string \<times> point \<times> point) \<times> path_details) js_map"

text \<open>\<open>getSocketPosition\<close> is the function the canvas passes in; a missing view rectangle shows everything.\<close>

definition isNodeVisible :: "geo_node \<Rightarrow> rect option \<Rightarrow> bool" where
  "isNodeVisible n view_rect =
     (case view_rect of None \<Rightarrow> True
      | Some r \<Rightarrow> fst (gn_at n) < rx r + rwidth r \<and> fst (gn_at n) + 500 > rx r
          \<and> snd (gn_at n) < rY r + rheight r \<and> snd (gn_at n) + 500 > rY r)"

definition getRenderedPath ::
    "(geo_node \<Rightarrow> string \<Rightarrow> socket_side \<Rightarrow> point) \<Rightarrow> geo_conn \<Rightarrow> geo_node \<Rightarrow> geo_node \<Rightarrow> path_cache \<Rightarrow> path_details \<times> path_cache" where
  "getRenderedPath pos c s t cache =
     (let sp = pos s (gcn_sourceHandle c) Output; tp = pos t (gcn_targetHandle c) Input; key = (gcn_id c, sp, tp);
          result = getConnectionPath sp tp (detectConnectionType sp tp)
      in case map_of cache (gcn_id c) of
           Some (k, v) \<Rightarrow> if k = key then (v, cache) else (result, map_set (gcn_id c) (key, result) cache)
         | None \<Rightarrow> (result, map_set (gcn_id c) (key, result) cache))"

definition node_by_id :: "geo_node list \<Rightarrow> (string, geo_node) js_map" where
  "node_by_id ns = foldl (\<lambda>m n. map_set (gn_id n) n m) [] ns"

definition visible_ids :: "geo_node list \<Rightarrow> rect option \<Rightarrow> string list" where
  "visible_ids ns r = unique (map gn_id (filter (\<lambda>n. isNodeVisible n r) ns))"

fun render_loop ::
    "(geo_node \<Rightarrow> string \<Rightarrow> socket_side \<Rightarrow> point) \<Rightarrow> (string, geo_node) js_map \<Rightarrow> string list \<Rightarrow> geo_conn list \<Rightarrow> path_cache
       \<Rightarrow> (geo_conn \<times> path_details) list \<times> path_cache" where
  "render_loop pos byId vis [] cache = ([], cache)"
| "render_loop pos byId vis (c # cs) cache =
     (if gcn_source c \<notin> set vis \<and> gcn_target c \<notin> set vis then render_loop pos byId vis cs cache
      else case (map_of byId (gcn_source c), map_of byId (gcn_target c)) of
             (Some s, Some t) \<Rightarrow>
               (let (d, cache1) = getRenderedPath pos c s t cache; (ds, cache2) = render_loop pos byId vis cs cache1
                in ((c, d) # ds, cache2))
           | _ \<Rightarrow> render_loop pos byId vis cs cache)"

definition renderedConnections ::
    "(geo_node \<Rightarrow> string \<Rightarrow> socket_side \<Rightarrow> point) \<Rightarrow> rect option \<Rightarrow> geo_node list \<Rightarrow> geo_conn list \<Rightarrow> path_cache
       \<Rightarrow> (geo_conn \<times> path_details) list \<times> path_cache" where
  "renderedConnections pos r ns cs cache = render_loop pos (node_by_id ns) (visible_ids ns r) cs cache"

definition visibleNodes :: "geo_node list \<Rightarrow> rect option \<Rightarrow> geo_node list" where
  "visibleNodes ns r = filter (\<lambda>n. isNodeVisible n r) ns"

subsection \<open>The shape of a path\<close>

fun end_point :: "svg_cmd \<Rightarrow> point" where
  "end_point (MoveTo p) = p"
| "end_point (LineTo p) = p"
| "end_point (QuadTo c p) = p"
| "end_point (CubicTo c d p) = p"

text \<open>Paths that are one curve from a point to another: each starts where the one before ended.\<close>

fun joins :: "point \<Rightarrow> svg_path list \<Rightarrow> point \<Rightarrow> bool" where
  "joins s [] t \<longleftrightarrow> s = t"
| "joins s (p # ps) t \<longleftrightarrow> p \<noteq> [] \<and> hd p = MoveTo s \<and> joins (end_point (last p)) ps t"

lemma connection_path_joins: "joins s (pd_paths (getConnectionPath s t ty)) t"
  by (cases s; cases t) (simp add: getConnectionPath_def getVerticalStackPath_def getBackEdgePath_def getBezierPath_def Let_def)

subsection \<open>The cache is transparent\<close>

text \<open>The value of an entry is the path of the positions in its key.\<close>

definition cache_ok :: "path_cache \<Rightarrow> bool" where
  "cache_ok cache \<longleftrightarrow> (\<forall>i k sp tp v. map_of cache i = Some ((k, sp, tp), v) \<longrightarrow>
     v = getConnectionPath sp tp (detectConnectionType sp tp))"

definition plain_path :: "(geo_node \<Rightarrow> string \<Rightarrow> socket_side \<Rightarrow> point) \<Rightarrow> geo_conn \<Rightarrow> geo_node \<Rightarrow> geo_node \<Rightarrow> path_details" where
  "plain_path pos c s t =
     (let sp = pos s (gcn_sourceHandle c) Output; tp = pos t (gcn_targetHandle c) Input
      in getConnectionPath sp tp (detectConnectionType sp tp))"

lemma getRenderedPath_ok:
  assumes "cache_ok cache" and "getRenderedPath pos c s t cache = (d, cache')"
  shows "d = plain_path pos c s t \<and> cache_ok cache'"
proof (cases "map_of cache (gcn_id c)")
  case None
  with assms show ?thesis by (auto simp: getRenderedPath_def Let_def plain_path_def cache_ok_def jsm.get_put split: if_splits)
next
  case (Some e)
  obtain k sp tp v where e: "e = ((k, sp, tp), v)" by (metis surj_pair)
  have v: "v = getConnectionPath sp tp (detectConnectionType sp tp)" using assms(1) Some e unfolding cache_ok_def by blast
  show ?thesis
  proof (cases "(k, sp, tp) = (gcn_id c, pos s (gcn_sourceHandle c) Output, pos t (gcn_targetHandle c) Input)")
    case True
    with assms v Some e show ?thesis by (auto simp: getRenderedPath_def Let_def plain_path_def)
  next
    case False
    with assms v Some e have "d = plain_path pos c s t" and cache': "cache' = map_set (gcn_id c) ((gcn_id c,
        pos s (gcn_sourceHandle c) Output, pos t (gcn_targetHandle c) Input), plain_path pos c s t) cache"
      by (auto simp: getRenderedPath_def Let_def plain_path_def)
    moreover have "cache_ok cache'" using assms(1) unfolding cache' cache_ok_def
      by (auto simp: jsm.get_put plain_path_def Let_def split: if_splits)
    ultimately show ?thesis by blast
  qed
qed

definition drawn :: "(string, geo_node) js_map \<Rightarrow> string list \<Rightarrow> geo_conn \<Rightarrow> bool" where
  "drawn byId vis c \<longleftrightarrow> (gcn_source c \<in> set vis \<or> gcn_target c \<in> set vis)
     \<and> map_of byId (gcn_source c) \<noteq> None \<and> map_of byId (gcn_target c) \<noteq> None"

lemma render_loop_ok:
  "cache_ok cache \<Longrightarrow> render_loop pos byId vis cs cache = (ds, cache') \<Longrightarrow>
   ds = map (\<lambda>c. (c, plain_path pos c (the (map_of byId (gcn_source c))) (the (map_of byId (gcn_target c)))))
          (filter (drawn byId vis) cs) \<and> cache_ok cache'"
proof (induction cs arbitrary: cache ds cache')
  case Nil
  then show ?case by simp
next
  case (Cons c cs)
  show ?case
  proof (cases "drawn byId vis c")
    case True
    then obtain s t where st: "map_of byId (gcn_source c) = Some s" "map_of byId (gcn_target c) = Some t"
      by (auto simp: drawn_def)
    obtain d cache1 where d: "getRenderedPath pos c s t cache = (d, cache1)" by fastforce
    obtain ds2 cache2 where r: "render_loop pos byId vis cs cache1 = (ds2, cache2)" by fastforce
    note ok = getRenderedPath_ok [OF Cons.prems(1) d]
    have "\<not> (gcn_source c \<notin> set vis \<and> gcn_target c \<notin> set vis)" using True by (auto simp: drawn_def)
    then have "ds = (c, d) # ds2 \<and> cache' = cache2" using Cons.prems(2) st d r by (auto split: if_splits)
    with Cons.IH [OF _ r] ok st True r show ?thesis by simp
  next
    case False
    then have "render_loop pos byId vis cs cache = (ds, cache')"
      using Cons.prems(2) by (auto simp: drawn_def split: if_splits option.splits)
    with Cons.IH [OF Cons.prems(1)] False show ?thesis by simp
  qed
qed

subsection \<open>Properties\<close>

lemma node_by_id_lookup: "map_of (node_by_id ns) = map_of (rev (map (\<lambda>n. (gn_id n, n)) ns))"
proof -
  have "foldl (\<lambda>m n. map_set (gn_id n) n m) m ns = foldl (\<lambda>acc (k, v). map_set k v acc) m (map (\<lambda>n. (gn_id n, n)) ns)" for m
    by (induction ns arbitrary: m) auto
  then show ?thesis using jsm.get_put_all [of "[]" "map (\<lambda>n. (gn_id n, n)) ns"] by (simp add: node_by_id_def)
qed

lemma view_axis:
  assumes "0 < z" and "0 \<le> x * z + p" and "x * z + p \<le> (w :: rat)"
  shows "- p / z - 300 < x \<and> x < - p / z - 300 + (w / z + 300 * 2)"
proof -
  have "0 \<le> (x * z + p) / z" "(x * z + p) / z \<le> w / z" using assms by (auto intro: divide_right_mono)
  moreover have "(x * z + p) / z = x + p / z" using assms(1) by (simp add: add_divide_distrib)
  ultimately show ?thesis by simp
qed

text \<open>The view rectangle covers what is on screen: a point of the screen is inside it.\<close>

lemma view_rect_covers:
  assumes "0 < vzoom v" and "0 \<le> fst p" "fst p \<le> rwidth c" and "0 \<le> snd p" "snd p \<le> rheight c"
    and "p = canvasToScreen x y v"
  shows "rx (updateViewRect c v) < x \<and> x < rx (updateViewRect c v) + rwidth (updateViewRect c v)
    \<and> rY (updateViewRect c v) < y \<and> y < rY (updateViewRect c v) + rheight (updateViewRect c v)"
  using view_axis [OF assms(1), of x "fst (vpan v)" "rwidth c"] view_axis [OF assms(1), of y "snd (vpan v)" "rheight c"] assms(2-6)
  by (simp add: updateViewRect_def canvasToScreen_def)

text \<open>C21: What is drawn does not depend on the cache. For every cache the hook can hold (each entry is the path
  of the positions in its key), the rendered connections are exactly those with a visible end whose nodes
  both exist, in order, each with the path computed from the current positions of its sockets as one
  curve from the source socket to the target socket; and the new cache is such a cache again.\<close>

theorem rendered_connections_spec:
  assumes "cache_ok cache" and "renderedConnections pos r ns cs cache = (ds, cache')"
  shows "map fst ds = filter (drawn (node_by_id ns) (visible_ids ns r)) cs \<and> cache_ok cache'
    \<and> (\<forall>(c, d) \<in> set ds. \<exists>s t. map_of (node_by_id ns) (gcn_source c) = Some s \<and> map_of (node_by_id ns) (gcn_target c) = Some t
          \<and> d = plain_path pos c s t
          \<and> joins (pos s (gcn_sourceHandle c) Output) (pd_paths d) (pos t (gcn_targetHandle c) Input))"
proof -
  note res = render_loop_ok [OF assms(1) assms(2) [unfolded renderedConnections_def]]
  have "\<exists>s t. map_of (node_by_id ns) (gcn_source c) = Some s \<and> map_of (node_by_id ns) (gcn_target c) = Some t
      \<and> d = plain_path pos c s t
      \<and> joins (pos s (gcn_sourceHandle c) Output) (pd_paths d) (pos t (gcn_targetHandle c) Input)"
    if "(c, d) \<in> set ds" for c d
  proof -
    from that res have c: "drawn (node_by_id ns) (visible_ids ns r) c"
      and d: "d = plain_path pos c (the (map_of (node_by_id ns) (gcn_source c))) (the (map_of (node_by_id ns) (gcn_target c)))"
      by auto
    from c obtain s t where "map_of (node_by_id ns) (gcn_source c) = Some s" "map_of (node_by_id ns) (gcn_target c) = Some t"
      by (auto simp: drawn_def)
    with d show ?thesis by (auto simp: plain_path_def Let_def connection_path_joins)
  qed
  then show ?thesis using res by (auto simp: o_def)
qed

abbreviation demo_link :: geo_conn where
  "demo_link \<equiv> \<lparr>gcn_id = ''c'', gcn_source = ''a'', gcn_sourceHandle = ''out'', gcn_target = ''b'', gcn_targetHandle = ''in''\<rparr>"

abbreviation demo_at :: "string \<Rightarrow> point \<Rightarrow> geo_node" where
  "demo_at i p \<equiv> \<lparr>gn_id = i, gn_at = p, gn_inputs = [''in''], gn_outputs = [''out'']\<rparr>"

theorem rendered_connections_spec_witness:
  "map fst (fst (renderedConnections (getSocketPosition (new_DimensionConfig no_dimensions)) None
      [demo_at ''a'' (0, 0), demo_at ''b'' (400, 0)] [demo_link] [])) = [demo_link]"
  using rendered_connections_spec [of "[]" "getSocketPosition (new_DimensionConfig no_dimensions)" None
      "[demo_at ''a'' (0, 0), demo_at ''b'' (400, 0)]" "[demo_link]"
      "fst (renderedConnections (getSocketPosition (new_DimensionConfig no_dimensions)) None
        [demo_at ''a'' (0, 0), demo_at ''b'' (400, 0)] [demo_link] [])"
      "snd (renderedConnections (getSocketPosition (new_DimensionConfig no_dimensions)) None
        [demo_at ''a'' (0, 0), demo_at ''b'' (400, 0)] [demo_link] [])"]
  by (simp add: cache_ok_def drawn_def node_by_id_def visible_ids_def isNodeVisible_def map_set_def set_unique)

text \<open>C22: Culling never hides a node that is on screen: if some point of the card of a node is inside the canvas
  at the current pan and zoom, and the card is not larger than the bound the hook assumes, the node counts
  as visible for the view rectangle of that pan and zoom.\<close>

theorem culling_keeps_visible:
  assumes "0 < vzoom v" and "nodeWidth d \<le> 500" and "estimateNodeHeight d n \<le> 500"
    and "pointInRect (x, y) (getNodeBounds d n)" and "pointInRect (canvasToScreen x y v) (container\<lparr>rx := 0, rY := 0\<rparr>)"
  shows "isNodeVisible n (Some (updateViewRect container v))"
proof -
  have "rx (updateViewRect container v) < x \<and> x < rx (updateViewRect container v) + rwidth (updateViewRect container v)
    \<and> rY (updateViewRect container v) < y \<and> y < rY (updateViewRect container v) + rheight (updateViewRect container v)"
    using assms(5) by (intro view_rect_covers [OF assms(1) _ _ _ _ refl]) (simp_all add: pointInRect_def)
  then show ?thesis using assms(2,3,4) by (auto simp: isNodeVisible_def pointInRect_def getNodeBounds_def)
qed

theorem culling_keeps_visible_witness:
  "isNodeVisible (demo_at ''a'' (100, 100)) (Some (updateViewRect \<lparr>rx = 5, rY = 5, rwidth = 800, rheight = 600\<rparr> \<lparr>vpan = (0, 0), vzoom = 1\<rparr>))"
  by (rule culling_keeps_visible [of _ "new_DimensionConfig no_dimensions" _ 110 110])
    (simp_all add: new_DimensionConfig_def with_default_def estimateNodeHeight_def getNodeMinHeight_def
      getSocketDrivenMinHeight_def getSocketLayoutRowCount_def getSocketRowCount_def pointInRect_def getNodeBounds_def canvasToScreen_def)

end
