(* ===== verification/Panel_Rows.thy ===== *)
theory Panel_Rows
  imports Store "HOL-Library.Product_Lexorder" "HOL-Library.Multiset"
begin

section \<open>The parameter form of a node (components/node_config_panel.js)\<close>

text \<open>
  How the configuration panel arranges the controls of a node: which are visible for the current values, in which
  section they stand, and how a section is cut into rows. A control is the object of its metadata, as the
  adapter hands it out (\<open>control_view\<close>).
\<close>

definition ctl_key :: "jsobj \<Rightarrow> string" where
  "ctl_key c = js_string (js_prop (JObj c) ''key'')"

definition TRIGGER_NODE_TYPES :: "string list" where
  "TRIGGER_NODE_TYPES = [''manual_trigger'', ''schedule_trigger'', ''webhook_trigger'', ''record_event_trigger'']"

definition normalizeTriggerFields :: "jsval \<Rightarrow> string list" where
  "normalizeTriggerFields v =
     List.map_filter (\<lambda>x. case x of JStr s \<Rightarrow> if js_trim s \<noteq> [] then Some (js_trim s) else None | _ \<Rightarrow> None) (arr_items v)"

subsection \<open>Visibility and sections\<close>

definition condition_holds :: "jsobj \<Rightarrow> string \<times> jsval \<Rightarrow> bool" where
  "condition_holds vals cond =
     (let v = js_prop (JObj vals) (fst cond)
      in case snd cond of
           JArr allowed \<Rightarrow> v \<in> set allowed
         | JStr s \<Rightarrow> v = JStr s
         | _ \<Rightarrow> True)"

definition evalVisibleWhen :: "jsobj \<Rightarrow> jsval \<Rightarrow> bool" where
  "evalVisibleWhen vals conditions = list_all (condition_holds vals) (own_props conditions)"

definition isControlVisible :: "jsobj \<Rightarrow> jsobj \<Rightarrow> bool" where
  "isControlVisible vals c =
     (let cond = js_prop (JObj c) ''visibleWhen'' in \<not> (truthy cond \<and> \<not> evalVisibleWhen vals cond))"

definition getRenderedSectionKey :: "string \<Rightarrow> jsobj \<Rightarrow> string" where
  "getRenderedSectionKey nodeType c =
     (if nodeType = ''http'' \<and> js_prop (JObj c) ''key'' = JStr ''query_params'' then ''params''
      else if truthy (js_prop (JObj c) ''section'') then js_string (js_prop (JObj c) ''section'') else ''general'')"

definition HTTP_SECTIONS :: "string list" where
  "HTTP_SECTIONS = [''request'', ''headers'', ''authentication'', ''params'', ''body'', ''settings'']"

definition getSectionSortRank :: "string \<Rightarrow> string \<Rightarrow> nat" where
  "getSectionSortRank nodeType sectionKey =
     (if nodeType = ''http'' \<and> sectionKey \<in> set HTTP_SECTIONS
      then length (takeWhile (\<lambda>s. s \<noteq> sectionKey) HTTP_SECTIONS) else 2 ^ 53 - 1)"

definition SECTION_ICONS :: "(string \<times> string) list" where
  "SECTION_ICONS =
     [(''general'', ''fa-cube''), (''operation'', ''fa-sliders''), (''target'', ''fa-bullseye''), (''search'', ''fa-search''),
      (''values'', ''fa-pencil-square-o''), (''params'', ''fa-sliders''), (''trigger'', ''fa-bolt''), (''webhook'', ''fa-link''),
      (''filters'', ''fa-filter''), (''runtime'', ''fa-play-circle''), (''request'', ''fa-globe''), (''authentication'', ''fa-lock''),
      (''body'', ''fa-file-text-o''), (''headers'', ''fa-list-ul''), (''settings'', ''fa-cog'')]"

definition getSectionIcon :: "string \<Rightarrow> string" where
  "getSectionIcon section_key = (case map_of SECTION_ICONS section_key of Some i \<Rightarrow> i | None \<Rightarrow> ''fa-cube'')"

definition formatSectionName :: "string \<Rightarrow> string" where
  "formatSectionName s =
     (if s = ''webhook'' then ''Webhook'' else if s = ''params'' then ''Params'' else if s = ''filters'' then ''Filters''
      else if s = ''trigger'' then ''Trigger''
      else case s of [] \<Rightarrow> [] | c # cs \<Rightarrow> upper_char c @ cs)"

subsection \<open>Rows\<close>

record row_plan =
  rp_id :: string
  rp_keys :: "string list"
  rp_kind :: string
  rp_class :: string
  rp_cells :: "string list"

record control_row =
  cr_id :: string
  cr_className :: string
  cr_kind :: string
  cr_cells :: "(jsobj \<times> string) list"

definition inline_plan :: "string \<Rightarrow> string list \<Rightarrow> string list \<Rightarrow> row_plan" where
  "inline_plan i ks cells =
     \<lparr>rp_id = i, rp_keys = ks, rp_kind = ''default'', rp_class = ''ncp-control-row--keep-inline-md'', rp_cells = cells\<rparr>"

definition getControlRowPlans :: "string \<Rightarrow> row_plan list" where
  "getControlRowPlans sectionKey =
     (if sectionKey = ''general''
      then [inline_plan ''model-event'' [''model_name'', ''trigger_event''] [''ncp-control-cell--span-8'', ''ncp-control-cell--span-4'']]
      else if sectionKey = ''operation''
      then [inline_plan ''operation-model'' [''operation'', ''model''] [''ncp-control-cell--span-4'', ''ncp-control-cell--span-8'']]
      else if sectionKey = ''request''
      then [\<lparr>rp_id = ''method-url'', rp_keys = [''method'', ''url''], rp_kind = ''url-shell'', rp_class = ''ncp-control-row--url-shell'',
             rp_cells = [''ncp-control-cell--span-2'', ''ncp-control-cell--span-10'']\<rparr>,
            \<lparr>rp_id = ''path-params'', rp_keys = [''path_params''], rp_kind = ''default'', rp_class = [],
             rp_cells = [''ncp-control-cell--full'']\<rparr>]
      else if sectionKey = ''trigger''
      then [inline_plan ''interval-row'' [''interval_number'', ''interval_type''] [''ncp-control-cell--span-4'', ''ncp-control-cell--span-8'']]
      else if sectionKey = ''webhook''
      then [inline_plan ''webhook-options'' [''http_method'', ''response_mode''] [''ncp-control-cell--span-6'', ''ncp-control-cell--span-6'']]
      else [])"

definition controlByKey :: "jsobj list \<Rightarrow> (string, jsobj) js_map" where
  "controlByKey cs = foldl (\<lambda>m c. map_set (ctl_key c) c m) [] cs"

definition cell_class :: "row_plan \<Rightarrow> nat \<Rightarrow> string" where
  "cell_class plan i =
     (if i < length (rp_cells plan) \<and> rp_cells plan ! i \<noteq> [] then rp_cells plan ! i else ''ncp-control-cell--span-6'')"

definition plan_row :: "string \<Rightarrow> (string, jsobj) js_map \<Rightarrow> row_plan \<Rightarrow> control_row option" where
  "plan_row sectionKey m plan =
     map_option (\<lambda>cs. \<lparr>cr_id = sectionKey @ '':'' @ rp_id plan, cr_className = rp_class plan, cr_kind = rp_kind plan,
                       cr_cells = zip cs (map (cell_class plan) [0..<length cs])\<rparr>)
       (those (map (map_of m) (rp_keys plan)))"

definition single_row :: "string \<Rightarrow> jsobj \<Rightarrow> control_row" where
  "single_row sectionKey c =
     \<lparr>cr_id = sectionKey @ '':'' @ ctl_key c, cr_className = ''ncp-control-row--single'', cr_kind = ''default'',
      cr_cells = [(c, ''ncp-control-cell--full'')]\<rparr>"

fun planned_rows :: "string \<Rightarrow> (string, jsobj) js_map \<Rightarrow> row_plan list \<Rightarrow> control_row list \<times> string list" where
  "planned_rows sectionKey m [] = ([], [])"
| "planned_rows sectionKey m (plan # plans) =
     (let (rows, consumed) = planned_rows sectionKey m plans
      in case plan_row sectionKey m plan of
           None \<Rightarrow> (rows, consumed)
         | Some row \<Rightarrow> (row # rows, rp_keys plan @ consumed))"

definition buildControlRows :: "string \<Rightarrow> jsobj list \<Rightarrow> control_row list" where
  "buildControlRows sectionKey cs =
     (let (rows, consumed) = planned_rows sectionKey (controlByKey cs) (getControlRowPlans sectionKey)
      in rows @ map (single_row sectionKey) (filter (\<lambda>c. ctl_key c \<notin> set consumed) cs))"

subsection \<open>Groups\<close>

record control_group =
  cg_key :: string
  cg_name :: string
  cg_icon :: string
  cg_controls :: "jsobj list"
  cg_order :: nat

definition add_to_group :: "string \<Rightarrow> jsobj \<Rightarrow> (string \<times> control_group) list \<Rightarrow> (string \<times> control_group) list" where
  "add_to_group section_key c gs =
     (case map_of gs section_key of
        None \<Rightarrow>
          obj_set section_key \<lparr>cg_key = section_key, cg_name = formatSectionName section_key, cg_icon = getSectionIcon section_key,
                               cg_controls = [c], cg_order = length gs\<rparr> gs
      | Some g \<Rightarrow> obj_set section_key (g\<lparr>cg_controls := cg_controls g @ [c]\<rparr>) gs)"

definition control_groups :: "string \<Rightarrow> jsobj \<Rightarrow> jsobj list \<Rightarrow> (string \<times> control_group) list" where
  "control_groups nodeType vals cs =
     foldl (\<lambda>gs c. if isControlVisible vals c then add_to_group (getRenderedSectionKey nodeType c) c gs else gs) [] cs"

definition groupedControls :: "string \<Rightarrow> jsobj \<Rightarrow> jsobj list \<Rightarrow> (control_group \<times> control_row list) list" where
  "groupedControls nodeType vals cs =
     map (\<lambda>g. (g, buildControlRows (cg_key g) (cg_controls g)))
       (sort_key (\<lambda>g. (getSectionSortRank nodeType (cg_key g), cg_order g))
         (map snd (control_groups nodeType vals cs)))"

definition row_controls :: "control_row list \<Rightarrow> jsobj list" where
  "row_controls rows = concat (map (\<lambda>r. map fst (cr_cells r)) rows)"

subsection \<open>Every control of a section stands in exactly one row\<close>

lemma those_Some_iff: "those xs = Some ys \<longleftrightarrow> xs = map Some ys"
  by (induction xs arbitrary: ys) (auto split: option.splits simp: Cons_eq_map_conv)

lemma controlByKey_get:
  "distinct (map ctl_key cs) \<Longrightarrow> map_of (controlByKey cs) k = Some c \<longleftrightarrow> c \<in> set cs \<and> ctl_key c = k"
proof (induction cs rule: rev_induct)
  case (snoc x xs)
  then show ?case by (auto simp: controlByKey_def jsm.get_put image_iff)
qed (simp add: controlByKey_def)

lemma plan_row_cells:
  assumes "distinct (map ctl_key cs)" and "plan_row s (controlByKey cs) plan = Some row"
  shows "map ctl_key (row_controls [row]) = rp_keys plan \<and> set (row_controls [row]) \<subseteq> set cs"
proof -
  obtain xs where xs: "map (map_of (controlByKey cs)) (rp_keys plan) = map Some xs"
    and row: "row_controls [row] = xs"
    using assms(2) by (auto simp: plan_row_def those_Some_iff row_controls_def)
  have "map_of (controlByKey cs) (rp_keys plan ! i) = Some (xs ! i)" if "i < length xs" for i
    using that xs by (metis length_map nth_map)
  then have "xs ! i \<in> set cs \<and> ctl_key (xs ! i) = rp_keys plan ! i" if "i < length xs" for i
    using that controlByKey_get [OF assms(1)] by blast
  moreover have "length xs = length (rp_keys plan)" using xs by (metis length_map)
  ultimately show ?thesis unfolding row by (auto simp: in_set_conv_nth intro: nth_equalityI)
qed

lemma planned_cells:
  assumes "distinct (map ctl_key cs)" and "planned_rows s (controlByKey cs) plans = (rows, consumed)"
  shows "map ctl_key (row_controls rows) = consumed \<and> set (row_controls rows) \<subseteq> set cs
    \<and> (distinct (concat (map rp_keys plans)) \<longrightarrow> distinct consumed) \<and> set consumed \<subseteq> set (concat (map rp_keys plans))"
  using assms(2)
proof (induction plans arbitrary: rows consumed)
  case (Cons plan plans)
  obtain rs ks where rec: "planned_rows s (controlByKey cs) plans = (rs, ks)" by (cases "planned_rows s (controlByKey cs) plans")
  show ?case
  proof (cases "plan_row s (controlByKey cs) plan")
    case None
    then show ?thesis using Cons.prems rec Cons.IH [OF rec] by auto
  next
    case (Some row)
    then have "rows = row # rs" "consumed = rp_keys plan @ ks" using Cons.prems rec by auto
    then show ?thesis using Cons.IH [OF rec] plan_row_cells [OF assms(1) Some] by (auto simp: row_controls_def)
  qed
qed (simp add: row_controls_def)

lemma plans_distinct: "distinct (concat (map rp_keys (getControlRowPlans s)))"
  by (simp add: getControlRowPlans_def inline_plan_def)

lemma rows_controls:
  assumes "distinct (map ctl_key cs)"
  shows "mset (row_controls (buildControlRows s cs)) = mset cs"
proof -
  obtain rows ks where pl: "planned_rows s (controlByKey cs) (getControlRowPlans s) = (rows, ks)"
    by (cases "planned_rows s (controlByKey cs) (getControlRowPlans s)")
  note facts = planned_cells [OF assms pl]
  let ?rest = "filter (\<lambda>c. ctl_key c \<notin> set ks) cs"
  have split: "row_controls (buildControlRows s cs) = row_controls rows @ ?rest"
    by (simp add: buildControlRows_def pl row_controls_def single_row_def comp_def concat_map_singleton)
  have keys: "set (row_controls rows) = {c \<in> set cs. ctl_key c \<in> set ks}"
  proof -
    have "c \<in> set (row_controls rows)" if c: "c \<in> set cs" "ctl_key c \<in> set ks" for c
    proof -
      have "ctl_key c \<in> ctl_key ` set (row_controls rows)" using c(2) facts by (metis list.set_map)
      then obtain d where "d \<in> set (row_controls rows)" "ctl_key d = ctl_key c" by auto
      moreover from this have "d = c" using c(1) facts assms by (auto simp: distinct_map dest: inj_onD)
      ultimately show ?thesis by simp
    qed
    then show ?thesis using facts by auto
  qed
  have "distinct (row_controls rows)" using facts plans_distinct by (metis distinct_map)
  moreover have "distinct cs" using assms by (metis distinct_map)
  ultimately show ?thesis
    unfolding split by (subst set_eq_iff_mset_eq_distinct [symmetric]) (auto simp: keys)
qed

subsection \<open>The groups are the sections of the visible controls\<close>

definition in_section :: "string \<Rightarrow> jsobj \<Rightarrow> string \<Rightarrow> jsobj \<Rightarrow> bool" where
  "in_section nodeType vals s c \<longleftrightarrow> isControlVisible vals c \<and> getRenderedSectionKey nodeType c = s"

definition groups_ok :: "string \<Rightarrow> jsobj \<Rightarrow> jsobj list \<Rightarrow> (string \<times> control_group) list \<Rightarrow> bool" where
  "groups_ok nodeType vals cs gs \<longleftrightarrow> distinct (map_keys gs)
     \<and> (\<forall>s. (map_of gs s = None) = (filter (in_section nodeType vals s) cs = []))
     \<and> (\<forall>s g. map_of gs s = Some g \<longrightarrow>
          cg_key g = s \<and> cg_controls g = filter (in_section nodeType vals s) cs \<and> cg_order g < length gs)
     \<and> (\<forall>s g s' g'. map_of gs s = Some g \<and> map_of gs s' = Some g' \<and> cg_order g = cg_order g' \<longrightarrow> s = s')"

lemma length_obj_set: "distinct (map_keys m) \<Longrightarrow> length (obj_set k v m) = (case map_of m k of None \<Rightarrow> Suc (length m) | Some _ \<Rightarrow> length m)"
proof -
  assume d: "distinct (map_keys m)"
  have "length (obj_set k v m) = card (insert k (set (map_keys m)))"
    using jso.distinct_put [OF d, of k v] jso.set_keys_put [of k v m] by (metis distinct_card length_map)
  moreover have "length m = card (set (map_keys m))" using d by (metis distinct_card length_map)
  moreover have "(map_of m k = None) = (k \<notin> set (map_keys m))" by (simp add: map_of_eq_None_iff)
  ultimately show ?thesis by (cases "map_of m k") (simp_all add: card_insert_if)
qed


lemma groups_ok_add:
  assumes ok: "groups_ok nt vals cs gs" and vis: "isControlVisible vals c" and s: "getRenderedSectionKey nt c = s"
  shows "groups_ok nt vals (cs @ [c]) (add_to_group s c gs)"
proof -
  have d: "distinct (map_keys gs)" using ok by (simp add: groups_ok_def)
  have sec: "in_section nt vals t c = (t = s)" for t using vis s by (auto simp: in_section_def)
  define g where "g = (case map_of gs s of
      None \<Rightarrow> \<lparr>cg_key = s, cg_name = formatSectionName s, cg_icon = getSectionIcon s, cg_controls = [c], cg_order = length gs\<rparr>
    | Some h \<Rightarrow> h\<lparr>cg_controls := cg_controls h @ [c]\<rparr>)"
  have add: "add_to_group s c gs = obj_set s g gs" by (simp add: add_to_group_def g_def split: option.splits)
  have cg: "cg_key g = s" "cg_controls g = filter (in_section nt vals s) (cs @ [c])" "cg_order g < length (obj_set s g gs)"
    using ok d by (auto simp: g_def groups_ok_def length_obj_set sec split: option.splits simp del: map_of_eq_Some_iff intro: less_SucI)
  have fresh: "t = s" if "map_of gs t = Some h" "cg_order h = cg_order g" for t h
    using ok that by (cases "map_of gs s")
      (auto simp: g_def groups_ok_def simp del: map_of_eq_Some_iff dest: spec [of _ t])
  have get: "map_of (obj_set s g gs) = (map_of gs)(s \<mapsto> g)" by (rule jso.get_put)
  have len: "cg_order h < length (obj_set s g gs)" if "map_of gs t = Some h" for t h
    using ok that by (auto simp: groups_ok_def length_obj_set [OF d] simp del: map_of_eq_Some_iff split: option.split intro: less_SucI)
  show ?thesis
    unfolding add groups_ok_def get
  proof (intro conjI allI impI)
    show "distinct (map_keys (obj_set s g gs))" by (rule jso.distinct_put [OF d])
    show "(((map_of gs)(s \<mapsto> g)) t = None) = (filter (in_section nt vals t) (cs @ [c]) = [])" for t
      using ok by (simp add: groups_ok_def sec)
    fix t h assume h: "((map_of gs)(s \<mapsto> g)) t = Some h"
    show "cg_key h = t" "cg_controls h = filter (in_section nt vals t) (cs @ [c])" "cg_order h < length (obj_set s g gs)"
      using h ok cg len by (auto simp: groups_ok_def sec simp del: map_of_eq_Some_iff split: if_splits)
  next
    fix t h t' h'
    assume "((map_of gs)(s \<mapsto> g)) t = Some h \<and> ((map_of gs)(s \<mapsto> g)) t' = Some h' \<and> cg_order h = cg_order h'"
    then show "t = t'" using ok fresh [of t h] fresh [of t' h']
      by (auto simp: groups_ok_def simp del: map_of_eq_Some_iff split: if_splits)
  qed
qed

lemma control_groups_ok: "groups_ok nt vals cs (control_groups nt vals cs)"
proof (induction cs rule: rev_induct)
  case Nil
  show ?case by (simp add: groups_ok_def control_groups_def)
next
  case (snoc c cs)
  show ?case
  proof (cases "isControlVisible vals c")
    case True
    then have "control_groups nt vals (cs @ [c]) = add_to_group (getRenderedSectionKey nt c) c (control_groups nt vals cs)"
      by (simp add: control_groups_def)
    then show ?thesis using groups_ok_add [OF snoc True refl] by simp
  next
    case False
    then have "in_section nt vals s c = False" for s by (simp add: in_section_def)
    then show ?thesis using snoc False by (simp add: control_groups_def groups_ok_def)
  qed
qed

definition panel_groups :: "string \<Rightarrow> jsobj \<Rightarrow> jsobj list \<Rightarrow> control_group list" where
  "panel_groups nt vals cs = map fst (groupedControls nt vals cs)"

lemma panel_groups_sort:
  "panel_groups nt vals cs =
     sort_key (\<lambda>g. (getSectionSortRank nt (cg_key g), cg_order g)) (map snd (control_groups nt vals cs))"
  by (simp add: panel_groups_def groupedControls_def comp_def)

lemma group_in_map: "g \<in> set (panel_groups nt vals cs) \<longleftrightarrow> (\<exists>s. map_of (control_groups nt vals cs) s = Some g)"
  using control_groups_ok [of nt vals cs] by (force simp: panel_groups_sort groups_ok_def)

lemma panel_group_facts:
  "g \<in> set (panel_groups nt vals cs) \<Longrightarrow> cg_controls g = filter (in_section nt vals (cg_key g)) cs \<and> cg_controls g \<noteq> []"
  using control_groups_ok [of nt vals cs]
  by (auto simp: group_in_map groups_ok_def simp del: map_of_eq_Some_iff) (metis option.distinct(1))

lemma section_has_group:
  "c \<in> set cs \<Longrightarrow> in_section nt vals s c \<Longrightarrow> \<exists>g \<in> set (panel_groups nt vals cs). cg_key g = s"
  using control_groups_ok [of nt vals cs]
  by (fastforce simp: group_in_map groups_ok_def Bex_def filter_empty_conv simp del: map_of_eq_Some_iff)

lemma panel_keys_distinct: "distinct (map cg_key (panel_groups nt vals cs))"
proof -
  let ?gs = "control_groups nt vals cs"
  have ok: "groups_ok nt vals cs ?gs" by (rule control_groups_ok)
  then have "cg_key (snd p) = fst p" if "p \<in> set ?gs" for p
    using that by (cases p) (auto simp: groups_ok_def)
  then have "map cg_key (map snd ?gs) = map_keys ?gs" by simp
  moreover have "distinct (map_keys ?gs)" using ok by (simp add: groups_ok_def)
  ultimately have "distinct (map cg_key (map snd ?gs))" by metis
  moreover have "mset (map cg_key (panel_groups nt vals cs)) = mset (map cg_key (map snd ?gs))"
    unfolding panel_groups_sort mset_map mset_sort ..
  ultimately show ?thesis by (metis mset_eq_imp_distinct_iff)
qed

lemma distinct_group_controls:
  assumes "distinct gs" and "distinct (map cg_key gs)" and "\<forall>g \<in> set gs. cg_controls g = filter (in_section nt vals (cg_key g)) cs"
    and "distinct cs"
  shows "distinct (concat (map cg_controls gs))"
  using assms
proof (induction gs)
  case (Cons a gs)
  then have "set (cg_controls a) \<inter> set (concat (map cg_controls gs)) = {}" by (auto simp: in_section_def) (metis image_eqI)
  then show ?case using Cons by simp
qed simp



end
