(* ===== verification/Drag.thy ===== *)
theory Drag
  imports Store_Inv Geometry
begin

section \<open>Dragging nodes (components/editor_canvas/hooks/use_multi_node_drag.js)\<close>

text \<open>
  The hook that moves the selected nodes with the pointer. Its variables are the record \<open>drag_state\<close>: the
  two animation frames it may have requested are the pending position of a drag frame and a flag for the
  scroll frame. The handlers act on the hook and on the store; the rectangle of the canvas and the
  read-only flag are what the canvas passes in.
\<close>

record root_rect =
  rr_left :: rat
  rr_right :: rat
  rr_top :: rat
  rr_bottom :: rat

record drag_state =
  isDragging :: bool
  startAt :: point
  initialPositions :: "(string, point) js_map"
  lastPositions :: "(string, point) js_map"
  dragIds :: "string list"
  dragFrame :: "point option"
  autoScrollFrame :: bool
  lastPointer :: "point option"

definition new_drag :: drag_state where
  "new_drag = \<lparr>isDragging = False, startAt = (0, 0), initialPositions = [], lastPositions = [], dragIds = [],
               dragFrame = None, autoScrollFrame = False, lastPointer = None\<rparr>"

definition speedFromDistance :: "rat \<Rightarrow> rat" where
  "speedFromDistance gap =
     (let safeDistance = (if gap < 0 then 0 else gap)
      in if safeDistance \<ge> 56 then 0 else (56 - safeDistance) / 56 * 18)"

definition getAutoScrollDelta :: "point \<Rightarrow> root_rect \<Rightarrow> point" where
  "getAutoScrollDelta client r =
     (let leftDist = fst client - rr_left r; rightDist = rr_right r - fst client;
          topDist = snd client - rr_top r; bottomDist = rr_bottom r - snd client
      in (if leftDist < 56 then - speedFromDistance leftDist
          else if rightDist < 56 then speedFromDistance rightDist else 0,
          if topDist < 56 then - speedFromDistance topDist
          else if bottomDist < 56 then speedFromDistance bottomDist else 0))"

definition shouldAutoScroll :: "point \<Rightarrow> root_rect option \<Rightarrow> bool" where
  "shouldAutoScroll client r = (case r of None \<Rightarrow> False | Some r \<Rightarrow> getAutoScrollDelta client r \<noteq> (0, 0))"

text \<open>Where \<open>applyDrag\<close> puts the nodes: the initial position and the way of the pointer, on the grid.\<close>

definition drag_target :: "point \<Rightarrow> rat \<Rightarrow> drag_state \<Rightarrow> point \<Rightarrow> point" where
  "drag_target client z d initial =
     snapPositionToGrid (fst initial + (fst client - fst (startAt d)) / z, snd initial + (snd client - snd (startAt d)) / z) 20"

definition drag_updates :: "point \<Rightarrow> rat \<Rightarrow> drag_state \<Rightarrow> (string \<times> point) list" where
  "drag_updates client z d =
     List.map_filter (\<lambda>i. map_option (\<lambda>p. (i, drag_target client z d p)) (map_of (initialPositions d) i)) (dragIds d)"

definition applyDrag :: "point \<Rightarrow> drag_state \<Rightarrow> store \<Rightarrow> drag_state \<times> store" where
  "applyDrag client d st =
     (let us = drag_updates client (zoom (viewport (ui st))) d
      in (d\<lparr>lastPositions := foldl (\<lambda>m (i, p). map_set i p m) (lastPositions d) us\<rparr>,
          moveNodesTransient (foldl (\<lambda>m (i, p). obj_set i p m) [] us) st))"

definition autoScrollStep :: "root_rect option \<Rightarrow> drag_state \<Rightarrow> store \<Rightarrow> drag_state \<times> store" where
  "autoScrollStep r d st =
     (let d0 = d\<lparr>autoScrollFrame := False\<rparr>
      in case (lastPointer d, r) of
           (Some client, Some rr) \<Rightarrow>
             if \<not> isDragging d then (d0, st)
             else
               (let (dx, dy) = getAutoScrollDelta client rr
                in if dx = 0 \<and> dy = 0 then (d0, st)
                   else
                     (let v = viewport (ui st);
                          st1 = setViewport (Some (fst (pan v) - dx, snd (pan v) - dy)) None st;
                          (d1, st2) = applyDrag client (d0\<lparr>startAt := (fst (startAt d) - dx, snd (startAt d) - dy)\<rparr>) st1
                      in (d1\<lparr>autoScrollFrame := True\<rparr>, st2)))
         | _ \<Rightarrow> (d0, st))"

definition onNodeDragStart :: "bool \<Rightarrow> string \<Rightarrow> point \<Rightarrow> drag_state \<Rightarrow> store \<Rightarrow> drag_state" where
  "onNodeDragStart ro nodeId client d st =
     (if ro then d
      else
        (let selectedIds = sel_nodeIds (selection (ui st));
             nodesToMove = (if nodeId \<in> set selectedIds then selectedIds else [nodeId]);
             positions = foldl (\<lambda>m i. case store_getNode i st of Some n \<Rightarrow> map_set i (ui_x n, ui_y n) m | None \<Rightarrow> m) [] nodesToMove
         in d\<lparr>startAt := client, initialPositions := positions, lastPositions := positions, dragIds := nodesToMove,
              lastPointer := Some client, isDragging := True\<rparr>))"

definition drag_mouseMove :: "bool \<Rightarrow> root_rect option \<Rightarrow> point \<Rightarrow> drag_state \<Rightarrow> bool \<times> drag_state" where
  "drag_mouseMove ro r client d =
     (if ro \<or> \<not> isDragging d then (False, d)
      else
        (let d1 = d\<lparr>lastPointer := Some client, autoScrollFrame := shouldAutoScroll client r\<rparr>
         in (True, if dragFrame d \<noteq> None then d1 else d1\<lparr>dragFrame := Some client\<rparr>)))"

text \<open>The callback of the drag frame.\<close>

definition runDragFrame :: "drag_state \<Rightarrow> store \<Rightarrow> drag_state \<times> store" where
  "runDragFrame d st =
     (case dragFrame d of
        None \<Rightarrow> (d, st)
      | Some client \<Rightarrow>
          (let d1 = d\<lparr>dragFrame := None\<rparr> in if \<not> isDragging d then (d1, st) else applyDrag client d1 st))"

definition drag_moves :: "drag_state \<Rightarrow> node_move list" where
  "drag_moves d =
     List.map_filter
       (\<lambda>i. case map_of (initialPositions d) i of
              None \<Rightarrow> None
            | Some old \<Rightarrow>
                (let new = (case map_of (lastPositions d) i of Some p \<Rightarrow> p | None \<Rightarrow> old)
                 in if old = new then None else Some \<lparr>mv_nodeId = i, mv_old = old, mv_new = new\<rparr>)) (dragIds d)"

definition drag_mouseUp :: "bool \<Rightarrow> drag_state \<Rightarrow> store \<Rightarrow> bool \<times> drag_state \<times> store" where
  "drag_mouseUp ro d st =
     (if ro \<or> \<not> isDragging d then (False, d, st)
      else
        (let moves = drag_moves d
         in (True, d\<lparr>isDragging := False, autoScrollFrame := False, lastPointer := None, dragFrame := None,
                     initialPositions := [], lastPositions := [], dragIds := []\<rparr>,
             if moves \<noteq> [] then recordMoveNodes moves st else st)))"

subsection \<open>Moving nodes without recording\<close>

definition shape_at :: "(string \<rightharpoonup> shape) \<Rightarrow> (string \<rightharpoonup> point) \<Rightarrow> string \<rightharpoonup> shape" where
  "shape_at S m i = (case m i of None \<Rightarrow> S i | Some p \<Rightarrow> map_option (at_position p) (S i))"

lemma shape_at_add: "shape_at (shape_at S m) m' = shape_at S (m ++ m')"
  by (auto simp: shape_at_def fun_eq_iff map_add_def option.map_comp o_def split: option.splits)

lemma shape_at_upd: "shape_at S [i \<mapsto> p] = S(i := map_option (at_position p) (S i))"
  by (auto simp: shape_at_def)

lemma shape_at_empty [simp]: "shape_at S (\<lambda>_. None) = S"
  by (simp add: shape_at_def fun_eq_iff)

lemma shape_at_same:
  assumes "\<And>i p. m i = Some p \<Longrightarrow> \<exists>s. S i = Some s \<and> fst (snd s) = p"
  shows "shape_at S m = S"
  using assms by (fastforce simp: shape_at_def fun_eq_iff at_position_same split: option.splits)

lemma move_entries_target:
  assumes "session_good odoo (graph st)" and "shape_view (graph st) = (S, K)" and "distinct (map fst es)"
  shows "session_good odoo (graph (snd (move_entries es st))) \<and> hist (snd (move_entries es st)) = hist st
    \<and> ui (snd (move_entries es st)) = ui st
    \<and> shape_view (graph (snd (move_entries es st))) = (shape_at S (map_of es), K)"
  using assms
proof (induction es arbitrary: st S)
  case Nil
  then show ?case by simp
next
  case (Cons e es)
  obtain i p where e: "e = (i, p)" by (cases e)
  let ?st = "st\<lparr>graph := snd (adapter_updatePosition i p (graph st))\<rparr>"
  have upd: "map_of es i = None" using Cons.prems(3) e by (force simp: map_of_eq_None_iff)
  have comp: "shape_at (S(i := map_option (at_position p) (S i))) (map_of es) = shape_at S (map_of (e # es))"
    using upd by (simp add: e shape_at_upd [symmetric] shape_at_add map_add_upd_left domIff map_upd_triv)
  consider (none) "store_getNode i st = None" | (same) n where "store_getNode i st = Some n" "(ui_x n, ui_y n) = p"
    | (move) n where "store_getNode i st = Some n" "(ui_x n, ui_y n) \<noteq> p" by (cases "store_getNode i st") auto
  then show ?case
  proof cases
    case none
    then have "S(i := map_option (at_position p) (S i)) = S" using getNode_shape(1) [OF Cons.prems(1,2)] by auto
    with Cons.IH [OF Cons.prems(1,2)] Cons.prems(3) none comp show ?thesis by (simp add: e fun_upd_def)
  next
    case same
    then have "S(i := map_option (at_position p) (S i)) = S"
      using getNode_shape(2) [OF Cons.prems(1,2)] by (fastforce simp: at_position_same)
    with Cons.IH [OF Cons.prems(1,2)] Cons.prems(3) same comp show ?thesis by (auto simp: e fun_upd_def)
  next
    case move
    have "session_good odoo (graph ?st)" using session_good_ops(2) [OF Cons.prems(1)] by simp
    moreover have "shape_view (graph ?st) = (S(i := map_option (at_position p) (S i)), K)"
      using shape_updatePosition [OF Cons.prems(2), of i p] by simp
    ultimately show ?thesis using Cons.IH [of ?st] Cons.prems(3) move comp by (auto simp: e split_beta fun_upd_def)
  qed
qed

subsection \<open>A drag as a state machine\<close>

text \<open>
  What is reachable from the start of a drag at a store \<open>st0\<close> while the button is held: the pointer moves
  and the two kinds of animation frames, in any order; the canvas may change and may become read-only in
  between.
\<close>

inductive drag_reach :: "store \<Rightarrow> string \<Rightarrow> point \<Rightarrow> drag_state \<times> store \<Rightarrow> bool" for st0 nodeId client0 where
  start: "\<not> isDragging d \<Longrightarrow> dragFrame d = None \<Longrightarrow>
    drag_reach st0 nodeId client0 (onNodeDragStart False nodeId client0 d st0, st0)"
| mouse_move: "drag_reach st0 nodeId client0 (d, st) \<Longrightarrow>
    drag_reach st0 nodeId client0 (snd (drag_mouseMove ro r client d), st)"
| drag_frame: "drag_reach st0 nodeId client0 (d, st) \<Longrightarrow> drag_reach st0 nodeId client0 (runDragFrame d st)"
| scroll_frame: "drag_reach st0 nodeId client0 (d, st) \<Longrightarrow> drag_reach st0 nodeId client0 (autoScrollStep r d st)"

inductive_cases drag_reachE: "drag_reach st0 nodeId client0 (d, st)"

definition grid_point :: "point \<Rightarrow> bool" where
  "grid_point p \<longleftrightarrow> (\<exists>a b :: int. p = (of_int a * 20, of_int b * 20))"

lemma snapped_on_grid: "grid_point (snapPositionToGrid p 20)"
  by (auto simp: grid_point_def snapPositionToGrid_def snapToGrid_def)

definition drag_maps_ok :: "(string \<rightharpoonup> shape) \<Rightarrow> drag_state \<Rightarrow> bool" where
  "drag_maps_ok S0 d \<longleftrightarrow> isDragging d \<and> distinct (dragIds d)
     \<and> dom (map_of (initialPositions d)) \<subseteq> set (dragIds d)
     \<and> dom (map_of (lastPositions d)) = dom (map_of (initialPositions d))
     \<and> (\<forall>i p. map_of (initialPositions d) i = Some p \<longrightarrow> (\<exists>s. S0 i = Some s \<and> fst (snd s) = p))
     \<and> (\<forall>i p. map_of (lastPositions d) i = Some p \<longrightarrow> map_of (initialPositions d) i = Some p \<or> grid_point p)"

text \<open>The nodes are where the hook remembers them, nothing is recorded, and the grabbed point of the canvas
  stays under the pointer: scrolling moves the start and the pan together.\<close>

definition drag_inv :: "(string \<times> node_class) list \<Rightarrow> store \<Rightarrow> point \<Rightarrow> drag_state \<times> store \<Rightarrow> bool" where
  "drag_inv odoo st0 client0 = (\<lambda>(d, st).
     session_good odoo (graph st) \<and> hist st = hist st0
     \<and> drag_maps_ok (fst (shape_view (graph st0))) d
     \<and> shape_view (graph st) = (shape_at (fst (shape_view (graph st0))) (map_of (lastPositions d)), snd (shape_view (graph st0)))
     \<and> zoom (viewport (ui st)) = zoom (viewport (ui st0))
     \<and> fst (startAt d) - fst (pan (viewport (ui st))) = fst client0 - fst (pan (viewport (ui st0)))
     \<and> snd (startAt d) - snd (pan (viewport (ui st))) = snd client0 - snd (pan (viewport (ui st0))))"

lemma map_of_drag_updates:
  assumes "distinct (dragIds d)"
  shows "map_of (drag_updates c z d) i = (if i \<in> set (dragIds d) then map_option (drag_target c z d) (map_of (initialPositions d) i) else None)"
    and "distinct (map fst (drag_updates c z d))"
proof -
  have "distinct (map fst (List.map_filter (\<lambda>i. map_option (\<lambda>p. (i, f p)) (m i)) ids))
      \<and> map_of (List.map_filter (\<lambda>i. map_option (\<lambda>p. (i, f p)) (m i)) ids) i = (if i \<in> set ids then map_option f (m i) else None)"
    if "distinct ids" for ids and f :: "point \<Rightarrow> point" and m :: "string \<rightharpoonup> point" and i
    using that
  proof (induction ids arbitrary: i)
    case (Cons j ids)
    have "j \<notin> fst ` set (List.map_filter (\<lambda>i. map_option (\<lambda>p. (i, f p)) (m i)) ids)"
      using Cons.prems by (auto simp: map_filter_def)
    with Cons show ?case by (auto simp: map_filter_simps split: option.splits)
  qed (simp add: map_filter_simps)
  from this [OF assms] show "map_of (drag_updates c z d) i = (if i \<in> set (dragIds d) then map_option (drag_target c z d) (map_of (initialPositions d) i) else None)"
    and "distinct (map fst (drag_updates c z d))" by (simp_all add: drag_updates_def)
qed

lemma applyDrag_inv:
  assumes inv: "drag_inv odoo st0 client0 (d, st)"
  shows "drag_inv odoo st0 client0 (applyDrag client d st)"
proof -
  define us where "us = drag_updates client (zoom (viewport (ui st))) d"
  let ?S0 = "fst (shape_view (graph st0))" and ?obj = "foldl (\<lambda>m (i, p). obj_set i p m) [] us"
  let ?last = "foldl (\<lambda>m (i, p). map_set i p m) (lastPositions d) us"
  have d: "distinct (dragIds d)" "drag_maps_ok ?S0 d" and g: "session_good odoo (graph st)"
    and v: "shape_view (graph st) = (shape_at ?S0 (map_of (lastPositions d)), snd (shape_view (graph st0)))"
    using inv by (simp_all add: drag_inv_def drag_maps_ok_def)
  note us = map_of_drag_updates [OF d(1), where c = client and z = "zoom (viewport (ui st))", folded us_def]
  have rev: "map_of (rev us) = map_of us" using us(2) by (rule map_of_rev_distinct)
  have obj: "map_of ?obj = map_of us" "distinct (map_keys ?obj)"
    using jso.get_put_all [of "[]" us] jso.distinct_put_all [of "[]" us] rev by simp_all
  have last: "map_of ?last = map_of (lastPositions d) ++ map_of us"
    using jsm.get_put_all [of "lastPositions d" us] rev by simp
  have domu: "dom (map_of us) = dom (map_of (initialPositions d))"
    using d(2) by (auto simp: us(1) drag_maps_ok_def split: if_splits)
  have "map_of (initialPositions d) i = Some p \<or> grid_point p" if "map_of ?last i = Some p" for i p
    using that d(2) snapped_on_grid unfolding last map_add_Some_iff us(1) drag_target_def drag_maps_ok_def
    by (auto split: if_splits simp del: split_paired_All split_paired_Ex)
  then have "drag_maps_ok ?S0 (d\<lparr>lastPositions := ?last\<rparr>)"
    using d(2) domu unfolding drag_maps_ok_def by (simp add: last)
  moreover have "applyDrag client d st = (d\<lparr>lastPositions := ?last\<rparr>, moveNodesTransient ?obj st)"
    by (simp add: applyDrag_def Let_def us_def)
  moreover note move_entries_target [OF g v obj(2)]
  ultimately show ?thesis using inv
    by (simp add: drag_inv_def moveNodesTransient_def last obj(1) shape_at_add)
qed

lemma setViewport_fields:
  "graph (setViewport p z st) = graph st" "hist (setViewport p z st) = hist st"
  "viewport (ui (setViewport p z st)) = \<lparr>pan = (case p of Some q \<Rightarrow> q | None \<Rightarrow> pan (viewport (ui st))),
     zoom = (case z of Some r \<Rightarrow> r | None \<Rightarrow> zoom (viewport (ui st)))\<rparr>"
  by (simp_all add: setViewport_def)

text \<open>Fields the invariant does not look at.\<close>

lemma drag_inv_frames:
  "drag_inv odoo st0 c (d\<lparr>autoScrollFrame := b\<rparr>, st) = drag_inv odoo st0 c (d, st)"
  "drag_inv odoo st0 c (d\<lparr>dragFrame := f\<rparr>, st) = drag_inv odoo st0 c (d, st)"
  "drag_inv odoo st0 c (d\<lparr>lastPointer := q\<rparr>, st) = drag_inv odoo st0 c (d, st)"
  by (simp_all add: drag_inv_def drag_maps_ok_def)

lemma autoScroll_inv:
  assumes inv: "drag_inv odoo st0 client0 (d, st)"
  shows "drag_inv odoo st0 client0 (autoScrollStep r d st)"
proof (cases "\<exists>c rr. lastPointer d = Some c \<and> r = Some rr \<and> getAutoScrollDelta c rr \<noteq> (0, 0)")
  case True
  then obtain c rr dx dy where c: "lastPointer d = Some c" "r = Some rr" "getAutoScrollDelta c rr = (dx, dy)" "(dx, dy) \<noteq> (0, 0)"
    by (metis prod.collapse)
  let ?d = "d\<lparr>autoScrollFrame := False, startAt := (fst (startAt d) - dx, snd (startAt d) - dy)\<rparr>"
  let ?st = "setViewport (Some (fst (pan (viewport (ui st))) - dx, snd (pan (viewport (ui st))) - dy)) None st"
  have "drag_inv odoo st0 client0 (?d, ?st)" using inv by (simp add: drag_inv_def drag_maps_ok_def setViewport_fields)
  from applyDrag_inv [OF this, of c] obtain d1 st2 where
    "applyDrag c ?d ?st = (d1, st2)" "drag_inv odoo st0 client0 (d1, st2)" by (metis prod.collapse)
  moreover have "isDragging d" using inv by (simp add: drag_inv_def drag_maps_ok_def)
  ultimately show ?thesis using c by (auto simp: autoScrollStep_def Let_def drag_inv_frames)
next
  case False
  then have "autoScrollStep r d st = (d\<lparr>autoScrollFrame := False\<rparr>, st)"
    by (auto simp: autoScrollStep_def Let_def split: option.splits prod.splits)
  with inv show ?thesis by (simp add: drag_inv_frames)
qed

lemma drag_start_maps:
  assumes g: "session_good odoo (graph st)" and v: "shape_view (graph st) = (S, K)"
    and p: "m' = foldl (\<lambda>m i. case store_getNode i st of Some n \<Rightarrow> map_set i (ui_x n, ui_y n) m | None \<Rightarrow> m) m ids"
    and m: "\<forall>i p. map_of m i = Some p \<longrightarrow> (\<exists>s. S i = Some s \<and> fst (snd s) = p)"
  shows "dom (map_of m') \<subseteq> dom (map_of m) \<union> set ids \<and> (\<forall>i p. map_of m' i = Some p \<longrightarrow> (\<exists>s. S i = Some s \<and> fst (snd s) = p))"
  using m unfolding p
proof (induction ids arbitrary: m)
  case (Cons j ids)
  let ?m = "case store_getNode j st of Some n \<Rightarrow> map_set j (ui_x n, ui_y n) m | None \<Rightarrow> m"
  have "\<forall>i p. map_of ?m i = Some p \<longrightarrow> (\<exists>s. S i = Some s \<and> fst (snd s) = p)"
    using Cons.prems getNode_shape(2) [OF g v] by (auto simp: jsm.get_put simp del: split_paired_All split_paired_Ex split: option.splits)
  from Cons.IH [OF this] show ?case by (auto simp: jsm.get_put split: option.splits)
qed auto

lemma drag_start_inv:
  assumes g: "session_good odoo (graph st0)" and sel: "distinct (sel_nodeIds (selection (ui st0)))"
  shows "drag_inv odoo st0 client0 (onNodeDragStart False nodeId client0 d st0, st0)"
proof -
  obtain S K where v: "shape_view (graph st0) = (S, K)" by fastforce
  let ?d = "onNodeDragStart False nodeId client0 d st0"
  have "dom (map_of (initialPositions ?d)) \<subseteq> set (dragIds ?d)
      \<and> (\<forall>i p. map_of (initialPositions ?d) i = Some p \<longrightarrow> (\<exists>s. S i = Some s \<and> fst (snd s) = p))"
    using drag_start_maps [OF g v, of "initialPositions ?d" "[]" "dragIds ?d"]
    by (simp add: onNodeDragStart_def Let_def)
  moreover have "lastPositions ?d = initialPositions ?d" "distinct (dragIds ?d)" "isDragging ?d" "startAt ?d = client0"
    using sel by (auto simp: onNodeDragStart_def Let_def)
  moreover from calculation(1) have "shape_at S (map_of (initialPositions ?d)) = S" by (intro shape_at_same) blast
  ultimately show ?thesis using g v by (simp add: drag_inv_def drag_maps_ok_def)
qed

lemma drag_reach_inv:
  assumes "drag_reach st0 nodeId client0 s" and "session_good odoo (graph st0)" and "distinct (sel_nodeIds (selection (ui st0)))"
  shows "drag_inv odoo st0 client0 s"
  using assms(1)
proof (induction rule: drag_reach.induct)
  case (start d)
  show ?case by (rule drag_start_inv [OF assms(2,3)])
next
  case (mouse_move d st ro r client)
  then show ?case by (auto simp: drag_mouseMove_def Let_def drag_inv_frames)
next
  case (drag_frame d st)
  show ?case
  proof (cases "dragFrame d")
    case (Some c)
    have "drag_inv odoo st0 client0 (d\<lparr>dragFrame := None\<rparr>, st)" using drag_frame.IH by (simp add: drag_inv_frames)
    from applyDrag_inv [OF this, of c] drag_frame.IH Some show ?thesis
      by (auto simp: runDragFrame_def Let_def drag_inv_def drag_maps_ok_def)
  qed (use drag_frame.IH in \<open>simp add: runDragFrame_def\<close>)
next
  case (scroll_frame d st r)
  show ?case by (rule autoScroll_inv [OF scroll_frame.IH])
qed

subsection \<open>The end of a drag\<close>

lemma drag_moves_spec:
  assumes "drag_maps_ok S0 d"
  shows "distinct (map mv_nodeId (drag_moves d))"
    and "\<forall>m \<in> set (drag_moves d). \<exists>s. S0 (mv_nodeId m) = Some s \<and> fst (snd s) = mv_old m"
    and "shape_at S0 (map_of (lastPositions d)) = shape_at S0 (map_of (map (\<lambda>m. (mv_nodeId m, mv_new m)) (drag_moves d)))"
proof -
  let ?f = "\<lambda>i. case map_of (initialPositions d) i of None \<Rightarrow> None
      | Some old \<Rightarrow> (let new = (case map_of (lastPositions d) i of Some p \<Rightarrow> p | None \<Rightarrow> old)
                      in if old = new then None else Some \<lparr>mv_nodeId = i, mv_old = old, mv_new = new\<rparr>)"
  have f: "?f i = Some m \<Longrightarrow> mv_nodeId m = i" for i m by (auto simp: Let_def split: option.splits if_splits)
  have ids: "distinct ids \<Longrightarrow> distinct (map mv_nodeId (List.map_filter ?f ids))
      \<and> map_of (map (\<lambda>m. (mv_nodeId m, mv_new m)) (List.map_filter ?f ids)) i = (if i \<in> set ids then map_option mv_new (?f i) else None)" for ids i
  proof (induction ids arbitrary: i)
    case (Cons j ids)
    have "j \<notin> mv_nodeId ` set (List.map_filter ?f ids)" using Cons.prems f by (force simp: map_filter_def)
    with Cons f [of j] show ?case by (cases "?f j") (auto simp: map_filter_simps)
  qed (simp add: map_filter_simps)
  have d: "distinct (dragIds d)" using assms by (simp add: drag_maps_ok_def)
  then show "distinct (map mv_nodeId (drag_moves d))" using ids by (simp add: drag_moves_def)
  show "\<forall>m \<in> set (drag_moves d). \<exists>s. S0 (mv_nodeId m) = Some s \<and> fst (snd s) = mv_old m"
    using assms by (fastforce simp: drag_moves_def map_filter_def drag_maps_ok_def Let_def simp del: split_paired_All split_paired_Ex
        split: option.splits if_splits)
  show "shape_at S0 (map_of (lastPositions d)) = shape_at S0 (map_of (map (\<lambda>m. (mv_nodeId m, mv_new m)) (drag_moves d)))"
  proof
    fix i
    have m: "map_of (map (\<lambda>m. (mv_nodeId m, mv_new m)) (drag_moves d)) i = (if i \<in> set (dragIds d) then map_option mv_new (?f i) else None)"
      using ids [OF d] by (simp add: drag_moves_def)
    show "shape_at S0 (map_of (lastPositions d)) i = shape_at S0 (map_of (map (\<lambda>m. (mv_nodeId m, mv_new m)) (drag_moves d))) i"
    proof (cases "map_of (lastPositions d) i")
      case None
      then have "map_of (initialPositions d) i = None" using assms by (auto simp: drag_maps_ok_def)
      with None m show ?thesis by (simp add: shape_at_def)
    next
      case (Some p)
      then obtain q where q: "map_of (initialPositions d) i = Some q" "i \<in> set (dragIds d)"
        using assms unfolding drag_maps_ok_def by blast
      obtain s where "S0 i = Some s" "fst (snd s) = q" using assms q(1) unfolding drag_maps_ok_def by blast
      then show ?thesis using Some q m by (auto simp: shape_at_def Let_def at_position_same)
    qed
  qed
qed

lemma drag_recorded:
  assumes inv: "drag_inv odoo st0 client0 (d, st)" and up: "drag_mouseUp False d st = (b, d', st')"
  shows "recorded_step odoo st0 st'"
proof -
  obtain S K where v: "shape_view (graph st0) = (S, K)" by fastforce
  have ok: "drag_maps_ok S d" and drag: "isDragging d" and h: "hist st = hist st0" and g: "session_good odoo (graph st)"
    and view: "shape_view (graph st) = (shape_at S (map_of (lastPositions d)), K)"
    using inv v by (auto simp: drag_inv_def drag_maps_ok_def)
  note moves = drag_moves_spec [OF ok]
  have st': "st' = (if drag_moves d \<noteq> [] then recordMoveNodes (drag_moves d) st else st)"
    using up drag by (simp add: drag_mouseUp_def Let_def)
  show ?thesis
  proof (cases "drag_moves d = []")
    case True
    then show ?thesis using st' moves(3) view v h g by (simp add: recorded_step_def)
  next
    case False
    have "edits odoo (createMoveNodesAction (drag_moves d)) (S, K) (shape_at S (map_of (lastPositions d)), K)"
      by (rule edits.move_nodes [OF moves(1,2)]) (unfold moves(3), simp add: shape_at_def [abs_def])
    then show ?thesis using False st' view v h g by (auto simp: recorded_step_def recordMoveNodes_def)
  qed
qed

subsection \<open>Properties\<close>


abbreviation demo_store :: store where
  "demo_store \<equiv> snd (store_addNode builtin_classes ''noop'' (0, 0) (start_store builtin_classes))"




end
