(* ===== verification/Canvas_Commands.thy ===== *)
theory Canvas_Commands
  imports Store_Inv Geometry
begin

section \<open>Clipboard, keyboard commands and drawing connections\<close>

text \<open>
  The hooks of the canvas that change the graph: use_clipboard.js, use_workflow_commands.js and
  use_connection_drawing.js under components/editor_canvas/hooks. They act only through the store. The text
  of the system clipboard is an argument, already parsed, or one of the two ways it can be unusable.
\<close>

subsection \<open>Copy and paste\<close>

record clip_node =
  cl_id :: string
  cl_type :: string
  cl_at :: position
  cl_title :: string
  cl_config :: "jsobj option"

record clip_data =
  cl_nodes :: "clip_node list"
  cl_connections :: "ui_conn list"

datatype clip_text = NotJson | NoNodes | Clip clip_data

definition clip_of :: "store \<Rightarrow> ui_node \<Rightarrow> clip_node option" where
  "clip_of st n =
     (case ui_id n of
        Some i \<Rightarrow>
          if i \<in> set (sel_nodeIds (selection (ui st)))
          then Some \<lparr>cl_id = i, cl_type = ui_type n, cl_at = (ui_x n, ui_y n), cl_title = ui_title n,
                     cl_config = Some (adapter_getNodeConfig i (graph st))\<rparr>
          else None
      | None \<Rightarrow> None)"

definition copySelectedNodes :: "bool \<Rightarrow> store \<Rightarrow> clip_data option" where
  "copySelectedNodes ro st =
     (let sel = sel_nodeIds (selection (ui st))
      in if ro \<or> sel = [] then None
         else Some \<lparr>cl_nodes = List.map_filter (clip_of st) (ui_nodes (observer (graph st))),
                    cl_connections = filter (\<lambda>c. uc_source c \<in> set sel \<and> uc_target c \<in> set sel) (ui_conns (observer (graph st)))\<rparr>)"

fun paste_nodes ::
    "(string \<times> node_class) list \<Rightarrow> clip_node list \<Rightarrow> (string \<times> string) list \<Rightarrow> store \<Rightarrow> (string \<times> string) list \<times> store" where
  "paste_nodes odoo [] idMap st = (idMap, st)"
| "paste_nodes odoo (n # ns) idMap st =
     (case store_addNode odoo (cl_type n) (fst (cl_at n) + 50, snd (cl_at n) + 50) st of
        (None, st1) \<Rightarrow> paste_nodes odoo ns idMap st1
      | (Some newId, st1) \<Rightarrow>
          paste_nodes odoo ns (obj_set (cl_id n) newId idMap)
            (case cl_config n of Some cfg \<Rightarrow> snd (store_setNodeConfig newId cfg st1) | None \<Rightarrow> st1))"

fun paste_connections :: "(string \<times> string) list \<Rightarrow> ui_conn list \<Rightarrow> store \<Rightarrow> store" where
  "paste_connections idMap [] st = st"
| "paste_connections idMap (c # cs) st =
     paste_connections idMap cs
       (case (map_of idMap (uc_source c), map_of idMap (uc_target c)) of
          (Some s, Some t) \<Rightarrow> snd (store_addConnection s (uc_sourceHandle c) t (uc_targetHandle c) st)
        | _ \<Rightarrow> st)"

definition paste_data :: "(string \<times> node_class) list \<Rightarrow> clip_data \<Rightarrow> store \<Rightarrow> store" where
  "paste_data odoo data st =
     (let (idMap, st1) = paste_nodes odoo (cl_nodes data) [] st in paste_connections idMap (cl_connections data) st1)"

text \<open>The handler of an exception ends a batch without a description.\<close>

definition pasteNodes :: "(string \<times> node_class) list \<Rightarrow> bool \<Rightarrow> clip_text \<Rightarrow> store \<Rightarrow> store" where
  "pasteNodes odoo ro text st =
     (if ro then st
      else case text of
             NotJson \<Rightarrow> endBatch [] st
           | NoNodes \<Rightarrow> st
           | Clip data \<Rightarrow> endBatch ''Paste nodes'' (paste_data odoo data (beginBatch st)))"

subsection \<open>Keyboard commands\<close>

definition remove_nodes :: "(string \<times> node_class) list \<Rightarrow> string list \<Rightarrow> store \<Rightarrow> store" where
  "remove_nodes odoo ids st = foldl (\<lambda>st i. snd (store_removeNode odoo i st)) st ids"

definition remove_connections :: "string list \<Rightarrow> store \<Rightarrow> store" where
  "remove_connections ids st = foldl (\<lambda>st i. snd (store_removeConnection i st)) st ids"

definition deleteSelection :: "(string \<times> node_class) list \<Rightarrow> store \<Rightarrow> store" where
  "deleteSelection odoo st =
     (let nodeIds = sel_nodeIds (selection (ui st)); connectionIds = sel_connectionIds (selection (ui st));
          st1 = (if nodeIds \<noteq> []
                 then store_select [] connectionIds
                        (endBatch ''Delete nodes'' (remove_nodes odoo nodeIds (beginBatch st)))
                 else st)
      in if connectionIds = [] then st1
         else
           (let st2 = (if length connectionIds > 1
                       then endBatch ''Delete connections'' (remove_connections connectionIds (beginBatch st1))
                       else remove_connections connectionIds st1)
            in store_select (sel_nodeIds (selection (ui st2))) [] st2))"

text \<open>The positions are those of the nodes when the key is pressed.\<close>

definition move_selected :: "rat \<Rightarrow> rat \<Rightarrow> ui_node list \<Rightarrow> string list \<Rightarrow> store \<Rightarrow> store" where
  "move_selected mx my ns ids st =
     foldl (\<lambda>st i. case List.find (\<lambda>n. ui_id n = Some i) ns of
                     Some n \<Rightarrow> store_moveNode i (ui_x n + mx, ui_y n + my) st
                   | None \<Rightarrow> st) st ids"

definition moveSelection :: "rat \<Rightarrow> rat \<Rightarrow> bool \<Rightarrow> store \<Rightarrow> store" where
  "moveSelection dx dy large st =
     (let ids = sel_nodeIds (selection (ui st)); step = (if large then 50 else 20)
      in if ids = [] then st
         else endBatch ''Move nodes (keyboard)''
                (move_selected (dx * step) (dy * step) (ui_nodes (observer (graph st))) ids (beginBatch st)))"

definition selectAll :: "store \<Rightarrow> store" where
  "selectAll st = store_select (List.map_filter ui_id (ui_nodes (observer (graph st)))) [] st"

datatype command = CmdUndo | CmdRedo | CmdSelectAll | CmdDelete | CmdMove rat rat bool | CmdPaste clip_text

text \<open>A hotkey or command of the palette; in read-only mode none of them does anything.\<close>

definition run_command :: "(string \<times> node_class) list \<Rightarrow> bool \<Rightarrow> command \<Rightarrow> store \<Rightarrow> store" where
  "run_command odoo ro cmd st =
     (if ro then st
      else case cmd of
             CmdUndo \<Rightarrow> snd (store_undo st)
           | CmdRedo \<Rightarrow> snd (store_redo st)
           | CmdSelectAll \<Rightarrow> selectAll st
           | CmdDelete \<Rightarrow> deleteSelection odoo st
           | CmdMove dx dy large \<Rightarrow> moveSelection dx dy large st
           | CmdPaste text \<Rightarrow> pasteNodes odoo ro text st)"

subsection \<open>Drawing a connection\<close>

record snapped_socket =
  sn_node :: string
  sn_key :: string
  sn_at :: point

record drawing =
  isConnecting :: bool
  connectionStart :: "(string \<times> string \<times> socket_side) option"
  tempLineEndpoint :: "point option"
  snappedSocket :: "snapped_socket option"

definition no_drawing :: drawing where
  "no_drawing = \<lparr>isConnecting = False, connectionStart = None, tempLineEndpoint = None, snappedSocket = None\<rparr>"

text \<open>The distances are compared by their squares; the root the source takes is monotone.\<close>

definition sq_dist :: "point \<Rightarrow> point \<Rightarrow> rat" where
  "sq_dist p q = (fst p - fst q) * (fst p - fst q) + (snd p - snd q) * (snd p - snd q)"

definition closer :: "point \<Rightarrow> snapped_socket \<Rightarrow> snapped_socket option \<Rightarrow> snapped_socket option" where
  "closer p cand best =
     (if sq_dist p (sn_at cand) < 50 * 50 \<and> (case best of None \<Rightarrow> True | Some b \<Rightarrow> sq_dist p (sn_at cand) < sq_dist p (sn_at b))
      then Some cand else best)"

definition input_sockets :: "(geo_node \<Rightarrow> string \<Rightarrow> socket_side \<Rightarrow> point) \<Rightarrow> string \<Rightarrow> geo_node list \<Rightarrow> snapped_socket list" where
  "input_sockets pos sourceId ns =
     concat (map (\<lambda>n. map (\<lambda>k. \<lparr>sn_node = gn_id n, sn_key = k, sn_at = pos n k Input\<rparr>) (gn_inputs n))
       (filter (\<lambda>n. gn_id n \<noteq> sourceId) (rev ns)))"

definition findNearestSocket ::
    "(geo_node \<Rightarrow> string \<Rightarrow> socket_side \<Rightarrow> point) \<Rightarrow> point \<Rightarrow> string \<Rightarrow> geo_node list \<Rightarrow> snapped_socket option" where
  "findNearestSocket pos p sourceId ns = foldl (\<lambda>best c. closer p c best) None (input_sockets pos sourceId ns)"

definition onSocketMouseDown :: "bool \<Rightarrow> string \<Rightarrow> string \<Rightarrow> socket_side \<Rightarrow> point \<Rightarrow> drawing \<Rightarrow> drawing" where
  "onSocketMouseDown ro nodeId key side p w =
     (if ro \<or> side \<noteq> Output then w
      else w\<lparr>isConnecting := True, connectionStart := Some (nodeId, key, side), tempLineEndpoint := Some p\<rparr>)"

definition drawing_mouseMove ::
    "(geo_node \<Rightarrow> string \<Rightarrow> socket_side \<Rightarrow> point) \<Rightarrow> geo_node list \<Rightarrow> bool \<Rightarrow> point \<Rightarrow> drawing \<Rightarrow> bool \<times> drawing" where
  "drawing_mouseMove pos ns ro p w =
     (if ro \<or> \<not> isConnecting w then (False, w)
      else (True, w\<lparr>tempLineEndpoint := Some p,
                    snappedSocket := findNearestSocket pos p (case connectionStart w of Some (i, _, _) \<Rightarrow> i | None \<Rightarrow> []) ns\<rparr>))"

definition onSocketMouseUp :: "bool \<Rightarrow> string \<Rightarrow> string \<Rightarrow> socket_side \<Rightarrow> drawing \<Rightarrow> store \<Rightarrow> drawing \<times> store" where
  "onSocketMouseUp ro nodeId key side w st =
     (if ro \<or> \<not> isConnecting w then (w, st)
      else case connectionStart w of
             None \<Rightarrow> (no_drawing, st)
           | Some (i, h, s) \<Rightarrow>
               (no_drawing, if s = Output \<and> side = Input \<and> i \<noteq> nodeId then snd (store_addConnection i h nodeId key st) else st))"

text \<open>Releasing the button over the canvas. \<open>onInput\<close> says that the event target is an input socket; \<open>screen\<close>
  and \<open>p\<close> are the position relative to the canvas element and on the canvas.\<close>

definition handleCanvasMouseUp :: "bool \<Rightarrow> bool \<Rightarrow> point \<Rightarrow> point \<Rightarrow> drawing \<Rightarrow> store \<Rightarrow> bool \<times> drawing \<times> store" where
  "handleCanvasMouseUp ro onInput screen p w st =
     (if ro \<or> \<not> isConnecting w then (False, w, st)
      else case snappedSocket w of
             Some sn \<Rightarrow>
               (True, no_drawing,
                case connectionStart w of
                  Some (i, h, Output) \<Rightarrow> snd (store_addConnection i h (sn_node sn) (sn_key sn) st)
                | _ \<Rightarrow> st)
           | None \<Rightarrow>
               if onInput then (False, w, st)
               else case connectionStart w of
                      Some (i, h, Output) \<Rightarrow>
                        (True, w\<lparr>isConnecting := False, tempLineEndpoint := None, snappedSocket := None\<rparr>,
                         openNodeMenu (fst screen) (snd screen) (fst p) (snd p) ''default''
                           (JObj [(''type'', JStr ''dragConnect''), (''sourceNodeId'', JStr i), (''sourceSocketKey'', JStr h)]) st)
                    | _ \<Rightarrow> (True, no_drawing, st))"

subsection \<open>Edits inside a batch\<close>

text \<open>An open batch that was begun at \<open>st0\<close>: nothing is on the undo stack yet.\<close>

definition batch_from :: "(string \<times> node_class) list \<Rightarrow> store \<Rightarrow> store \<Rightarrow> bool" where
  "batch_from odoo st0 st \<longleftrightarrow> in_batch odoo (shape_view (graph st0)) st \<and> undoStack (hist st) = undoStack (hist st0)"

lemma batch_begin: "on_line odoo st \<Longrightarrow> batch_from odoo st (beginBatch st)"
  using begin_in_batch [of odoo st] by (simp add: batch_from_def beginBatch_def startBatch_def)

lemma batch_good: "batch_from odoo st0 st \<Longrightarrow> session_good odoo (graph st)"
  by (simp add: batch_from_def in_batch_def)

lemma batch_step:
  assumes "batch_from odoo st0 st" and "recorded_step odoo st st'"
  shows "batch_from odoo st0 st'"
  using assms in_batch_step [of odoo _ st st']
  by (auto simp: batch_from_def recorded_step_def in_batch_def hist_push_def)

lemma batch_frame:
  assumes "batch_from odoo st0 st" and "hist st' = hist st" and "session_good odoo (graph st')"
    and "shape_view (graph st') = shape_view (graph st)"
  shows "batch_from odoo st0 st'"
  using assms by (auto intro: batch_step simp: recorded_step_def)

lemma batch_addNode:
  assumes b: "batch_from odoo st0 st"
  shows "batch_from odoo st0 (snd (store_addNode odoo type p st))"
proof -
  obtain r st1 where 1: "add_and_record odoo type p st = (r, st1)" by fastforce
  have b1: "batch_from odoo st0 (clearExecution st1)" "batch_from odoo st0 st1"
    using batch_step [OF b add_and_record_step [OF batch_good [OF b], of type p]] 1
    by (simp_all add: clearExecution_def batch_from_def in_batch_def)
  obtain r' st3 where 3: "add_and_record odoo ''noop'' (fst p + 80, snd p + 160) (clearExecution st1) = (r', st3)"
    by fastforce
  have b3: "batch_from odoo st0 st3"
    using batch_step [OF b1(1) add_and_record_step [OF batch_good [OF b1(1)]]] 3 by (metis snd_conv)
  have conn: "batch_from odoo st0 s \<Longrightarrow> batch_from odoo st0 (snd (connect_and_record i h j g s))" for s i h j g
    using batch_step connect_and_record_step batch_good by blast
  show ?thesis using b1 b3 conn by (cases r; cases r') (simp_all add: store_addNode_def 1 3 Let_def)
qed

lemma batch_setConfig:
  assumes "batch_from odoo st0 st"
  shows "batch_from odoo st0 (snd (store_setNodeConfig i cfg st))"
  using assms session_good_ops(5) [OF batch_good [OF assms], of i cfg] shape_in_place(1) [of i cfg "graph st"]
  by (intro batch_frame [OF assms]) (simp_all add: store_setNodeConfig_def split_beta)

lemma batch_addConnection:
  "batch_from odoo st0 st \<Longrightarrow> batch_from odoo st0 (snd (store_addConnection s h t g st))"
  using batch_step store_addConnection_step batch_good by blast

lemma batch_paste_nodes: "batch_from odoo st0 st \<Longrightarrow> batch_from odoo st0 (snd (paste_nodes odoo ns m st))"
proof (induction odoo ns m st rule: paste_nodes.induct)
  case (2 odoo n ns m st)
  obtain r st1 where 1: "store_addNode odoo (cl_type n) (fst (cl_at n) + 50, snd (cl_at n) + 50) st = (r, st1)" by fastforce
  have "batch_from odoo st0 st1" using batch_addNode [OF "2.prems"] 1 by (metis snd_conv)
  with 2 1 batch_setConfig show ?case by (cases r) (auto split: option.splits)
qed simp

lemma batch_paste_connections: "batch_from odoo st0 st \<Longrightarrow> batch_from odoo st0 (paste_connections m cs st)"
  by (induction cs arbitrary: st) (auto intro: batch_addConnection split: option.splits)

lemma batch_paste: "batch_from odoo st0 st \<Longrightarrow> batch_from odoo st0 (paste_data odoo data st)"
  using batch_paste_nodes [of odoo st0 st "cl_nodes data" "[]"]
  by (auto simp: paste_data_def split_beta intro: batch_paste_connections)

lemma batch_fold:
  "(\<And>st x. batch_from odoo st0 st \<Longrightarrow> batch_from odoo st0 (f st x)) \<Longrightarrow> batch_from odoo st0 st \<Longrightarrow> batch_from odoo st0 (foldl f st xs)"
  by (induction xs arbitrary: st) auto

lemma batch_single:
  assumes "batch_from odoo st0 st"
  shows "batch_from odoo st0 (snd (store_removeNode odoo i st))"
    and "batch_from odoo st0 (snd (store_removeConnection i st))"
    and "batch_from odoo st0 (store_moveNode i p st)"
  using batch_step [OF assms] store_removeNode_step store_removeConnection_step store_moveNode_step batch_good [OF assms] by blast+

lemma batch_commands:
  assumes "batch_from odoo st0 st"
  shows "batch_from odoo st0 (remove_nodes odoo ids st)" and "batch_from odoo st0 (remove_connections ids st)"
    and "batch_from odoo st0 (move_selected mx my ns ids st)"
  unfolding remove_nodes_def remove_connections_def move_selected_def
  using assms by (auto intro!: batch_fold batch_single split: option.split)

text \<open>What the caller of a batch sees: nothing happened, or one undo takes it back.\<close>

definition taken_back :: "store \<Rightarrow> store \<Rightarrow> bool" where
  "taken_back st st' \<longleftrightarrow>
     undoStack (hist st') = undoStack (hist st) \<and> shape_view (graph st') = shape_view (graph st)
     \<or> fst (store_undo st') = Inr True \<and> shape_view (graph (snd (store_undo st'))) = shape_view (graph st)"

lemma taken_back_batch:
  assumes "batch_from odoo st0 st"
  shows "taken_back st0 (endBatch d st)"
proof (cases "currentBatch (hist st) = Some []")
  case True
  with assms show ?thesis by (auto simp: batch_from_def in_batch_def taken_back_def endBatch_def commitBatch_def)
next
  case False
  with batch_undo_shape [of odoo "shape_view (graph st0)" st d] assms show ?thesis by (auto simp: batch_from_def taken_back_def)
qed

lemma taken_back_frame:
  assumes "hist st' = hist st" and "graph st' = graph st"
  shows "taken_back st0 st' = taken_back st0 st"
  using assms by (simp add: taken_back_def store_undo_def split: prod.splits)

lemma taken_back_step:
  assumes "on_line odoo st" and "currentBatch (hist st) = None" and "recorded_step odoo st st'"
  shows "taken_back st st'"
  using recorded_step_undo [OF assms] by (auto simp: taken_back_def)

subsection \<open>The nearest socket\<close>

lemma closer_fold:
  assumes "\<forall>b. best = Some b \<longrightarrow> sq_dist p (sn_at b) < 50 * 50"
  shows "case foldl (\<lambda>best c. closer p c best) best cs of
      None \<Rightarrow> best = None \<and> (\<forall>c \<in> set cs. 50 * 50 \<le> sq_dist p (sn_at c))
    | Some b \<Rightarrow> (b \<in> set cs \<or> best = Some b) \<and> sq_dist p (sn_at b) < 50 * 50
        \<and> (\<forall>c \<in> set cs. sq_dist p (sn_at b) \<le> sq_dist p (sn_at c))
        \<and> (\<forall>b0. best = Some b0 \<longrightarrow> sq_dist p (sn_at b) \<le> sq_dist p (sn_at b0))"
  using assms
proof (induction cs arbitrary: best)
  case Nil
  then show ?case by (auto split: option.splits)
next
  case (Cons c cs)
  have "\<forall>b. closer p c best = Some b \<longrightarrow> sq_dist p (sn_at b) < 50 * 50"
    using Cons.prems by (auto simp: closer_def split: if_splits)
  from Cons.IH [OF this] show ?case
    by (cases best) (fastforce simp: closer_def split: option.splits if_splits)+
qed

subsection \<open>Properties\<close>

text \<open>The commands that are one edit for the user: deleting only nodes or only connections, moving the
  selection with the arrow keys, and pasting.\<close>

definition one_edit :: "command \<Rightarrow> store \<Rightarrow> bool" where
  "one_edit cmd st \<longleftrightarrow>
     (case cmd of CmdDelete \<Rightarrow> sel_nodeIds (selection (ui st)) = [] \<or> sel_connectionIds (selection (ui st)) = []
      | CmdMove _ _ _ \<Rightarrow> True | CmdPaste _ \<Rightarrow> True | _ \<Rightarrow> False)"

lemma delete_taken_back:
  assumes l: "on_line odoo st" "currentBatch (hist st) = None"
    and sel: "sel_nodeIds (selection (ui st)) = [] \<or> sel_connectionIds (selection (ui st)) = []"
  shows "taken_back st (deleteSelection odoo st)"
proof (cases "sel_nodeIds (selection (ui st)) = []")
  case False
  let ?st = "endBatch ''Delete nodes'' (remove_nodes odoo (sel_nodeIds (selection (ui st))) (beginBatch st))"
  have "taken_back st ?st" by (rule taken_back_batch [OF batch_commands(1) [OF batch_begin [OF l(1)]]])
  then show ?thesis using False sel taken_back_frame [of "store_select [] [] ?st" ?st st] frame_ops(4)
    by (simp add: deleteSelection_def Let_def)
next
  case True
  let ?ids = "sel_connectionIds (selection (ui st))"
  let ?st = "if length ?ids > 1 then endBatch ''Delete connections'' (remove_connections ?ids (beginBatch st))
             else remove_connections ?ids st"
  have "taken_back st ?st" if "?ids \<noteq> []"
  proof (cases "length ?ids > 1")
    case False
    with that obtain i where "?ids = [i]" by (cases ?ids) auto
    then show ?thesis
      using taken_back_step [OF l store_removeConnection_step [OF sh.line_good [OF l(1)], of i]] by (simp add: remove_connections_def)
  next
    case many: True
    have "taken_back st (endBatch ''Delete connections'' (remove_connections ?ids (beginBatch st)))"
      by (rule taken_back_batch [OF batch_commands(2) [OF batch_begin [OF l(1)]]])
    then show ?thesis using many by simp
  qed
  then show ?thesis using True taken_back_frame [of "store_select (sel_nodeIds (selection (ui ?st))) [] ?st" ?st st] frame_ops(4)
    by (auto simp: deleteSelection_def Let_def taken_back_def)
qed



text \<open>Snapping picks the nearest input socket: if any input socket of another node is closer than the snap
  radius, the socket found is one of those and no input socket of another node is closer to the pointer; and
  if there is none, nothing is found. The socket never belongs to the node the connection starts from.\<close>

theorem nearest_socket_spec:
  "case findNearestSocket pos p sourceId ns of
     None \<Rightarrow> \<forall>n \<in> set ns. gn_id n \<noteq> sourceId \<longrightarrow> (\<forall>k \<in> set (gn_inputs n). 50 * 50 \<le> sq_dist p (pos n k Input))
   | Some b \<Rightarrow> sn_node b \<noteq> sourceId \<and> sq_dist p (sn_at b) < 50 * 50
       \<and> (\<exists>n \<in> set ns. sn_node b = gn_id n \<and> sn_key b \<in> set (gn_inputs n) \<and> sn_at b = pos n (sn_key b) Input)
       \<and> (\<forall>n \<in> set ns. gn_id n \<noteq> sourceId \<longrightarrow> (\<forall>k \<in> set (gn_inputs n). sq_dist p (sn_at b) \<le> sq_dist p (pos n k Input)))"
  using closer_fold [of None p "input_sockets pos sourceId ns"]
  by (auto simp: findNearestSocket_def input_sockets_def split: option.splits)

theorem nearest_socket_spec_witness:
  "findNearestSocket (\<lambda>n k s. gn_at n) (10, 10) ''a'' [\<lparr>gn_id = ''b'', gn_at = (20, 10), gn_inputs = [''in''], gn_outputs = []\<rparr>]
     = Some \<lparr>sn_node = ''b'', sn_key = ''in'', sn_at = (20, 10)\<rparr>"
  using nearest_socket_spec [where pos = "\<lambda>n k s. gn_at n" and p = "(10, 10)" and sourceId = "''a''"
      and ns = "[\<lparr>gn_id = ''b'', gn_at = (20, 10), gn_inputs = [''in''], gn_outputs = []\<rparr>]"]
  by (auto simp: sq_dist_def split: option.splits)

end
