(* ===== verification/Gestures.thy ===== *)
theory Gestures
  imports Drag Canvas_Commands
begin

section \<open>Pointer gestures of the canvas\<close>

text \<open>
  The hook use_canvas_gestures.js (panning with the middle button and box selection) and the document
  listeners of components/editor_canvas.js, which offer each pointer event to the gestures, then to the
  node drag, then to the connection being drawn. The canvas is in editor mode: its read-only flag is the one
  of the store. The rectangle of the canvas element and what the event hit are arguments.
\<close>

subsection \<open>Views of the store\<close>

definition geo_of :: "ui_node \<Rightarrow> geo_node" where
  "geo_of n = \<lparr>gn_id = (case ui_id n of Some i \<Rightarrow> i | None \<Rightarrow> ''null''), gn_at = (ui_x n, ui_y n),
               gn_inputs = map fst (ui_inputs n), gn_outputs = map fst (ui_outputs n)\<rparr>"

definition canvas_nodes :: "store \<Rightarrow> ui_node list" where
  "canvas_nodes st = ui_nodes (observer (graph st))"

definition canvas_connections :: "store \<Rightarrow> ui_conn list" where
  "canvas_connections st = ui_conns (observer (graph st))"

definition getViewport :: "store \<Rightarrow> view" where
  "getViewport st = \<lparr>vpan = pan (viewport (ui st)), vzoom = zoom (viewport (ui st))\<rparr>"

definition getCanvasPosition :: "rect \<Rightarrow> point \<Rightarrow> store \<Rightarrow> point" where
  "getCanvasPosition container client st = screenToCanvas client container (getViewport st)"

definition getScreenPosition :: "rat \<Rightarrow> rat \<Rightarrow> store \<Rightarrow> point" where
  "getScreenPosition x y st = canvasToScreen x y (getViewport st)"

definition isReadonly :: "store \<Rightarrow> bool" where
  "isReadonly st = readonly (ui st)"

definition canEdit :: "store \<Rightarrow> bool" where
  "canEdit st \<longleftrightarrow> \<not> isReadonly st"

subsection \<open>Panning and box selection\<close>

record gestures =
  isPanning :: bool
  isSelecting :: bool
  selectionBox :: "(point \<times> point) option"
  panStart :: "point option"
  panInitial :: "point option"

definition new_gestures :: gestures where
  "new_gestures = \<lparr>isPanning = False, isSelecting = False, selectionBox = None, panStart = None, panInitial = None\<rparr>"

text \<open>What a button press hit: an overlay (menu, toolbar, controls), the background, or anything else.\<close>

datatype hit = OnOverlay | OnBackground | OnElement

definition gesture_mouseDown :: "rect \<Rightarrow> hit \<Rightarrow> nat \<Rightarrow> point \<Rightarrow> gestures \<Rightarrow> store \<Rightarrow> gestures \<times> store" where
  "gesture_mouseDown container h button client g st =
     (if h = OnOverlay then (g, st)
      else if button = 1
      then (g\<lparr>isPanning := True, panStart := Some client, panInitial := Some (vpan (getViewport st))\<rparr>, st)
      else if isReadonly st then (g, st)
      else if button = 0 \<and> h = OnBackground
      then (let p = getCanvasPosition container client st
            in (g\<lparr>isSelecting := True, selectionBox := Some (p, p)\<rparr>, store_select [] [] st))
      else (g, st))"

definition gesture_mouseMove :: "rect \<Rightarrow> point \<Rightarrow> gestures \<Rightarrow> store \<Rightarrow> bool \<times> gestures \<times> store" where
  "gesture_mouseMove container client g st =
     (case (isPanning g, panStart g, panInitial g) of
        (True, Some s, Some i) \<Rightarrow>
          (True, g, setViewport (Some (fst i + (fst client - fst s), snd i + (snd client - snd s))) None st)
      | _ \<Rightarrow>
          (case (\<not> isReadonly st \<and> isSelecting g, selectionBox g) of
             (True, Some (p, _)) \<Rightarrow> (True, g\<lparr>selectionBox := Some (p, getCanvasPosition container client st)\<rparr>, st)
           | _ \<Rightarrow> (False, g, st)))"

definition completeSelection :: "dimension_config \<Rightarrow> gestures \<Rightarrow> store \<Rightarrow> store" where
  "completeSelection dims g st =
     (if isReadonly st then st
      else case selectionBox g of
             None \<Rightarrow> st
           | Some (p, q) \<Rightarrow>
               (let selected = selected_by_box dims p q (map geo_of (canvas_nodes st))
                in if selected \<noteq> [] then store_select (map gn_id selected) [] st else st))"

datatype gesture_type = PanGesture | SelectionGesture

definition gesture_mouseUp :: "dimension_config \<Rightarrow> gestures \<Rightarrow> store \<Rightarrow> gesture_type option \<times> gestures \<times> store" where
  "gesture_mouseUp dims g st =
     (if isPanning g then (Some PanGesture, g\<lparr>isPanning := False, panStart := None, panInitial := None\<rparr>, st)
      else if isSelecting g
      then (Some SelectionGesture, g\<lparr>isSelecting := False, selectionBox := None\<rparr>, completeSelection dims g st)
      else (None, g, st))"

definition getSelectionBoxStyle :: "gestures \<Rightarrow> rect option" where
  "getSelectionBoxStyle g = map_option (\<lambda>(p, q). getSelectionBox p q) (selectionBox g)"

subsection \<open>The listeners of the canvas\<close>

text \<open>The hooks of the canvas, the animation frame it requested with the event it will handle, and the flag
  that a box selection just ended.\<close>

record hooks =
  gest :: gestures
  drag_hook :: drag_state
  draw_hook :: drawing
  mouseMoveFrame :: "point option"
  justCompletedSelection :: bool

definition new_hooks :: hooks where
  "new_hooks = \<lparr>gest = new_gestures, drag_hook = new_drag, draw_hook = no_drawing, mouseMoveFrame = None,
                justCompletedSelection = False\<rparr>"

definition root_of :: "rect \<Rightarrow> root_rect" where
  "root_of r = \<lparr>rr_left = rx r, rr_right = rx r + rwidth r, rr_top = rY r, rr_bottom = rY r + rheight r\<rparr>"

definition onDocumentMouseMove :: "point \<Rightarrow> hooks \<Rightarrow> store \<Rightarrow> hooks" where
  "onDocumentMouseMove client w st =
     (if isReadonly st then w
      else if mouseMoveFrame w \<noteq> None then w
      else w\<lparr>mouseMoveFrame := Some client\<rparr>)"

text \<open>The callback of that frame.\<close>

definition runMouseMoveFrame :: "dimension_config \<Rightarrow> rect \<Rightarrow> hooks \<Rightarrow> store \<Rightarrow> hooks \<times> store" where
  "runMouseMoveFrame dims container w st =
     (case mouseMoveFrame w of
        None \<Rightarrow> (w, st)
      | Some client \<Rightarrow>
          (let w0 = w\<lparr>mouseMoveFrame := None\<rparr>;
               (handled, g, st1) = gesture_mouseMove container client (gest w) st
           in if handled then (w0\<lparr>gest := g\<rparr>, st1)
              else
                (let (dragged, d) = drag_mouseMove (isReadonly st) (Some (root_of container)) client (drag_hook w)
                 in if dragged then (w0\<lparr>drag_hook := d\<rparr>, st)
                    else (w0\<lparr>draw_hook :=
                            snd (drawing_mouseMove (getSocketPosition dims) (map geo_of (canvas_nodes st)) (isReadonly st)
                                   (getCanvasPosition container client st) (draw_hook w))\<rparr>, st))))"

definition onDocumentMouseUp :: "dimension_config \<Rightarrow> rect \<Rightarrow> bool \<Rightarrow> point \<Rightarrow> hooks \<Rightarrow> store \<Rightarrow> hooks \<times> store" where
  "onDocumentMouseUp dims container onInput client w st =
     (if isReadonly st then (w, st)
      else
        (case gesture_mouseUp dims (gest w) st of
           (Some t, g, st1) \<Rightarrow>
             (w\<lparr>gest := g, justCompletedSelection := (t = SelectionGesture \<or> justCompletedSelection w)\<rparr>, st1)
         | (None, g, _) \<Rightarrow>
             (case drag_mouseUp (isReadonly st) (drag_hook w) st of
                (True, d, st1) \<Rightarrow> (w\<lparr>drag_hook := d\<rparr>, st1)
              | (False, d, _) \<Rightarrow>
                  (let (_, dr, st1) = handleCanvasMouseUp (isReadonly st) onInput
                         (fst client - rx container, snd client - rY container) (getCanvasPosition container client st)
                         (draw_hook w) st
                   in (w\<lparr>draw_hook := dr\<rparr>, st1)))))"

definition clearSelection :: "store \<Rightarrow> store" where
  "clearSelection st = (if canEdit st then store_select [] [] st else st)"

definition onCanvasClick :: "bool \<Rightarrow> hooks \<Rightarrow> store \<Rightarrow> store" where
  "onCanvasClick background w st =
     (if justCompletedSelection w then st else if background then clearSelection st else st)"

text \<open>The timer that ends the grace period of a box selection.\<close>

definition selection_timer :: "hooks \<Rightarrow> hooks" where
  "selection_timer w = w\<lparr>justCompletedSelection := False\<rparr>"

text \<open>Going read-only first ends what is under way; leaving it does not.\<close>

definition canvas_setReadonly :: "dimension_config \<Rightarrow> bool \<Rightarrow> hooks \<Rightarrow> store \<Rightarrow> hooks \<times> store" where
  "canvas_setReadonly dims v w st =
     (if isReadonly st = v then (w, st)
      else if v
      then (let (_, d, st1) = drag_mouseUp (isReadonly st) (drag_hook w) st;
                (_, g, st2) = gesture_mouseUp dims (gest w) st1
            in (w\<lparr>draw_hook := no_drawing, drag_hook := d, gest := g\<rparr>, setReadonly v st2))
      else (w, setReadonly v st))"

subsection \<open>Properties\<close>

text \<open>A press on the background, any way of the pointer, the release, and the click event that follows.\<close>

definition pointer_moves :: "dimension_config \<Rightarrow> rect \<Rightarrow> point list \<Rightarrow> hooks \<times> store \<Rightarrow> hooks \<times> store" where
  "pointer_moves dims container qs ws =
     foldl (\<lambda>(w, st) q. runMouseMoveFrame dims container (onDocumentMouseMove q w st) st) ws qs"

definition box_drag :: "dimension_config \<Rightarrow> rect \<Rightarrow> point \<Rightarrow> point list \<Rightarrow> point \<Rightarrow> hooks \<Rightarrow> store \<Rightarrow> hooks \<times> store" where
  "box_drag dims container p qs r w st =
     (let (g, st1) = gesture_mouseDown container OnBackground 0 p (gest w) st;
          (w2, st2) = pointer_moves dims container qs (w\<lparr>gest := g\<rparr>, st1);
          (w3, st3) = onDocumentMouseUp dims container False r w2 st2
      in (w3, onCanvasClick True w3 st3))"

lemma select_fields [simp]:
  "graph (store_select ns cs st) = graph st" "hist (store_select ns cs st) = hist st"
  "readonly (ui (store_select ns cs st)) = readonly (ui st)" "viewport (ui (store_select ns cs st)) = viewport (ui st)"
  "selection (ui (store_select ns cs st)) = \<lparr>sel_nodeIds = unique ns, sel_connectionIds = unique cs\<rparr>"
  by (simp_all add: store_select_def)

lemma selecting_moves:
  assumes "\<not> isReadonly st" and "\<not> isPanning (gest w)" and "isSelecting (gest w)" and "selectionBox (gest w) = Some (a, b)"
    and "mouseMoveFrame w = None"
  shows "pointer_moves dims container qs (w, st) =
    (w\<lparr>gest := (gest w)\<lparr>selectionBox := Some (a, last (b # map (\<lambda>q. getCanvasPosition container q st) qs))\<rparr>\<rparr>, st)"
  using assms
proof (induction qs arbitrary: w b)
  case (Cons q qs)
  let ?w = "w\<lparr>gest := (gest w)\<lparr>selectionBox := Some (a, getCanvasPosition container q st)\<rparr>\<rparr>"
  have "runMouseMoveFrame dims container (onDocumentMouseMove q w st) st = (?w, st)"
    using Cons.prems by (simp add: onDocumentMouseMove_def runMouseMoveFrame_def gesture_mouseMove_def)
  with Cons.IH [of ?w] Cons.prems show ?case by (simp add: pointer_moves_def)
qed (simp add: pointer_moves_def)


abbreviation plain_dims :: dimension_config where
  "plain_dims \<equiv> new_DimensionConfig \<lparr>o_nodeWidth = None, o_nodeChromeMinHeight = None, o_nodeBorderWidth = None,
     o_socketPitch = None, o_socketSpacing = None, o_socketHitboxSize = None, o_socketRadius = None, o_socketMarkerWidth = None,
     o_socketMarkerHeight = None, o_socketClearanceY = None, o_nodeBodyPadding = None, o_socketMinRows = None,
     o_socketAnchorMode = None, o_gridSize = None\<rparr>"

abbreviation plain_rect :: rect where
  "plain_rect \<equiv> \<lparr>rx = 0, rY = 0, rwidth = 800, rheight = 600\<rparr>"


lemma readonly_moves: "isReadonly st \<Longrightarrow> mouseMoveFrame w = None \<Longrightarrow> pointer_moves dims container qs (w, st) = (w, st)"
  by (induction qs) (simp_all add: pointer_moves_def onDocumentMouseMove_def runMouseMoveFrame_def)

text \<open>Panning is dead in read-only mode and comes alive without a button. The gesture hook lets the middle
  button pan a read-only canvas, but the listeners of the canvas drop every pointer move and the release
  while it is read-only: a press with the middle button, any moves and the release leave the store as it
  is and the pan still under way. When the canvas is editable again, the next move of the pointer, with no
  button held, shifts the view by the whole way from the press.\<close>

theorem readonly_pan_sticks:
  assumes "isReadonly st" and "gest w = new_gestures" and "mouseMoveFrame w = None"
    and "gesture_mouseDown container OnBackground 1 p (gest w) st = (g, st1)"
    and "pointer_moves dims container qs (w\<lparr>gest := g\<rparr>, st1) = (w2, st2)"
    and "onDocumentMouseUp dims container onInput r w2 st2 = (w3, st3)"
    and "canvas_setReadonly dims False w3 st3 = (w4, st4)"
    and "pointer_moves dims container [q] (w4, st4) = (w5, st5)"
  shows "st3 = st \<and> isPanning (gest w3)
    \<and> pan (viewport (ui st5)) = (fst (pan (viewport (ui st))) + (fst q - fst p), snd (pan (viewport (ui st))) + (snd q - snd p))"
proof -
  have g: "g = new_gestures\<lparr>isPanning := True, panStart := Some p, panInitial := Some (pan (viewport (ui st)))\<rparr>" "st1 = st"
    using assms(2,4) by (auto simp: gesture_mouseDown_def getViewport_def)
  have "w2 = w\<lparr>gest := g\<rparr> \<and> st2 = st" using assms(5) readonly_moves [OF assms(1), of "w\<lparr>gest := g\<rparr>"] assms(3) g(2) by simp
  with assms(1,6) have 3: "w3 = w\<lparr>gest := g\<rparr>" "st3 = st" by (simp_all add: onDocumentMouseUp_def)
  with assms(1,7) have 4: "w4 = w\<lparr>gest := g\<rparr>" "st4 = setReadonly False st" by (simp_all add: canvas_setReadonly_def)
  have "runMouseMoveFrame dims container (onDocumentMouseMove q w4 st4) st4 = (w5, st5)"
    using assms(8) by (simp add: pointer_moves_def)
  with assms(3) show ?thesis
    by (auto simp: 3 4 g onDocumentMouseMove_def runMouseMoveFrame_def gesture_mouseMove_def isReadonly_def
        setReadonly_def setViewport_fields)
qed

theorem readonly_pan_sticks_witness:
  "\<exists>w st. let (g, st1) = gesture_mouseDown plain_rect OnBackground 1 (0, 0) (gest w) st;
        (w2, st2) = pointer_moves plain_dims plain_rect [(5, 5)] (w\<lparr>gest := g\<rparr>, st1);
        (w3, st3) = onDocumentMouseUp plain_dims plain_rect False (5, 5) w2 st2
      in st3 = st \<and> isPanning (gest w3)"
proof -
  let ?st = "setReadonly True (start_store builtin_classes)"
  have ro: "isReadonly ?st" by (simp add: isReadonly_def setReadonly_def)
  obtain g st1 where 1: "gesture_mouseDown plain_rect OnBackground 1 (0, 0) (gest new_hooks) ?st = (g, st1)" by fastforce
  obtain w2 st2 where 2: "pointer_moves plain_dims plain_rect [(5, 5)] (new_hooks\<lparr>gest := g\<rparr>, st1) = (w2, st2)" by fastforce
  obtain w3 st3 where 3: "onDocumentMouseUp plain_dims plain_rect False (5, 5) w2 st2 = (w3, st3)" by fastforce
  obtain w4 st4 where 4: "canvas_setReadonly plain_dims False w3 st3 = (w4, st4)" by fastforce
  obtain w5 st5 where 5: "pointer_moves plain_dims plain_rect [(9, 9)] (w4, st4) = (w5, st5)" by fastforce
  have "st3 = ?st \<and> isPanning (gest w3)" using readonly_pan_sticks [OF ro _ _ 1 2 3 4 5] by (simp add: new_hooks_def)
  then show ?thesis using 1 2 3 by (intro exI [of _ new_hooks] exI [of _ ?st]) simp
qed

end
