(* ===== verification/Graph_Layout.thy ===== *)
theory Graph_Layout
  imports Dfs "HOL-Library.Product_Lexorder" "HOL-Library.Multiset"
begin

section \<open>Automatic layout (utils/graph_utils.js, class WorkflowGraph)\<close>

text \<open>
  The class that hands the workflow to the layout library dagre. The library is not part of the
  sources: its graph type \<open>'g\<close> and the calls the class makes are the record \<open>graphlib\<close>, and what the
  class relies on is the predicate \<open>graphlib_ok\<close> below. Reading a field of a missing node label throws
  in the source, so the operations that do return an option, with None for the exception. Only a
  connection to a node outside the list makes such a label; the editor has none.
\<close>

record node_box =
  bx :: rat
  bY :: rat
  bwidth :: rat
  bheight :: rat

record graph_config =
  rankdir :: string
  nodesep :: rat
  ranksep :: rat
  edgesep :: rat
  marginx :: rat
  marginy :: rat

text \<open>The options of a layout call: fields that are absent leave the configuration as it is.\<close>

record layout_options =
  opt_rankdir :: "string option"
  opt_ranksep :: "rat option"

record 'g graphlib =
  gl_new :: 'g
  gl_graph :: "'g \<Rightarrow> graph_config"
  gl_setGraph :: "graph_config \<Rightarrow> 'g \<Rightarrow> 'g"
  gl_setNode :: "string \<Rightarrow> node_box \<Rightarrow> 'g \<Rightarrow> 'g"
  gl_setEdge :: "string \<Rightarrow> string \<Rightarrow> 'g \<Rightarrow> 'g"
  gl_removeEdge :: "string \<Rightarrow> string \<Rightarrow> 'g \<Rightarrow> 'g"
  gl_nodes :: "'g \<Rightarrow> string list"
  gl_edges :: "'g \<Rightarrow> (string \<times> string) list"
  gl_successors :: "'g \<Rightarrow> string \<Rightarrow> string list"
  gl_predecessors :: "'g \<Rightarrow> string \<Rightarrow> string list"
  gl_node :: "'g \<Rightarrow> string \<Rightarrow> node_box option"
  gl_components :: "'g \<Rightarrow> string list list"
  gl_layout :: "'g \<Rightarrow> 'g"

record 'g workflow_graph =
  wg_graph :: 'g
  wg_backEdges :: "(string \<times> string) list"

record layout_node =
  ln_id :: string
  ln_x :: rat
  ln_y :: rat

record layout_conn =
  lc_source :: string
  lc_target :: string

definition in_degree :: "layout_node list \<Rightarrow> layout_conn list \<Rightarrow> (string \<times> nat) list" where
  "in_degree ns cs =
     foldl (\<lambda>m c. obj_set (lc_target c) (Suc (case map_of m (lc_target c) of Some d \<Rightarrow> d | None \<Rightarrow> 0)) m)
       (foldl (\<lambda>m n. obj_set (ln_id n) 0 m) [] ns) cs"

text \<open>The comparison of the sort: roots first, then by y, then by x. JavaScript's sort is stable.\<close>

definition sortedNodes :: "layout_node list \<Rightarrow> layout_conn list \<Rightarrow> layout_node list" where
  "sortedNodes ns cs =
     (let isRoot = (\<lambda>n. (case map_of (in_degree ns cs) (ln_id n) of Some d \<Rightarrow> d | None \<Rightarrow> 0) = 0)
      in sort_key (\<lambda>n. (if isRoot n then 0 else 1 :: nat, ln_y n, ln_x n)) ns)"

definition start_config :: graph_config where
  "start_config = \<lparr>rankdir = ''LR'', nodesep = 120, ranksep = 160, edgesep = 120, marginx = 50, marginy = 50\<rparr>"

definition fromNodes :: "'g graphlib \<Rightarrow> layout_node list \<Rightarrow> layout_conn list \<Rightarrow> 'g workflow_graph" where
  "fromNodes L ns cs =
     \<lparr>wg_graph =
        foldl (\<lambda>g c. gl_setEdge L (lc_source c) (lc_target c) g)
          (foldl (\<lambda>g n. gl_setNode L (ln_id n) \<lparr>bx = ln_x n, bY = ln_y n, bwidth = 180, bheight = 80\<rparr> g)
             (gl_setGraph L start_config (gl_new L)) (sortedNodes ns cs)) cs,
      wg_backEdges = []\<rparr>"

subsection \<open>Cycles\<close>

text \<open>The edges the search walks: the successors of each node, in the order the library lists them.\<close>

definition succ_edges :: "'g graphlib \<Rightarrow> 'g \<Rightarrow> (string, string \<times> string) edge list" where
  "succ_edges L g = concat (map (\<lambda>n. map (\<lambda>t. (n, t, (n, t))) (gl_successors L g n)) (gl_nodes L g))"

definition back_edges :: "'g graphlib \<Rightarrow> 'g \<Rightarrow> (string \<times> string) list" where
  "back_edges L g =
     (let G = succ_edges L g; allNodes = gl_nodes L g;
          roots = filter (\<lambda>n. gl_predecessors L g n = []) allNodes
      in snd (dfs_roots G allNodes (dfs_roots G roots ([], []))))"

definition detectCycles :: "'g graphlib \<Rightarrow> 'g workflow_graph \<Rightarrow> 'g workflow_graph" where
  "detectCycles L w = w\<lparr>wg_backEdges := back_edges L (wg_graph w)\<rparr>"

definition detectCyclesInGraph :: "'g graphlib \<Rightarrow> 'g \<Rightarrow> (string \<times> string) list" where
  "detectCyclesInGraph L g = snd (dfs_roots (succ_edges L g) (gl_nodes L g) ([], []))"

definition hasCycles :: "'g graphlib \<Rightarrow> 'g workflow_graph \<Rightarrow> bool \<times> 'g workflow_graph" where
  "hasCycles L w =
     (let w' = (if wg_backEdges w = [] then detectCycles L w else w) in (wg_backEdges w' \<noteq> [], w'))"

definition remove_edges :: "'g graphlib \<Rightarrow> (string \<times> string) list \<Rightarrow> 'g \<Rightarrow> 'g" where
  "remove_edges L es g = foldl (\<lambda>g (s, t). gl_removeEdge L s t g) g es"

definition add_edges :: "'g graphlib \<Rightarrow> (string \<times> string) list \<Rightarrow> 'g \<Rightarrow> 'g" where
  "add_edges L es g = foldl (\<lambda>g (s, t). gl_setEdge L s t g) g es"

definition assign_options :: "layout_options \<Rightarrow> graph_config \<Rightarrow> graph_config" where
  "assign_options opts c =
     (let c = (case opt_rankdir opts of Some r \<Rightarrow> c\<lparr>rankdir := r\<rparr> | None \<Rightarrow> c)
      in case opt_ranksep opts of Some r \<Rightarrow> c\<lparr>ranksep := r\<rparr> | None \<Rightarrow> c)"

definition set_options :: "'g graphlib \<Rightarrow> layout_options \<Rightarrow> 'g \<Rightarrow> 'g" where
  "set_options L opts g = gl_setGraph L (assign_options opts (gl_graph L g)) g"

definition layout_graph :: "'g graphlib \<Rightarrow> (string \<times> string) list \<Rightarrow> 'g \<Rightarrow> 'g" where
  "layout_graph L backEdges g = add_edges L backEdges (gl_layout L (remove_edges L backEdges g))"

text \<open>The positions of some nodes: None if one of them has no label to read.\<close>

type_synonym positions = "(string \<times> (rat \<times> rat)) list"

definition node_boxes :: "'g graphlib \<Rightarrow> 'g \<Rightarrow> string list \<Rightarrow> (string \<times> node_box) list option" where
  "node_boxes L g ids = those (map (\<lambda>n. map_option (Pair n) (gl_node L g n)) ids)"

definition layout :: "'g graphlib \<Rightarrow> layout_options \<Rightarrow> 'g workflow_graph \<Rightarrow> 'g workflow_graph \<times> positions option" where
  "layout L opts w =
     (let w1 = detectCycles L (w\<lparr>wg_graph := set_options L opts (wg_graph w)\<rparr>);
          g' = layout_graph L (wg_backEdges w1) (wg_graph w1)
      in (w1\<lparr>wg_graph := g'\<rparr>,
          map_option (\<lambda>bs. obj_assign [] (map (\<lambda>(i, b). (i, (bx b, bY b))) bs))
            (node_boxes L g' (gl_nodes L g'))))"

definition getNodePosition :: "'g graphlib \<Rightarrow> 'g workflow_graph \<Rightarrow> string \<Rightarrow> (rat \<times> rat) option" where
  "getNodePosition L w n = map_option (\<lambda>b. (bx b, bY b)) (gl_node L (wg_graph w) n)"

subsection \<open>Components\<close>

definition createSubgraph :: "'g graphlib \<Rightarrow> 'g \<Rightarrow> string list \<Rightarrow> 'g" where
  "createSubgraph L g nodeIds =
     (let sub = foldl (\<lambda>s n. case gl_node L g n of Some b \<Rightarrow> gl_setNode L n b s | None \<Rightarrow> s)
                  (gl_setGraph L (gl_graph L g) (gl_new L)) nodeIds
      in foldl (\<lambda>s (v, w). if v \<in> set nodeIds \<and> w \<in> set nodeIds then gl_setEdge L v w s else s) sub (gl_edges L g))"

record bbox =
  minX :: rat
  minY :: rat
  maxX :: rat
  maxY :: rat

definition bb_width :: "bbox \<Rightarrow> rat" where
  "bb_width b = maxX b - minX b"

definition bb_height :: "bbox \<Rightarrow> rat" where
  "bb_height b = maxY b - minY b"

definition half_w :: "node_box \<Rightarrow> rat" where
  "half_w b = (if bwidth b \<noteq> 0 then bwidth b else 180) / 2"

definition half_h :: "node_box \<Rightarrow> rat" where
  "half_h b = (if bheight b \<noteq> 0 then bheight b else 80) / 2"

definition box_bounds :: "node_box \<Rightarrow> bbox" where
  "box_bounds b = \<lparr>minX = bx b - half_w b, minY = bY b - half_h b, maxX = bx b + half_w b, maxY = bY b + half_h b\<rparr>"

definition join_bounds :: "bbox \<Rightarrow> bbox \<Rightarrow> bbox" where
  "join_bounds a b = \<lparr>minX = min (minX a) (minX b), minY = min (minY a) (minY b),
                      maxX = max (maxX a) (maxX b), maxY = max (maxY a) (maxY b)\<rparr>"

text \<open>The source starts the minima at infinity, so the first node gives its own bounds.\<close>

definition bounding_box :: "node_box list \<Rightarrow> bbox" where
  "bounding_box bs =
     (case bs of
        [] \<Rightarrow> \<lparr>minX = 0, minY = 0, maxX = 0, maxY = 0\<rparr>
      | b # bs \<Rightarrow> foldl (\<lambda>acc b. join_bounds acc (box_bounds b)) (box_bounds b) bs)"

definition getBoundingBox :: "'g graphlib \<Rightarrow> 'g \<Rightarrow> bbox option" where
  "getBoundingBox L g = map_option (bounding_box \<circ> map snd) (node_boxes L g (gl_nodes L g))"

record 'g laid_out =
  lo_nodeIds :: "string list"
  lo_graph :: 'g
  lo_bbox :: bbox

definition layout_component :: "'g graphlib \<Rightarrow> layout_options \<Rightarrow> 'g \<Rightarrow> string list \<Rightarrow> 'g laid_out option" where
  "layout_component L opts g nodeIds =
     (let sub = set_options L opts (createSubgraph L g nodeIds);
          sub' = layout_graph L (detectCyclesInGraph L sub) sub
      in map_option (\<lambda>b. \<lparr>lo_nodeIds = nodeIds, lo_graph = sub', lo_bbox = b\<rparr>) (getBoundingBox L sub'))"

definition sort_components :: "bool \<Rightarrow> 'g laid_out list \<Rightarrow> 'g laid_out list" where
  "sort_components vertical cs = sort_key (\<lambda>c. if vertical then minX (lo_bbox c) else minY (lo_bbox c)) cs"

definition stacked_position :: "bool \<Rightarrow> rat \<Rightarrow> bbox \<Rightarrow> node_box \<Rightarrow> rat \<times> rat" where
  "stacked_position vertical offset b n =
     (if vertical then (bx n + (offset - minX b), bY n) else (bx n, bY n + (offset - minY b)))"

text \<open>The loop that stacks the laid out components along the axis across the flow.\<close>

fun stack_components :: "'g graphlib \<Rightarrow> bool \<Rightarrow> rat \<Rightarrow> 'g laid_out list \<Rightarrow> positions \<Rightarrow> positions option" where
  "stack_components L vertical offset [] m = Some m"
| "stack_components L vertical offset (c # cs) m =
     (case node_boxes L (lo_graph c) (lo_nodeIds c) of
        None \<Rightarrow> None
      | Some bs \<Rightarrow>
          stack_components L vertical
            (offset + (if vertical then bb_width (lo_bbox c) else bb_height (lo_bbox c)) + 160) cs
            (obj_assign m (map (\<lambda>(i, n). (i, stacked_position vertical offset (lo_bbox c) n)) bs)))"

definition layoutWithSplitting ::
    "'g graphlib \<Rightarrow> layout_options \<Rightarrow> 'g workflow_graph \<Rightarrow> 'g workflow_graph \<times> positions option" where
  "layoutWithSplitting L opts w =
     (let components = gl_components L (wg_graph w); vertical = (opt_rankdir opts = Some ''TB'')
      in if length components \<le> 1 then layout L opts w
         else (w, case those (map (layout_component L opts (wg_graph w)) components) of
                    None \<Rightarrow> None
                  | Some cs \<Rightarrow> stack_components L vertical 50 (sort_components vertical cs) []))"

text \<open>calculateTidyPositions (components/editor_canvas/utils/layout.js): the entry point of the canvas.\<close>

definition calculateTidyPositions ::
    "'g graphlib \<Rightarrow> layout_node list \<Rightarrow> layout_conn list \<Rightarrow> string option \<Rightarrow> rat option \<Rightarrow> positions option" where
  "calculateTidyPositions L ns cs orientation sep =
     (if ns = [] then Some []
      else snd (layoutWithSplitting L
             \<lparr>opt_rankdir = Some (if orientation = Some ''vertical'' then ''TB'' else ''LR''),
              opt_ranksep = map_option (max 1) sep\<rparr> (fromNodes L ns cs)))"

subsection \<open>What the library promises\<close>

text \<open>
  Reads: node ids are listed once, edges end in nodes, successors are the targets of the edges.
  Writes: as documented for graphlib, where \<open>setEdge\<close> creates missing ends. \<open>layout\<close> is promised only for
  an acyclic graph: it moves the nodes and changes nothing else. \<open>components\<close> is a partition.
\<close>

definition graph_reads :: "'g graphlib \<Rightarrow> bool" where
  "graph_reads L \<longleftrightarrow> (\<forall>g. distinct (gl_nodes L g)
     \<and> (\<forall>s t. (s, t) \<in> set (gl_edges L g) \<longrightarrow> s \<in> set (gl_nodes L g) \<and> t \<in> set (gl_nodes L g))
     \<and> (\<forall>n. set (gl_successors L g n) = {t. (n, t) \<in> set (gl_edges L g)}))"

definition graph_writes :: "'g graphlib \<Rightarrow> bool" where
  "graph_writes L \<longleftrightarrow> gl_nodes L (gl_new L) = [] \<and> gl_edges L (gl_new L) = []
     \<and> (\<forall>c g. gl_nodes L (gl_setGraph L c g) = gl_nodes L g \<and> gl_edges L (gl_setGraph L c g) = gl_edges L g
          \<and> gl_node L (gl_setGraph L c g) = gl_node L g)
     \<and> (\<forall>n b g. set (gl_nodes L (gl_setNode L n b g)) = insert n (set (gl_nodes L g))
          \<and> set (gl_edges L (gl_setNode L n b g)) = set (gl_edges L g)
          \<and> gl_node L (gl_setNode L n b g) = (gl_node L g)(n \<mapsto> b))
     \<and> (\<forall>s t g. set (gl_nodes L (gl_setEdge L s t g)) = insert s (insert t (set (gl_nodes L g)))
          \<and> set (gl_edges L (gl_setEdge L s t g)) = insert (s, t) (set (gl_edges L g))
          \<and> gl_node L (gl_setEdge L s t g) = gl_node L g)
     \<and> (\<forall>s t g. set (gl_nodes L (gl_removeEdge L s t g)) = set (gl_nodes L g)
          \<and> set (gl_edges L (gl_removeEdge L s t g)) = set (gl_edges L g) - {(s, t)}
          \<and> gl_node L (gl_removeEdge L s t g) = gl_node L g)"

definition same_size :: "node_box option \<Rightarrow> node_box option \<Rightarrow> bool" where
  "same_size a b \<longleftrightarrow> map_option (\<lambda>b. (bwidth b, bheight b)) a = map_option (\<lambda>b. (bwidth b, bheight b)) b"

definition layout_law :: "'g graphlib \<Rightarrow> bool" where
  "layout_law L \<longleftrightarrow> (\<forall>g. acyclic (set (gl_edges L g)) \<longrightarrow>
     set (gl_nodes L (gl_layout L g)) = set (gl_nodes L g) \<and> set (gl_edges L (gl_layout L g)) = set (gl_edges L g)
     \<and> (\<forall>n. same_size (gl_node L (gl_layout L g) n) (gl_node L g n)))"

definition components_law :: "'g graphlib \<Rightarrow> bool" where
  "components_law L \<longleftrightarrow> (\<forall>g. distinct (concat (gl_components L g))
     \<and> set (concat (gl_components L g)) = set (gl_nodes L g) \<and> [] \<notin> set (gl_components L g))"

definition graphlib_ok :: "'g graphlib \<Rightarrow> bool" where
  "graphlib_ok L \<longleftrightarrow> graph_reads L \<and> graph_writes L \<and> layout_law L \<and> components_law L"

text \<open>Every node of the graph has a label.\<close>

definition labelled :: "'g graphlib \<Rightarrow> 'g \<Rightarrow> bool" where
  "labelled L g \<longleftrightarrow> (\<forall>n \<in> set (gl_nodes L g). gl_node L g n \<noteq> None)"

lemma graphlib_writes:
  assumes "graphlib_ok L"
  shows "gl_nodes L (gl_new L) = []" and "gl_edges L (gl_new L) = []"
    and "gl_nodes L (gl_setGraph L c g) = gl_nodes L g" and "gl_edges L (gl_setGraph L c g) = gl_edges L g"
    and "gl_node L (gl_setGraph L c g) = gl_node L g"
    and "set (gl_nodes L (gl_setNode L n b g)) = insert n (set (gl_nodes L g))"
    and "set (gl_edges L (gl_setNode L n b g)) = set (gl_edges L g)"
    and "gl_node L (gl_setNode L n b g) = (gl_node L g)(n \<mapsto> b)"
    and "set (gl_nodes L (gl_setEdge L s t g)) = insert s (insert t (set (gl_nodes L g)))"
    and "set (gl_edges L (gl_setEdge L s t g)) = insert (s, t) (set (gl_edges L g))"
    and "gl_node L (gl_setEdge L s t g) = gl_node L g"
    and "set (gl_nodes L (gl_removeEdge L s t g)) = set (gl_nodes L g)"
    and "set (gl_edges L (gl_removeEdge L s t g)) = set (gl_edges L g) - {(s, t)}"
    and "gl_node L (gl_removeEdge L s t g) = gl_node L g"
  using assms by (simp_all add: graphlib_ok_def graph_writes_def)

lemma graphlib_reads:
  assumes "graphlib_ok L"
  shows "distinct (gl_nodes L g)" and "set (gl_successors L g n) = {t. (n, t) \<in> set (gl_edges L g)}"
    and "set (gl_edges L g) \<subseteq> set (gl_nodes L g) \<times> set (gl_nodes L g)"
  using assms by (auto simp: graphlib_ok_def graph_reads_def)

lemma graphlib_layout:
  assumes "graphlib_ok L" and "acyclic (set (gl_edges L g))"
  shows "set (gl_nodes L (gl_layout L g)) = set (gl_nodes L g)"
    and "set (gl_edges L (gl_layout L g)) = set (gl_edges L g)"
    and "same_size (gl_node L (gl_layout L g) n) (gl_node L g n)"
  using assms by (simp_all add: graphlib_ok_def layout_law_def)

subsection \<open>Cycles\<close>

lemma set_succ_edges:
  "graphlib_ok L \<Longrightarrow> set (succ_edges L g) = (\<lambda>(s, t). (s, t, (s, t))) ` set (gl_edges L g)"
  using graphlib_reads(3) [of L g] by (force simp: succ_edges_def graphlib_reads(2))

lemma edge_rel_succ: "graphlib_ok L \<Longrightarrow> edge_rel (succ_edges L g) = set (gl_edges L g)"
  by (force simp: edge_rel_def set_succ_edges)

lemma back_edges_search:
  obtains ns V where "dfs_roots (succ_edges L g) ns ([], []) = (V, back_edges L g)" and "set (gl_nodes L g) \<subseteq> set ns"
  by (rule that [of "filter (\<lambda>n. gl_predecessors L g n = []) (gl_nodes L g) @ gl_nodes L g"
                    "fst (dfs_roots (succ_edges L g) (filter (\<lambda>n. gl_predecessors L g n = []) (gl_nodes L g) @ gl_nodes L g) ([], []))"])
    (auto simp: back_edges_def Let_def dfs_roots_twice)

text \<open>What both searches find, for a graph of the library.\<close>

definition breaks_cycles :: "(string \<times> string) set \<Rightarrow> (string \<times> string) list \<Rightarrow> bool" where
  "breaks_cycles E B \<longleftrightarrow> acyclic (E - set B) \<and> (\<forall>(s, t) \<in> set B. (s, t) \<in> E \<and> (t, s) \<in> E\<^sup>*)"

lemma search_breaks_cycles:
  assumes L: "graphlib_ok L" and run: "dfs_roots (succ_edges L g) ns ([], []) = (V, B)"
    and ns: "set (gl_nodes L g) \<subseteq> set ns"
  shows "breaks_cycles (set (gl_edges L g)) B"
proof -
  have "fst ` set (succ_edges L g) \<subseteq> set ns"
    using graphlib_reads(3) [OF L, of g] ns by (auto simp: set_succ_edges [OF L])
  from acyclic_without_back [OF run this]
  have "acyclic (edge_rel (filter (\<lambda>(u, w, k). k \<notin> set B) (succ_edges L g)))" .
  moreover have "edge_rel (filter (\<lambda>(u, w, k). k \<notin> set B) (succ_edges L g)) = set (gl_edges L g) - set B"
    by (force simp: edge_rel_def set_succ_edges [OF L])
  moreover have "(s, t) \<in> set (gl_edges L g) \<and> (t, s) \<in> (set (gl_edges L g))\<^sup>*" if "(s, t) \<in> set B" for s t
  proof -
    have "closes_cycle (succ_edges L g) (s, t)" using dfs_roots_back [OF run] that by simp
    then show ?thesis unfolding closes_cycle_def edge_rel_succ [OF L] by (auto simp: set_succ_edges [OF L])
  qed
  ultimately show ?thesis by (auto simp: breaks_cycles_def)
qed

lemma back_edges_break: "graphlib_ok L \<Longrightarrow> breaks_cycles (set (gl_edges L g)) (back_edges L g)"
  using back_edges_search [of L g] search_breaks_cycles by metis

lemma subgraph_edges_break: "graphlib_ok L \<Longrightarrow> breaks_cycles (set (gl_edges L g)) (detectCyclesInGraph L g)"
  unfolding detectCyclesInGraph_def by (rule search_breaks_cycles [OF _ prod.collapse [symmetric]]) auto

lemma breaks_cycles_Nil: "breaks_cycles E B \<Longrightarrow> B = [] \<longleftrightarrow> acyclic E"
  unfolding breaks_cycles_def acyclic_def
  by (cases B) (auto dest: rtrancl_into_trancl2)

lemma remove_edges_keeps:
  assumes "graphlib_ok L"
  shows "set (gl_nodes L (remove_edges L es g)) = set (gl_nodes L g)
    \<and> set (gl_edges L (remove_edges L es g)) = set (gl_edges L g) - set es
    \<and> gl_node L (remove_edges L es g) = gl_node L g"
  unfolding remove_edges_def by (induction es arbitrary: g) (auto simp: graphlib_writes [OF assms])

lemma add_edges_keeps:
  assumes "graphlib_ok L"
  shows "set (gl_nodes L (add_edges L es g)) = set (gl_nodes L g) \<union> fst ` set es \<union> snd ` set es
    \<and> set (gl_edges L (add_edges L es g)) = set (gl_edges L g) \<union> set es
    \<and> gl_node L (add_edges L es g) = gl_node L g"
  unfolding add_edges_def by (induction es arbitrary: g) (auto simp: graphlib_writes [OF assms])

lemma layout_graph_keeps:
  assumes L: "graphlib_ok L" and B: "breaks_cycles (set (gl_edges L g)) B"
  shows "set (gl_nodes L (layout_graph L B g)) = set (gl_nodes L g)"
    and "set (gl_edges L (layout_graph L B g)) = set (gl_edges L g)"
    and "same_size (gl_node L (layout_graph L B g) n) (gl_node L g n)"
proof -
  let ?r = "remove_edges L B g"
  have ac: "acyclic (set (gl_edges L ?r))" using B remove_edges_keeps [OF L, of B g] by (simp add: breaks_cycles_def)
  have BE: "set B \<subseteq> set (gl_edges L g)" using B by (auto simp: breaks_cycles_def)
  note facts = graphlib_layout [OF L ac] remove_edges_keeps [OF L, of B g] add_edges_keeps [OF L, of B "gl_layout L ?r"]
  have "fst ` set B \<union> snd ` set B \<subseteq> set (gl_nodes L g)" using BE graphlib_reads(3) [OF L, of g] by fastforce
  then show "set (gl_nodes L (layout_graph L B g)) = set (gl_nodes L g)" using facts by (auto simp: layout_graph_def)
  show "set (gl_edges L (layout_graph L B g)) = set (gl_edges L g)" using facts BE by (auto simp: layout_graph_def)
  show "same_size (gl_node L (layout_graph L B g) n) (gl_node L g n)" using facts by (simp add: layout_graph_def)
qed

subsection \<open>Positions\<close>

lemma those_map_Some: "\<forall>x \<in> set xs. f x = Some (g x) \<Longrightarrow> those (map f xs) = Some (map g xs)"
  by (induction xs) auto

lemma node_boxes_Some:
  "\<forall>n \<in> set ids. gl_node L g n \<noteq> None \<Longrightarrow> node_boxes L g ids = Some (map (\<lambda>n. (n, the (gl_node L g n))) ids)"
  unfolding node_boxes_def by (rule those_map_Some) auto

lemma same_size_None: "same_size a b \<Longrightarrow> a = None \<longleftrightarrow> b = None"
  by (cases a; cases b) (auto simp: same_size_def)

lemma layout_graph_labelled:
  assumes "graphlib_ok L" "breaks_cycles (set (gl_edges L g)) B" "labelled L g"
  shows "labelled L (layout_graph L B g)"
  using assms(3) layout_graph_keeps(1) [OF assms(1,2)] same_size_None [OF layout_graph_keeps(3) [OF assms(1,2)]]
  by (simp add: labelled_def)

lemma set_options_keeps:
  assumes "graphlib_ok L"
  shows "gl_nodes L (set_options L opts g) = gl_nodes L g" and "gl_edges L (set_options L opts g) = gl_edges L g"
    and "gl_node L (set_options L opts g) = gl_node L g"
  by (simp_all add: set_options_def graphlib_writes [OF assms])

lemma map_of_obj_assign: "map_of (obj_assign m ps) = map_of m ++ map_of (rev ps)"
  unfolding obj_assign_def by (rule jso.get_put_all)

lemma distinct_obj_assign: "distinct (map_keys m) \<Longrightarrow> distinct (map_keys (obj_assign m ps))"
  unfolding obj_assign_def by (rule jso.distinct_put_all)

lemma keys_obj_assign: "set (map_keys (obj_assign m ps)) = set (map_keys m) \<union> set (map_keys ps)"
  by (simp only: jso.keys_dom map_of_obj_assign dom_map_add) (simp add: dom_map_of_conv_image_fst Un_commute)

lemma map_of_assign_ids:
  "map_of (obj_assign m (map (\<lambda>i. (i, f i)) ids)) i = (if i \<in> set ids then Some (f i) else map_of m i)"
proof -
  have "map_of (rev (map (\<lambda>i. (i, f i)) ids)) i = (if i \<in> set ids then Some (f i) else None)"
    by (simp add: rev_map map_of_map_restrict)
  then show ?thesis by (simp add: map_of_obj_assign map_add_def)
qed

lemma layout_result:
  assumes L: "graphlib_ok L" and lab: "labelled L (wg_graph w)" and run: "layout L opts w = (w', r)"
  shows "set (gl_nodes L (wg_graph w')) = set (gl_nodes L (wg_graph w))"
    and "set (gl_edges L (wg_graph w')) = set (gl_edges L (wg_graph w))"
    and "breaks_cycles (set (gl_edges L (wg_graph w))) (wg_backEdges w')"
    and "\<exists>pos. r = Some pos \<and> distinct (map_keys pos) \<and> set (map_keys pos) = set (gl_nodes L (wg_graph w))
       \<and> (\<forall>n \<in> set (gl_nodes L (wg_graph w)). map_of pos n = getNodePosition L w' n)"
proof -
  let ?g = "set_options L opts (wg_graph w)"
  let ?B = "back_edges L ?g"
  let ?g' = "layout_graph L ?B ?g"
  have B: "breaks_cycles (set (gl_edges L ?g)) ?B" by (rule back_edges_break [OF L])
  have lab': "labelled L ?g'" using layout_graph_labelled [OF L B] lab by (simp add: labelled_def set_options_keeps [OF L])
  have w': "wg_graph w' = ?g'" "wg_backEdges w' = ?B" using run by (auto simp: layout_def Let_def detectCycles_def)
  show nodes: "set (gl_nodes L (wg_graph w')) = set (gl_nodes L (wg_graph w))"
    using layout_graph_keeps(1) [OF L B] w' by (simp add: set_options_keeps [OF L])
  show "set (gl_edges L (wg_graph w')) = set (gl_edges L (wg_graph w))"
    using layout_graph_keeps(2) [OF L B] w' by (simp add: set_options_keeps [OF L])
  show "breaks_cycles (set (gl_edges L (wg_graph w))) (wg_backEdges w')"
    using B w' by (simp add: set_options_keeps [OF L])
  let ?pos = "obj_assign [] (map (\<lambda>n. (n, (bx (the (gl_node L ?g' n)), bY (the (gl_node L ?g' n))))) (gl_nodes L ?g'))"
  have "r = Some ?pos" using run lab' by (auto simp: layout_def Let_def detectCycles_def node_boxes_Some labelled_def o_def)
  moreover have "set (map_keys ?pos) = set (gl_nodes L (wg_graph w))"
    unfolding keys_obj_assign using nodes w' by (simp add: image_image)
  moreover have "map_of ?pos n = getNodePosition L w' n" if "n \<in> set (gl_nodes L (wg_graph w))" for n
    using that nodes w' lab' by (auto simp: map_of_assign_ids getNodePosition_def labelled_def)
  ultimately show "\<exists>pos. r = Some pos \<and> distinct (map_keys pos) \<and> set (map_keys pos) = set (gl_nodes L (wg_graph w))
       \<and> (\<forall>n \<in> set (gl_nodes L (wg_graph w)). map_of pos n = getNodePosition L w' n)"
    using distinct_obj_assign [of "[]"] by auto
qed

subsection \<open>Bounding boxes\<close>

lemma join_bounds_fold:
  "minX (foldl (\<lambda>acc b. join_bounds acc (box_bounds b)) acc bs) \<le> minX acc \<and>
   minY (foldl (\<lambda>acc b. join_bounds acc (box_bounds b)) acc bs) \<le> minY acc \<and>
   maxX acc \<le> maxX (foldl (\<lambda>acc b. join_bounds acc (box_bounds b)) acc bs) \<and>
   maxY acc \<le> maxY (foldl (\<lambda>acc b. join_bounds acc (box_bounds b)) acc bs)"
proof (induction bs arbitrary: acc)
  case (Cons b bs)
  from Cons [of "join_bounds acc (box_bounds b)"] show ?case by (auto simp: join_bounds_def)
qed simp

definition inside :: "bbox \<Rightarrow> bbox \<Rightarrow> bool" where
  "inside a b \<longleftrightarrow> minX b \<le> minX a \<and> minY b \<le> minY a \<and> maxX a \<le> maxX b \<and> maxY a \<le> maxY b"

lemma bounds_contain_fold:
  "b \<in> set bs \<Longrightarrow> inside (box_bounds b) (foldl (\<lambda>acc b. join_bounds acc (box_bounds b)) acc bs)"
proof (induction bs arbitrary: acc)
  case (Cons c bs)
  show ?case
  proof (cases "b = c")
    case True
    then show ?thesis using join_bounds_fold [of "join_bounds acc (box_bounds c)" bs]
      by (auto simp: inside_def join_bounds_def)
  next
    case False
    with Cons show ?thesis by simp
  qed
qed simp

lemma bounding_box_contains: "b \<in> set bs \<Longrightarrow> inside (box_bounds b) (bounding_box bs)"
  using join_bounds_fold [of "box_bounds (hd bs)" "tl bs"] bounds_contain_fold [of b "tl bs" "box_bounds (hd bs)"]
  by (cases bs) (auto simp: bounding_box_def inside_def)

subsection \<open>Stacked components\<close>

text \<open>A component that was laid out: its nodes are cards of 180 by 80 inside its bounding box.\<close>

definition axis :: "bool \<Rightarrow> rat \<times> rat \<Rightarrow> rat" where
  "axis vertical p = (if vertical then fst p else snd p)"

definition half_card :: "bool \<Rightarrow> rat" where
  "half_card vertical = (if vertical then 90 else 40)"

definition card_in :: "'g graphlib \<Rightarrow> 'g laid_out \<Rightarrow> string \<Rightarrow> bool" where
  "card_in L c i \<longleftrightarrow> (case gl_node L (lo_graph c) i of None \<Rightarrow> False
     | Some b \<Rightarrow> bwidth b = 180 \<and> bheight b = 80 \<and> inside (box_bounds b) (lo_bbox c))"

definition laid_ok :: "'g graphlib \<Rightarrow> 'g laid_out \<Rightarrow> bool" where
  "laid_ok L c \<longleftrightarrow> lo_nodeIds c \<noteq> [] \<and> (\<forall>i \<in> set (lo_nodeIds c). card_in L c i)"

definition extent :: "bool \<Rightarrow> bbox \<Rightarrow> rat" where
  "extent vertical b = (if vertical then bb_width b else bb_height b)"

lemma stacked_position_within:
  assumes "card_in L c i" and "p = stacked_position vertical off (lo_bbox c) (the (gl_node L (lo_graph c) i))"
  shows "off + half_card vertical \<le> axis vertical p"
    and "axis vertical p + half_card vertical \<le> off + extent vertical (lo_bbox c)"
  using assms by (auto simp: card_in_def stacked_position_def axis_def half_card_def extent_def bb_width_def
      bb_height_def inside_def box_bounds_def half_w_def half_h_def split: option.splits)

lemma laid_ok_extent:
  assumes "laid_ok L c"
  shows "0 \<le> extent vertical (lo_bbox c)"
proof -
  obtain i where "card_in L c i" using assms by (cases "lo_nodeIds c") (auto simp: laid_ok_def)
  then show ?thesis by (auto simp: card_in_def extent_def bb_width_def bb_height_def inside_def box_bounds_def
        half_w_def half_h_def split: option.splits)
qed

text \<open>What the loop leaves in the positions, seen from the offset it starts with.\<close>

definition stacked :: "bool \<Rightarrow> rat \<Rightarrow> 'g laid_out list \<Rightarrow> positions \<Rightarrow> positions \<Rightarrow> bool" where
  "stacked vertical off cs m m' \<longleftrightarrow>
     (let ids = concat (map lo_nodeIds cs); coord = (\<lambda>i. axis vertical (the (map_of m' i)))
      in set (map_keys m') = set (map_keys m) \<union> set ids
         \<and> (distinct (map_keys m) \<longrightarrow> distinct (map_keys m'))
         \<and> (\<forall>i. i \<notin> set ids \<longrightarrow> map_of m' i = map_of m i)
         \<and> (\<forall>i \<in> set ids. off + half_card vertical \<le> coord i)
         \<and> (\<forall>c \<in> set cs. \<forall>d \<in> set cs. c \<noteq> d \<longrightarrow> (\<forall>i \<in> set (lo_nodeIds c). \<forall>j \<in> set (lo_nodeIds d).
              2 * half_card vertical + 160 \<le> \<bar>coord i - coord j\<bar>)))"

lemma stack_step:
  assumes c: "laid_ok L c" and new: "set (lo_nodeIds c) \<inter> set (concat (map lo_nodeIds cs)) = {}"
    and m1: "m1 = obj_assign m (map (\<lambda>i. (i, stacked_position vertical off (lo_bbox c)
                                             (the (gl_node L (lo_graph c) i)))) (lo_nodeIds c))"
    and later: "stacked vertical (off + extent vertical (lo_bbox c) + 160) cs m1 m'"
  shows "stacked vertical off (c # cs) m m'"
proof -
  let ?coord = "\<lambda>i. axis vertical (the (map_of m' i))" and ?off' = "off + extent vertical (lo_bbox c) + 160"
  let ?ids = "set (concat (map lo_nodeIds cs))"
  note m' = later [unfolded stacked_def Let_def]
  have here: "off + half_card vertical \<le> ?coord i \<and> ?coord i + half_card vertical \<le> off + extent vertical (lo_bbox c)"
    if "i \<in> set (lo_nodeIds c)" for i
  proof -
    have "map_of m' i = map_of m1 i" using m' that new by blast
    moreover have "card_in L c i" using c that by (simp add: laid_ok_def)
    ultimately show ?thesis using that stacked_position_within [where L = L and c = c and i = i and vertical = vertical and off = off, OF _ refl]
      by (simp add: m1 map_of_assign_ids)
  qed
  have there: "?off' + half_card vertical \<le> ?coord i" if "i \<in> ?ids" for i using m' that by blast
  have apart: "2 * half_card vertical + 160 \<le> \<bar>?coord i - ?coord j\<bar> \<and> 2 * half_card vertical + 160 \<le> \<bar>?coord j - ?coord i\<bar>"
    if "i \<in> set (lo_nodeIds c)" "j \<in> ?ids" for i j
    using here [OF that(1)] there [OF that(2)] by (simp add: abs_if)
  have ids: "set (lo_nodeIds d) \<subseteq> ?ids" if "d \<in> set cs" for d using that by auto
  have "off + half_card vertical \<le> ?coord i" if "i \<in> set (concat (map lo_nodeIds (c # cs)))" for i
    using that here [of i] there [of i] laid_ok_extent [OF c, of vertical] by fastforce
  moreover have "2 * half_card vertical + 160 \<le> \<bar>?coord i - ?coord j\<bar>"
    if "d \<in> set (c # cs)" "e \<in> set (c # cs)" "d \<noteq> e" "i \<in> set (lo_nodeIds d)" "j \<in> set (lo_nodeIds e)" for d e i j
    using that apart ids m' by (cases "d = c"; cases "e = c") (auto, blast+)
  moreover have "set (map_keys m') = set (map_keys m) \<union> set (concat (map lo_nodeIds (c # cs)))"
    using m' keys_obj_assign [of m] by (auto simp: m1 image_image)
  moreover have "distinct (map_keys m) \<longrightarrow> distinct (map_keys m')" using m' distinct_obj_assign unfolding m1 by blast
  moreover have "map_of m' i = map_of m i" if "i \<notin> set (concat (map lo_nodeIds (c # cs)))" for i
    using m' that by (simp add: m1 map_of_assign_ids)
  ultimately show ?thesis unfolding stacked_def Let_def by (intro conjI ballI allI impI) blast+
qed

lemma stack_components_stacked:
  assumes "\<forall>c \<in> set cs. laid_ok L c" and "distinct (concat (map lo_nodeIds cs))"
  shows "\<exists>m'. stack_components L vertical off cs m = Some m' \<and> stacked vertical off cs m m'"
  using assms
proof (induction cs arbitrary: off m)
  case Nil
  then show ?case by (simp add: stacked_def)
next
  case (Cons c cs)
  have c: "laid_ok L c" using Cons.prems by simp
  then have boxes: "node_boxes L (lo_graph c) (lo_nodeIds c)
      = Some (map (\<lambda>i. (i, the (gl_node L (lo_graph c) i))) (lo_nodeIds c))"
    by (intro node_boxes_Some) (auto simp: laid_ok_def card_in_def split: option.splits)
  let ?m1 = "obj_assign m (map (\<lambda>i. (i, stacked_position vertical off (lo_bbox c)
                                           (the (gl_node L (lo_graph c) i)))) (lo_nodeIds c))"
  obtain m' where m': "stack_components L vertical (off + extent vertical (lo_bbox c) + 160) cs ?m1 = Some m'"
    "stacked vertical (off + extent vertical (lo_bbox c) + 160) cs ?m1 m'" using Cons by fastforce
  have "stack_components L vertical off (c # cs) m = Some m'" using m'(1) boxes by (simp add: extent_def o_def)
  moreover have "stacked vertical off (c # cs) m m'" using Cons.prems(2) by (intro stack_step [OF c _ refl m'(2)]) auto
  ultimately show ?case by blast
qed

subsection \<open>From the nodes to the positions\<close>

definition is_card :: "node_box option \<Rightarrow> bool" where
  "is_card b \<longleftrightarrow> map_option (\<lambda>b. (bwidth b, bheight b)) b = Some (180, 80)"

definition all_cards :: "'g graphlib \<Rightarrow> 'g \<Rightarrow> bool" where
  "all_cards L g \<longleftrightarrow> (\<forall>n \<in> set (gl_nodes L g). is_card (gl_node L g n))"

lemma all_cards_labelled: "all_cards L g \<Longrightarrow> labelled L g"
  by (auto simp: all_cards_def labelled_def is_card_def)

lemma same_size_card: "same_size a b \<Longrightarrow> is_card b \<Longrightarrow> is_card a"
  by (simp add: same_size_def is_card_def)

lemma add_cards:
  assumes L: "graphlib_ok L" and g: "all_cards L g"
    and g': "g' = foldl (\<lambda>g n. gl_setNode L (ln_id n) \<lparr>bx = ln_x n, bY = ln_y n, bwidth = 180, bheight = 80\<rparr> g) g ns"
  shows "all_cards L g' \<and> set (gl_nodes L g') = set (gl_nodes L g) \<union> ln_id ` set ns"
  using g unfolding g'
proof (induction ns arbitrary: g)
  case (Cons n ns)
  have "all_cards L (gl_setNode L (ln_id n) \<lparr>bx = ln_x n, bY = ln_y n, bwidth = 180, bheight = 80\<rparr> g)"
    using Cons.prems by (auto simp: all_cards_def graphlib_writes [OF L] is_card_def)
  from Cons.IH [OF this] show ?case by (auto simp: graphlib_writes [OF L])
qed simp

lemma add_conns:
  assumes L: "graphlib_ok L" and g: "all_cards L g"
    and cs: "\<forall>c \<in> set cs. lc_source c \<in> set (gl_nodes L g) \<and> lc_target c \<in> set (gl_nodes L g)"
    and g': "g' = foldl (\<lambda>g c. gl_setEdge L (lc_source c) (lc_target c) g) g cs"
  shows "all_cards L g' \<and> set (gl_nodes L g') = set (gl_nodes L g)"
  using g cs unfolding g'
proof (induction cs arbitrary: g)
  case (Cons c cs)
  let ?g = "gl_setEdge L (lc_source c) (lc_target c) g"
  have nodes: "set (gl_nodes L ?g) = set (gl_nodes L g)" using Cons.prems by (auto simp: graphlib_writes [OF L])
  then have "all_cards L ?g" using Cons.prems by (simp add: all_cards_def graphlib_writes(11) [OF L])
  from Cons.IH [OF this] Cons.prems nodes show ?case by simp
qed simp

lemma fromNodes_cards:
  assumes L: "graphlib_ok L" and ends: "\<forall>c \<in> set cs. lc_source c \<in> ln_id ` set ns \<and> lc_target c \<in> ln_id ` set ns"
  shows "all_cards L (wg_graph (fromNodes L ns cs)) \<and> set (gl_nodes L (wg_graph (fromNodes L ns cs))) = ln_id ` set ns"
proof -
  let ?g = "foldl (\<lambda>g n. gl_setNode L (ln_id n) \<lparr>bx = ln_x n, bY = ln_y n, bwidth = 180, bheight = 80\<rparr> g)
      (gl_setGraph L start_config (gl_new L)) (sortedNodes ns cs)"
  have "all_cards L (gl_setGraph L start_config (gl_new L))" by (simp add: all_cards_def graphlib_writes [OF L])
  from add_cards [OF L this refl, of "sortedNodes ns cs"]
  have g: "all_cards L ?g" "set (gl_nodes L ?g) = ln_id ` set ns"
    by (simp_all add: graphlib_writes [OF L] sortedNodes_def Let_def)
  from add_conns [OF L g(1) _ refl, of cs] ends g(2) show ?thesis by (simp add: fromNodes_def)
qed

lemma createSubgraph_cards:
  assumes L: "graphlib_ok L" and g: "all_cards L g" and ids: "set ids \<subseteq> set (gl_nodes L g)"
  shows "all_cards L (createSubgraph L g ids) \<and> set (gl_nodes L (createSubgraph L g ids)) = set ids"
proof -
  let ?add = "\<lambda>s n. case gl_node L g n of Some b \<Rightarrow> gl_setNode L n b s | None \<Rightarrow> s"
  have nodes: "all_cards L (foldl ?add s ids) \<and> set (gl_nodes L (foldl ?add s ids)) = set (gl_nodes L s) \<union> set ids"
    if "all_cards L s" "set ids \<subseteq> set (gl_nodes L g)" for s ids
    using that
  proof (induction ids arbitrary: s)
    case (Cons n ids)
    then obtain b where b: "gl_node L g n = Some b" "is_card (Some b)" using g
      by (auto simp: all_cards_def is_card_def)
    then have "all_cards L (?add s n)" using Cons.prems(1) by (auto simp: all_cards_def graphlib_writes [OF L])
    from Cons.IH [OF this] Cons.prems(2) b(1) show ?case by (auto simp: graphlib_writes [OF L])
  qed simp
  let ?sub = "foldl ?add (gl_setGraph L (gl_graph L g) (gl_new L)) ids"
  have sub: "all_cards L ?sub" "set (gl_nodes L ?sub) = set ids"
    using nodes [OF _ ids, of "gl_setGraph L (gl_graph L g) (gl_new L)"] by (auto simp: graphlib_writes [OF L] all_cards_def)
  let ?edge = "\<lambda>s (v, w). if v \<in> set ids \<and> w \<in> set ids then gl_setEdge L v w s else s"
  have "all_cards L (foldl ?edge s es) \<and> set (gl_nodes L (foldl ?edge s es)) = set ids"
    if "all_cards L s" "set (gl_nodes L s) = set ids" for s es
    using that
  proof (induction es arbitrary: s)
    case (Cons e es)
    obtain v w where e: "e = (v, w)" by fastforce
    have "all_cards L (?edge s e) \<and> set (gl_nodes L (?edge s e)) = set ids"
      using Cons.prems by (auto simp: e all_cards_def graphlib_writes [OF L])
    with Cons.IH [of "?edge s e"] show ?case by simp
  qed simp
  with sub show ?thesis by (simp add: createSubgraph_def Let_def)
qed

lemma layout_component_ok:
  assumes L: "graphlib_ok L" and g: "all_cards L g" and ids: "set ids \<subseteq> set (gl_nodes L g)" "ids \<noteq> []"
  shows "\<exists>c. layout_component L opts g ids = Some c \<and> lo_nodeIds c = ids \<and> laid_ok L c"
proof -
  let ?sub = "set_options L opts (createSubgraph L g ids)"
  let ?sub' = "layout_graph L (detectCyclesInGraph L ?sub) ?sub"
  have sub: "all_cards L ?sub" "set (gl_nodes L ?sub) = set ids"
    using createSubgraph_cards [OF L g ids(1)] by (simp_all add: all_cards_def set_options_keeps [OF L])
  note B = subgraph_edges_break [OF L, of ?sub]
  have nodes: "set (gl_nodes L ?sub') = set ids" using layout_graph_keeps(1) [OF L B] sub(2) by simp
  have card: "is_card (gl_node L ?sub' i)" if "i \<in> set ids" for i
    using same_size_card [OF layout_graph_keeps(3) [OF L B, of i]] sub that by (simp add: all_cards_def)
  let ?boxes = "map (\<lambda>n. (n, the (gl_node L ?sub' n))) (gl_nodes L ?sub')"
  have "node_boxes L ?sub' (gl_nodes L ?sub') = Some ?boxes"
    using card nodes by (intro node_boxes_Some) (auto simp: is_card_def)
  then have res: "layout_component L opts g ids
      = Some \<lparr>lo_nodeIds = ids, lo_graph = ?sub', lo_bbox = bounding_box (map snd ?boxes)\<rparr>" (is "_ = Some ?c")
    by (simp add: layout_component_def Let_def getBoundingBox_def)
  have "card_in L ?c i" if i: "i \<in> set ids" for i
  proof -
    obtain b where b: "gl_node L ?sub' i = Some b" "bwidth b = 180" "bheight b = 80"
      using card [OF i] by (auto simp: is_card_def)
    have "b \<in> set (map snd ?boxes)" using b(1) i nodes by (force simp: image_iff)
    from bounding_box_contains [OF this] b show ?thesis by (simp add: card_in_def)
  qed
  with res ids(2) show ?thesis by (auto simp: laid_ok_def)
qed

lemma mset_concat_sort: "mset (concat (map f (sort_key k cs))) = mset (concat (map f cs))"
proof -
  have "mset (map (mset \<circ> f) (sort_key k cs)) = mset (map (mset \<circ> f) cs)" by simp
  then show ?thesis by (metis (no_types) List.map.compositionality mset_concat sum_mset_sum_list)
qed

lemma components_facts:
  assumes "graphlib_ok L"
  shows "distinct (concat (gl_components L g))" and "set (concat (gl_components L g)) = set (gl_nodes L g)"
    and "[] \<notin> set (gl_components L g)"
  using assms by (auto simp: graphlib_ok_def components_law_def)

lemma splitting_stacked:
  fixes L :: "'g graphlib"
  assumes L: "graphlib_ok L" and g: "all_cards L (wg_graph w)" and many: "1 < length (gl_components L (wg_graph w))"
  shows "\<exists>(cs :: 'g laid_out list) pos. layoutWithSplitting L opts w = (w, Some pos)
    \<and> lo_nodeIds ` set cs = set (gl_components L (wg_graph w))
    \<and> stacked (opt_rankdir opts = Some ''TB'') 50 cs [] pos"
proof -
  let ?g = "wg_graph w" and ?v = "opt_rankdir opts = Some ''TB''"
  let ?comps = "gl_components L ?g"
  note comps = components_facts [OF L, of ?g]
  have "\<forall>ids \<in> set ?comps. \<exists>c. layout_component L opts ?g ids = Some c \<and> lo_nodeIds c = ids \<and> laid_ok L c"
    using comps(2,3) by (intro ballI layout_component_ok [OF L g]) auto
  then obtain f where f: "\<forall>ids \<in> set ?comps. layout_component L opts ?g ids = Some (f ids)
      \<and> lo_nodeIds (f ids) = ids \<and> laid_ok L (f ids)" by metis
  let ?cs = "sort_components ?v (map f ?comps)"
  have "those (map (layout_component L opts ?g) ?comps) = Some (map f ?comps)" using f by (intro those_map_Some) simp
  moreover have ids: "map (\<lambda>x. lo_nodeIds (f x)) ?comps = ?comps" using f by (intro map_idI) simp
  have "distinct (concat (map lo_nodeIds ?cs))"
  proof (rule mset_eq_imp_distinct_iff [THEN iffD2])
    show "mset (concat (map lo_nodeIds ?cs)) = mset (concat ?comps)"
      unfolding sort_components_def mset_concat_sort using ids by (simp add: o_def)
  qed (rule comps(1))
  moreover have "\<forall>c \<in> set ?cs. laid_ok L c" using f by (auto simp: sort_components_def)
  ultimately obtain pos where "stack_components L ?v 50 ?cs [] = Some pos" "stacked ?v 50 ?cs [] pos"
    "those (map (layout_component L opts ?g) ?comps) = Some (map f ?comps)"
    using stack_components_stacked [of ?cs L ?v 50 "[]"] by auto
  moreover have "lo_nodeIds ` set ?cs = set ?comps" using f by (force simp: sort_components_def image_iff)
  ultimately show ?thesis using many by (intro exI [of _ ?cs] exI [of _ pos]) (simp add: layoutWithSplitting_def Let_def)
qed

text \<open>The positions of two nodes are a card and the spacing apart along the stacking axis.\<close>

definition apart :: "bool \<Rightarrow> positions \<Rightarrow> string \<Rightarrow> string \<Rightarrow> bool" where
  "apart vertical pos i j \<longleftrightarrow>
     (if vertical then 340 \<le> \<bar>fst (the (map_of pos i)) - fst (the (map_of pos j))\<bar>
      else 240 \<le> \<bar>snd (the (map_of pos i)) - snd (the (map_of pos j))\<bar>)"

lemma stacked_apart:
  assumes "stacked vertical off lcs m pos" and "e \<in> set lcs" "f \<in> set lcs" "lo_nodeIds e \<noteq> lo_nodeIds f"
    and "i \<in> set (lo_nodeIds e)" "j \<in> set (lo_nodeIds f)"
  shows "apart vertical pos i j"
proof -
  have "e \<noteq> f" using assms(4) by blast
  with assms have "2 * half_card vertical + 160 \<le> \<bar>axis vertical (the (map_of pos i)) - axis vertical (the (map_of pos j))\<bar>"
    by (simp add: stacked_def Let_def)
  then show ?thesis by (cases vertical) (simp_all add: axis_def half_card_def apart_def)
qed

lemma splitting_positions:
  fixes L :: "'g graphlib"
  assumes L: "graphlib_ok L" and cards: "all_cards L (wg_graph w)"
  shows "\<exists>pos. snd (layoutWithSplitting L opts w) = Some pos
    \<and> distinct (map_keys pos) \<and> set (map_keys pos) = set (gl_nodes L (wg_graph w))
    \<and> (\<forall>c \<in> set (gl_components L (wg_graph w)). \<forall>d \<in> set (gl_components L (wg_graph w)).
         c \<noteq> d \<longrightarrow> (\<forall>i \<in> set c. \<forall>j \<in> set d. apart (opt_rankdir opts = Some ''TB'') pos i j))"
proof (cases "length (gl_components L (wg_graph w)) \<le> 1")
  case True
  obtain w' r where run: "layout L opts w = (w', r)" by fastforce
  obtain pos where "r = Some pos" "distinct (map_keys pos)" "set (map_keys pos) = set (gl_nodes L (wg_graph w))"
    using layout_result(4) [OF L all_cards_labelled [OF cards] run] by auto
  moreover have "c = d" if "c \<in> set (gl_components L (wg_graph w))" "d \<in> set (gl_components L (wg_graph w))" for c d
    using True that by (cases "gl_components L (wg_graph w)") auto
  ultimately show ?thesis using run True by (auto simp: layoutWithSplitting_def)
next
  case False
  let ?v = "opt_rankdir opts = Some ''TB''"
  from False obtain lcs :: "'g laid_out list" and pos where run: "layoutWithSplitting L opts w = (w, Some pos)"
    and ids: "lo_nodeIds ` set lcs = set (gl_components L (wg_graph w))" and st: "stacked ?v 50 lcs [] pos"
    using splitting_stacked [OF L cards, of opts] by auto
  have "set (map_keys pos) = set (gl_nodes L (wg_graph w))" "distinct (map_keys pos)"
    using st components_facts(2) [OF L, of "wg_graph w"] ids by (auto simp: stacked_def Let_def)
  then show ?thesis using run stacked_apart [OF st] unfolding ids [symmetric] by auto
qed

subsection \<open>A graph library\<close>

text \<open>An instance of the library that satisfies the promises, with which the theorems are applied.\<close>

record list_graph =
  lg_config :: graph_config
  lg_nodes :: "string list"
  lg_edges :: "(string \<times> string) list"
  lg_labels :: "string \<Rightarrow> node_box option"

definition lg_all :: "list_graph \<Rightarrow> string list" where
  "lg_all g = remdups (lg_nodes g @ map fst (lg_edges g) @ map snd (lg_edges g))"

definition lg_merge :: "string list list \<Rightarrow> string \<times> string \<Rightarrow> string list list" where
  "lg_merge cs e =
     (let joined = filter (\<lambda>c. fst e \<in> set c \<or> snd e \<in> set c) cs
      in if joined = [] then cs
         else concat joined # filter (\<lambda>c. \<not> (fst e \<in> set c \<or> snd e \<in> set c)) cs)"

definition list_graphlib :: "list_graph graphlib" where
  "list_graphlib =
     \<lparr>gl_new = \<lparr>lg_config = start_config, lg_nodes = [], lg_edges = [], lg_labels = (\<lambda>_. None)\<rparr>,
      gl_graph = lg_config,
      gl_setGraph = (\<lambda>c g. g\<lparr>lg_config := c\<rparr>),
      gl_setNode = (\<lambda>n b g. g\<lparr>lg_nodes := n # lg_nodes g, lg_labels := (lg_labels g)(n \<mapsto> b)\<rparr>),
      gl_setEdge = (\<lambda>s t g. g\<lparr>lg_edges := (s, t) # lg_edges g\<rparr>),
      gl_removeEdge = (\<lambda>s t g. if (s, t) \<in> set (lg_edges g)
         then g\<lparr>lg_nodes := s # t # lg_nodes g, lg_edges := removeAll (s, t) (lg_edges g)\<rparr> else g),
      gl_nodes = lg_all,
      gl_edges = lg_edges,
      gl_successors = (\<lambda>g n. map snd (filter (\<lambda>e. fst e = n) (lg_edges g))),
      gl_predecessors = (\<lambda>g n. map fst (filter (\<lambda>e. snd e = n) (lg_edges g))),
      gl_node = lg_labels,
      gl_components = (\<lambda>g. foldl lg_merge (map (\<lambda>n. [n]) (lg_all g)) (lg_edges g)),
      gl_layout = (\<lambda>g. g\<lparr>lg_labels := \<lambda>n. map_option (\<lambda>b. b\<lparr>bx := bx b + 50, bY := bY b + 50\<rparr>) (lg_labels g n)\<rparr>)\<rparr>"

lemma mset_lg_merge: "mset (concat (lg_merge cs e)) = mset (concat cs)"
proof -
  have "mset (concat (filter P cs)) + mset (concat (filter (\<lambda>c. \<not> P c) cs)) = mset (concat cs)" for P
    by (induction cs) (auto simp: ac_simps)
  from this [of "\<lambda>c. fst e \<in> set c \<or> snd e \<in> set c"] show ?thesis by (auto simp: lg_merge_def Let_def)
qed

lemma lg_merge_nonempty: "[] \<notin> set cs \<Longrightarrow> [] \<notin> set (lg_merge cs e)"
  by (auto simp: lg_merge_def Let_def filter_empty_conv)

lemma lg_components: "mset (concat (foldl lg_merge cs es)) = mset (concat cs) \<and> ([] \<notin> set cs \<longrightarrow> [] \<notin> set (foldl lg_merge cs es))"
  by (induction es arbitrary: cs) (auto simp: mset_lg_merge lg_merge_nonempty)

lemma set_lg_all: "set (lg_all g) = set (lg_nodes g) \<union> Field (set (lg_edges g))"
  by (auto simp: lg_all_def Field_def Domain_fst Range_snd)

lemma ends_without:
  "(s, t) \<in> E \<Longrightarrow> insert s (insert t (N \<union> Field (E - {(s, t)}))) = N \<union> Field E"
  by (auto simp: Field_def)

lemma lg_all_simps:
  "lg_all \<lparr>lg_config = c, lg_nodes = [], lg_edges = [], lg_labels = l\<rparr> = []"
  "lg_all (g\<lparr>lg_config := c\<rparr>) = lg_all g"
  by (simp_all add: lg_all_def)

lemma list_graphlib_ok: "graphlib_ok list_graphlib"
proof -
  have "graph_reads list_graphlib" by (force simp: graph_reads_def list_graphlib_def lg_all_def)
  moreover have "graph_writes list_graphlib"
    by (auto simp: graph_writes_def list_graphlib_def lg_all_simps set_lg_all ends_without)
  moreover have "layout_law list_graphlib"
    by (auto simp: layout_law_def list_graphlib_def lg_all_def same_size_def option.map_comp o_def)
  moreover have "components_law list_graphlib"
  proof -
    have "distinct (concat (foldl lg_merge (map (\<lambda>n. [n]) (lg_all g)) es))
        \<and> set (concat (foldl lg_merge (map (\<lambda>n. [n]) (lg_all g)) es)) = set (lg_all g)
        \<and> [] \<notin> set (foldl lg_merge (map (\<lambda>n. [n]) (lg_all g)) es)" for g es
    proof -
      have m: "mset (concat (foldl lg_merge (map (\<lambda>n. [n]) (lg_all g)) es)) = mset (lg_all g)"
        and "[] \<notin> set (foldl lg_merge (map (\<lambda>n. [n]) (lg_all g)) es)"
        using lg_components [of "map (\<lambda>n. [n]) (lg_all g)" es] by auto
      with mset_eq_imp_distinct_iff [OF m] mset_eq_setD [OF m] show ?thesis by (simp add: lg_all_def)
    qed
    then show ?thesis by (simp add: components_law_def list_graphlib_def)
  qed
  ultimately show ?thesis by (simp add: graphlib_ok_def)
qed

subsection \<open>Properties\<close>

text \<open>C15: The layout library is only ever given an acyclic graph, and the workflow is not changed by the
  layout. For a library that keeps its promises (\<open>layout\<close> only on acyclic graphs) and a graph whose nodes
  have labels, \<open>layout\<close> removes edges that each close a cycle of the graph, what is left has no cycle, all
  removed edges are back afterwards, and the result has exactly one position per node, the one the
  library computed.\<close>

theorem layout_breaks_cycles:
  assumes "graphlib_ok L" and "labelled L (wg_graph w)" and "layout L opts w = (w', r)"
  shows "acyclic (set (gl_edges L (remove_edges L (wg_backEdges w') (set_options L opts (wg_graph w)))))
    \<and> (\<forall>(s, t) \<in> set (wg_backEdges w'). (s, t) \<in> set (gl_edges L (wg_graph w)) \<and> (t, s) \<in> (set (gl_edges L (wg_graph w)))\<^sup>*)
    \<and> set (gl_nodes L (wg_graph w')) = set (gl_nodes L (wg_graph w))
    \<and> set (gl_edges L (wg_graph w')) = set (gl_edges L (wg_graph w))
    \<and> (\<exists>pos. r = Some pos \<and> distinct (map_keys pos) \<and> set (map_keys pos) = set (gl_nodes L (wg_graph w))
         \<and> (\<forall>n \<in> set (gl_nodes L (wg_graph w)). map_of pos n = getNodePosition L w' n))"
proof -
  note res = layout_result [OF assms]
  have "acyclic (set (gl_edges L (remove_edges L (wg_backEdges w') (set_options L opts (wg_graph w)))))"
    using res(3) remove_edges_keeps [OF assms(1)] by (simp add: breaks_cycles_def set_options_keeps [OF assms(1)])
  moreover have "\<forall>(s, t) \<in> set (wg_backEdges w'). (s, t) \<in> set (gl_edges L (wg_graph w)) \<and> (t, s) \<in> (set (gl_edges L (wg_graph w)))\<^sup>*"
    using res(3) by (simp add: breaks_cycles_def)
  ultimately show ?thesis using res(1,2,4) by blast
qed

abbreviation demo_node :: "string \<Rightarrow> layout_node" where
  "demo_node i \<equiv> \<lparr>ln_id = i, ln_x = 0, ln_y = 0\<rparr>"

abbreviation demo_loop :: "list_graph workflow_graph" where
  "demo_loop \<equiv> fromNodes list_graphlib [demo_node ''a'', demo_node ''b'']
     [\<lparr>lc_source = ''a'', lc_target = ''b''\<rparr>, \<lparr>lc_source = ''b'', lc_target = ''a''\<rparr>]"

abbreviation no_options :: layout_options where
  "no_options \<equiv> \<lparr>opt_rankdir = None, opt_ranksep = None\<rparr>"

theorem layout_breaks_cycles_witness:
  "\<exists>pos. snd (layout list_graphlib no_options demo_loop) = Some pos \<and> set (map_keys pos) = {''a'', ''b''}"
proof -
  have "all_cards list_graphlib (wg_graph demo_loop) \<and> set (gl_nodes list_graphlib (wg_graph demo_loop)) = {''a'', ''b''}"
    using fromNodes_cards [OF list_graphlib_ok, of _ "[demo_node ''a'', demo_node ''b'']"] by simp
  then show ?thesis
    using layout_breaks_cycles [OF list_graphlib_ok all_cards_labelled, of demo_loop no_options
        "fst (layout list_graphlib no_options demo_loop)" "snd (layout list_graphlib no_options demo_loop)"]
    by auto
qed

text \<open>\<open>hasCycles\<close> decides whether the graph has a cycle: on a graph whose back edges were not computed
  yet it returns true exactly if the edges have one, and remembers back edges each of which closes a
  cycle.\<close>

theorem hasCycles_decides:
  assumes "graphlib_ok L" and "wg_backEdges w = []"
  shows "(fst (hasCycles L w) \<longleftrightarrow> \<not> acyclic (set (gl_edges L (wg_graph w))))
    \<and> (\<forall>(s, t) \<in> set (wg_backEdges (snd (hasCycles L w))). (t, s) \<in> (set (gl_edges L (wg_graph w)))\<^sup>*)"
  using back_edges_break [OF assms(1), of "wg_graph w"] breaks_cycles_Nil assms(2)
  by (auto simp: hasCycles_def Let_def detectCycles_def breaks_cycles_def)

theorem hasCycles_decides_witness:
  "fst (hasCycles list_graphlib demo_loop)"
proof -
  let ?E = "set (gl_edges list_graphlib (wg_graph demo_loop))"
  have "?E = {(''a'', ''b''), (''b'', ''a'')}" by (simp add: fromNodes_def list_graphlib_def sortedNodes_def insert_commute)
  then have "(''a'', ''b'') \<in> ?E" "(''b'', ''a'') \<in> ?E" by simp_all
  then have "(''a'', ''a'') \<in> ?E\<^sup>+" by (rule trancl_into_trancl [OF r_into_trancl])
  then have "\<not> acyclic ?E" unfolding acyclic_def by blast
  then show ?thesis using hasCycles_decides [OF list_graphlib_ok, of demo_loop] by (simp add: fromNodes_def)
qed

lemma tidy_facts:
  assumes L: "graphlib_ok L" and ends: "\<forall>c \<in> set cs. lc_source c \<in> ln_id ` set ns \<and> lc_target c \<in> ln_id ` set ns"
  shows "\<exists>pos. calculateTidyPositions L ns cs orientation sep = Some pos
    \<and> distinct (map_keys pos) \<and> set (map_keys pos) = ln_id ` set ns
    \<and> (\<forall>c \<in> set (gl_components L (wg_graph (fromNodes L ns cs))). \<forall>d \<in> set (gl_components L (wg_graph (fromNodes L ns cs))).
         c \<noteq> d \<longrightarrow> (\<forall>i \<in> set c. \<forall>j \<in> set d.
           if orientation = Some ''vertical'' then 340 \<le> \<bar>fst (the (map_of pos i)) - fst (the (map_of pos j))\<bar>
           else 240 \<le> \<bar>snd (the (map_of pos i)) - snd (the (map_of pos j))\<bar>))"
proof (cases "ns = []")
  case True
  then show ?thesis using fromNodes_cards [OF L ends] components_facts [OF L, of "wg_graph (fromNodes L ns cs)"]
    by (auto simp: calculateTidyPositions_def)
next
  case False
  let ?opts = "\<lparr>opt_rankdir = Some (if orientation = Some ''vertical'' then ''TB'' else ''LR''),
                opt_ranksep = map_option (max 1) sep\<rparr>"
  have tb: "opt_rankdir ?opts = Some ''TB'' \<longleftrightarrow> orientation = Some ''vertical''" by simp
  show ?thesis using splitting_positions [OF L, of "fromNodes L ns cs" ?opts] fromNodes_cards [OF L ends] False
    unfolding apart_def tb by (simp add: calculateTidyPositions_def)
qed

text \<open>C16: Tidying up places every node once and keeps unconnected parts apart. For a library that keeps its
  promises and connections between listed nodes, \<open>calculateTidyPositions\<close> returns a position for exactly
  the given nodes, and two nodes of different components are at least a card and 160 apart along the
  axis across the flow (340 horizontally in a vertical layout, 240 vertically in a horizontal one), so
  no cards of two components overlap.\<close>

theorem tidy_positions:
  assumes L: "graphlib_ok L" and ends: "\<forall>c \<in> set cs. lc_source c \<in> ln_id ` set ns \<and> lc_target c \<in> ln_id ` set ns"
  shows "\<exists>pos. calculateTidyPositions L ns cs orientation sep = Some pos
    \<and> distinct (map_keys pos) \<and> set (map_keys pos) = ln_id ` set ns
    \<and> (\<forall>c \<in> set (gl_components L (wg_graph (fromNodes L ns cs))). \<forall>d \<in> set (gl_components L (wg_graph (fromNodes L ns cs))).
         c \<noteq> d \<longrightarrow> (\<forall>i \<in> set c. \<forall>j \<in> set d.
           if orientation = Some ''vertical'' then 340 \<le> \<bar>fst (the (map_of pos i)) - fst (the (map_of pos j))\<bar>
           else 240 \<le> \<bar>snd (the (map_of pos i)) - snd (the (map_of pos j))\<bar>))"
  by (rule tidy_facts [OF assms])

theorem tidy_positions_witness:
  "\<exists>pos. calculateTidyPositions list_graphlib [demo_node ''a'', demo_node ''b'', demo_node ''c'']
       [\<lparr>lc_source = ''a'', lc_target = ''b''\<rparr>] None None = Some pos
     \<and> set (map_keys pos) = {''a'', ''b'', ''c''}"
  using tidy_positions [OF list_graphlib_ok, of "[\<lparr>lc_source = ''a'', lc_target = ''b''\<rparr>]"
      "[demo_node ''a'', demo_node ''b'', demo_node ''c'']" None None] by auto

end
