(* ===== verification/Canvas_Actions.thy ===== *)
theory Canvas_Actions
  imports Gestures Graph_Layout
begin

section \<open>Actions of the canvas (components/editor_canvas.js)\<close>

text \<open>
  The handlers of the canvas component in editor mode: tidying up, selecting, deleting and inserting nodes, the
  node menu and its deferred connections, and the configuration panel. Each acts through the store. A
  timer that is set is a field of the record \<open>deferred\<close>, its callback a definition of its own. The host's
  dialog service and the positions of DOM elements are not part of the model.
\<close>

subsection \<open>Tidying up\<close>

definition layout_node_of :: "ui_node \<Rightarrow> layout_node" where
  "layout_node_of n = \<lparr>ln_id = gn_id (geo_of n), ln_x = ui_x n, ln_y = ui_y n\<rparr>"

definition layout_conn_of :: "ui_conn \<Rightarrow> layout_conn" where
  "layout_conn_of c = \<lparr>lc_source = uc_source c, lc_target = uc_target c\<rparr>"

definition apply_positions :: "positions \<Rightarrow> ui_node list \<Rightarrow> store \<Rightarrow> store" where
  "apply_positions ps ns st =
     foldl (\<lambda>st n. case map_of ps (gn_id (geo_of n)) of
                     Some p \<Rightarrow> store_moveNode (gn_id (geo_of n)) p st
                   | None \<Rightarrow> st) st ns"

definition tidyUp :: "'g graphlib \<Rightarrow> string option \<Rightarrow> rat option \<Rightarrow> string \<Rightarrow> store \<Rightarrow> store" where
  "tidyUp L orient sep label st =
     (if \<not> canEdit st \<or> canvas_nodes st = [] then st
      else
        (let orientation = (if orient = Some ''vertical'' then ''vertical'' else ''horizontal'');
             title = (if label \<noteq> [] then label
                      else if orientation = ''vertical'' then ''Tidy up layout (vertical)'' else ''Tidy up layout'')
         in case calculateTidyPositions L (map layout_node_of (canvas_nodes st)) (map layout_conn_of (canvas_connections st))
                   (Some orientation) sep of
              None \<Rightarrow> st
            | Some ps \<Rightarrow> endBatch title (apply_positions ps (canvas_nodes st) (beginBatch st))))"

definition getAdaptiveFitHeightRanksep :: "store \<Rightarrow> rat" where
  "getAdaptiveFitHeightRanksep st =
     (let nodeCount = length (canvas_nodes st)
      in if nodeCount \<le> 6 then 40 else if nodeCount \<le> 12 then 32 else if nodeCount \<le> 20 then 24 else 20)"

text \<open>The offset is the height the controls take from the canvas, as measured in the document.\<close>

definition fitToView :: "dimension_config \<Rightarrow> rect \<Rightarrow> fit_mode \<Rightarrow> rat \<Rightarrow> store \<Rightarrow> store" where
  "fitToView dims container mode topOffset st =
     (case calculateFitView (map geo_of (canvas_nodes st)) dims container None mode topOffset of
        None \<Rightarrow> st
      | Some v \<Rightarrow> setViewport (Some (vpan v)) (Some (vzoom v)) st)"

definition fitFullWidth :: "'g graphlib \<Rightarrow> dimension_config \<Rightarrow> rect \<Rightarrow> rat \<Rightarrow> store \<Rightarrow> store" where
  "fitFullWidth L dims container topOffset st =
     (if \<not> canEdit st then st
      else fitToView dims container CoverWidth topOffset
             (tidyUp L (Some ''horizontal'') None ''Auto layout (horizontal) + fit full width'' st))"

definition fitFullHeight :: "'g graphlib \<Rightarrow> dimension_config \<Rightarrow> rect \<Rightarrow> rat \<Rightarrow> store \<Rightarrow> store" where
  "fitFullHeight L dims container topOffset st =
     (if \<not> canEdit st then st
      else fitToView dims container CoverHeight topOffset
             (tidyUp L (Some ''vertical'') (Some (getAdaptiveFitHeightRanksep st))
                ''Auto layout (vertical) + fit full height'' st))"

subsection \<open>Selecting\<close>

definition onNodeSelect :: "string \<Rightarrow> bool \<Rightarrow> store \<Rightarrow> store" where
  "onNodeSelect nodeId ctrl st =
     (if \<not> canEdit st then st
      else
        (let current = sel_nodeIds (selection (ui st))
         in if ctrl
            then if nodeId \<in> set current then store_select (filter (\<lambda>i. i \<noteq> nodeId) current) [] st
                 else store_select (current @ [nodeId]) [] st
            else store_select [nodeId] [] st))"

definition onConnectionSelect :: "string \<Rightarrow> store \<Rightarrow> store" where
  "onConnectionSelect connId st = (if canEdit st then store_select [] [connId] st else st)"

subsection \<open>Deleting a node\<close>

definition bridge_connections :: "ui_conn list \<Rightarrow> ui_conn list \<Rightarrow> store \<Rightarrow> store" where
  "bridge_connections incoming outgoing st =
     foldl (\<lambda>st (i, j). if uc_source i = uc_target j then st
                        else snd (store_addConnection (uc_source i) (uc_sourceHandle i) (uc_target j) (uc_targetHandle j) st))
       st (List.product incoming outgoing)"

definition onNodeDelete :: "(string \<times> node_class) list \<Rightarrow> string \<Rightarrow> store \<Rightarrow> store" where
  "onNodeDelete odoo nodeId st =
     (if \<not> canEdit st then st
      else
        (let incoming = filter (\<lambda>c. uc_target c = nodeId) (canvas_connections st);
             outgoing = filter (\<lambda>c. uc_source c = nodeId) (canvas_connections st);
             st1 = snd (store_removeNode odoo nodeId st);
             current = sel_nodeIds (selection (ui st1));
             st2 = (if nodeId \<in> set current then store_select (filter (\<lambda>i. i \<noteq> nodeId) current) [] st1 else st1)
         in bridge_connections incoming outgoing st2))"

definition onNodeToggleDisable :: "string \<Rightarrow> store \<Rightarrow> store" where
  "onNodeToggleDisable nodeId st = (if canEdit st then toggleDisable nodeId st else st)"

subsection \<open>Adding nodes\<close>

definition onDrop :: "(string \<times> node_class) list \<Rightarrow> rect \<Rightarrow> string \<Rightarrow> point \<Rightarrow> store \<Rightarrow> store" where
  "onDrop odoo container type client st =
     (if \<not> canEdit st \<or> type = [] then st
      else
        (let p = getCanvasPosition container client st
         in snd (store_addNode odoo type (of_int (js_round (fst p)), of_int (js_round (snd p))) st)))"

text \<open>The connections that are still to be made when the two timers run: from the socket of a quick add to the
  new node, and around a node that was inserted into a connection.\<close>

record deferred =
  deferredInsert :: "(string \<times> string \<times> string) option"
  deferredConnect :: "(ui_conn \<times> string) option"

definition no_deferred :: deferred where
  "no_deferred = \<lparr>deferredInsert = None, deferredConnect = None\<rparr>"

definition first_socket :: "(string \<times> string option) list \<Rightarrow> string option" where
  "first_socket ss = (case ss of [] \<Rightarrow> None | (k, _) # _ \<Rightarrow> if k = [] then None else Some k)"

definition runDeferredInsert :: "deferred \<Rightarrow> store \<Rightarrow> deferred \<times> store" where
  "runDeferredInsert t st =
     (case deferredInsert t of
        None \<Rightarrow> (t, st)
      | Some (sourceId, sourceKey, newId) \<Rightarrow>
          (t\<lparr>deferredInsert := None\<rparr>,
           case store_getNode newId st of
             None \<Rightarrow> st
           | Some n \<Rightarrow>
               (case first_socket (ui_inputs n) of
                  None \<Rightarrow> st
                | Some k \<Rightarrow> snd (store_addConnection sourceId sourceKey newId k st))))"

definition insertNodeIntoConnection ::
    "(string \<times> node_class) list \<Rightarrow> string \<Rightarrow> string \<Rightarrow> point \<Rightarrow> deferred \<Rightarrow> store \<Rightarrow> deferred \<times> store" where
  "insertNodeIntoConnection odoo nodeType connectionId p t st =
     (if \<not> canEdit st then (t, st)
      else case store_getConnection connectionId st of
             None \<Rightarrow> (t, st)
           | Some c \<Rightarrow>
               (case store_addNode odoo nodeType p st of
                  (None, st1) \<Rightarrow> (t, st1)
                | (Some newId, st1) \<Rightarrow>
                    (t\<lparr>deferredConnect := Some (c, newId)\<rparr>, snd (store_removeConnection connectionId st1))))"

definition runDeferredConnect :: "deferred \<Rightarrow> store \<Rightarrow> deferred \<times> store" where
  "runDeferredConnect t st =
     (case deferredConnect t of
        None \<Rightarrow> (t, st)
      | Some (c, newId) \<Rightarrow>
          (t\<lparr>deferredConnect := None\<rparr>,
           case store_getNode newId st of
             None \<Rightarrow> st
           | Some n \<Rightarrow>
               (case first_socket (ui_inputs n) of
                  None \<Rightarrow> st
                | Some k \<Rightarrow>
                    (let st1 = snd (store_addConnection (uc_source c) (uc_sourceHandle c) newId k st)
                     in case first_socket (ui_outputs n) of
                          None \<Rightarrow> st1
                        | Some l \<Rightarrow> snd (store_addConnection newId l (uc_target c) (uc_targetHandle c) st1)))))"

text \<open>What the menu was opened for: the context the canvas passed to \<open>openNodeMenu\<close>.\<close>

definition onNodeMenuSelect ::
    "(string \<times> node_class) list \<Rightarrow> dimension_config \<Rightarrow> string \<Rightarrow> jsval \<Rightarrow> deferred \<Rightarrow> store \<Rightarrow> deferred \<times> store" where
  "onNodeMenuSelect odoo dims nodeType context t st =
     (if \<not> canEdit st then (t, st)
      else
        (let m = nodeMenu (ui st);
             p = (nm_canvasX m - nodeWidth dims / 2, nm_canvasY m)
         in if js_prop context ''type'' \<in> {JStr ''quickAdd'', JStr ''dragConnect''}
            then (case store_addNode odoo nodeType p st of
                    (None, st1) \<Rightarrow> (t, st1)
                  | (Some newId, st1) \<Rightarrow>
                      (t\<lparr>deferredInsert := Some (js_string (js_prop context ''sourceNodeId''),
                                                 js_string (js_prop context ''sourceSocketKey''), newId)\<rparr>, st1))
            else if truthy (js_prop context ''connectionId'')
            then insertNodeIntoConnection odoo nodeType (js_string (js_prop context ''connectionId'')) p t st
            else (t, snd (store_addNode odoo nodeType p st))))"

definition onNodeMenuClose :: "hooks \<Rightarrow> store \<Rightarrow> hooks \<times> store" where
  "onNodeMenuClose w st = (if canEdit st then (w\<lparr>draw_hook := no_drawing\<rparr>, closeNodeMenu st) else (w, st))"

subsection \<open>Opening the menu\<close>

definition onCanvasContextMenu :: "rect \<Rightarrow> bool \<Rightarrow> point \<Rightarrow> store \<Rightarrow> store" where
  "onCanvasContextMenu container background client st =
     (if \<not> canEdit st \<or> \<not> background then st
      else
        (let p = getCanvasPosition container client st
         in openNodeMenu (fst client - rx container) (snd client - rY container) (fst p) (snd p) ''default'' JNull st))"

definition onAddNodeClick :: "rect \<Rightarrow> rect \<Rightarrow> store \<Rightarrow> store" where
  "onAddNodeClick container btn st =
     (if \<not> canEdit st then st
      else
        (let p = getCanvasPosition container (rx container + rwidth container / 2, rY container + rheight container / 2) st
         in openNodeMenu (rx btn - rx container) (rY btn + rheight btn - rY container + 8) (fst p) (snd p) ''large'' JNull st))"

definition onSocketQuickAdd :: "dimension_config \<Rightarrow> string \<Rightarrow> string \<Rightarrow> store \<Rightarrow> store" where
  "onSocketQuickAdd dims nodeId socketKey st =
     (if \<not> canEdit st then st
      else case store_getNode nodeId st of
             None \<Rightarrow> st
           | Some n \<Rightarrow>
               (let p = getSocketPosition dims (geo_of n) socketKey Output; s = getScreenPosition (fst p) (snd p) st
                in openNodeMenu (fst s + 30) (snd s - 100) (fst p + 150) (snd p - 20) ''default''
                     (JObj [(''type'', JStr ''quickAdd''), (''sourceNodeId'', JStr nodeId), (''sourceSocketKey'', JStr socketKey)]) st))"

subsection \<open>The configuration panel\<close>

definition isInExecutionView :: "store \<Rightarrow> bool" where
  "isInExecutionView st = fl_active (ui_executionView (ui st))"

definition onNodeOpenConfig :: "string \<Rightarrow> store \<Rightarrow> store" where
  "onNodeOpenConfig nodeId st =
     (if \<not> canEdit st \<and> \<not> isInExecutionView st then st
      else case store_getNode nodeId st of
             None \<Rightarrow> st
           | Some n \<Rightarrow> openPanel ''config'' (JStr nodeId) st)"

definition onNodeExecute :: "string \<Rightarrow> store \<Rightarrow> store" where
  "onNodeExecute nodeId st =
     (if \<not> canEdit st then st
      else case store_getNode nodeId st of None \<Rightarrow> st | Some n \<Rightarrow> openPanel ''config'' (JStr nodeId) st)"

definition onNodeDoubleClick :: "string \<Rightarrow> store \<Rightarrow> store" where
  "onNodeDoubleClick nodeId st = (if \<not> canEdit st \<and> \<not> isInExecutionView st then st else onNodeOpenConfig nodeId st)"

definition configPanelNode :: "store \<Rightarrow> ui_node option" where
  "configPanelNode st =
     (if truthy (configNodeId (panels (ui st))) then store_getNode (js_string (configNodeId (panels (ui st)))) st else None)"

definition onConfigPanelClose :: "store \<Rightarrow> store" where
  "onConfigPanelClose st = (if \<not> canEdit st \<and> \<not> isInExecutionView st then st else closePanel ''config'' st)"

definition onConfigPanelSave :: "store \<Rightarrow> store" where
  "onConfigPanelSave st =
     (if \<not> canEdit st \<or> \<not> truthy (configNodeId (panels (ui st))) then st
      else (let st1 = onConfigPanelClose st in if autoSave st1 then bus_trigger ''save'' JUndef st1 else st1))"

definition removeConnectionById :: "string \<Rightarrow> store \<Rightarrow> store" where
  "removeConnectionById connectionId st =
     (if \<not> canEdit st then st
      else setHoveredConnection None None None (snd (store_removeConnection connectionId st)))"

definition onUndo :: "store \<Rightarrow> store" where
  "onUndo st = (if canEdit st then snd (store_undo st) else st)"

definition onRedo :: "store \<Rightarrow> store" where
  "onRedo st = (if canEdit st then snd (store_redo st) else st)"

text \<open>The outputs that have a connection; only the others show the button of a quick add.\<close>

definition connectedOutputsSet :: "store \<Rightarrow> string list" where
  "connectedOutputsSet st = unique (map (\<lambda>c. uc_source c @ '':'' @ uc_sourceHandle c) (canvas_connections st))"

subsection \<open>The shape after a handler\<close>

lemma store_moveNode_shape:
  assumes g: "session_good odoo (graph st)" and v: "shape_view (graph st) = (S, K)"
  shows "shape_view (graph (store_moveNode i p st)) = (shape_at S [i \<mapsto> p], K)"
proof (cases "store_getNode i st")
  case None
  then show ?thesis using shape_updatePosition [OF v, of i p] by (simp add: store_moveNode_def shape_at_upd)
next
  case (Some n)
  then obtain s where s: "S i = Some s" "fst (snd s) = (ui_x n, ui_y n)" using getNode_shape(2) [OF g v] by blast
  show ?thesis
  proof (cases "ui_x n = fst p \<and> ui_y n = snd p")
    case True
    then have "shape_at S [i \<mapsto> p] = S" using s by (intro shape_at_same) (auto split: if_splits simp: prod_eq_iff)
    with True Some v show ?thesis by (simp add: store_moveNode_def)
  next
    case False
    with Some shape_updatePosition [OF v, of i p] show ?thesis by (auto simp: store_moveNode_def shape_at_upd)
  qed
qed

lemma store_removeNode_shape:
  assumes g: "session_good odoo (graph st)" and v: "shape_view (graph st) = (S, K)"
  shows "shape_view (graph (snd (store_removeNode odoo i st))) = (S(i := None), {k \<in> K. \<not> involvesNode k i})"
proof (cases "store_getNode i st")
  case None
  then have "S i = None" by (rule getNode_shape(1) [OF g v])
  moreover from this have "{k \<in> K. \<not> involvesNode k i} = K" using view_conns(3) [OF g v] by auto
  ultimately show ?thesis using None v by (simp add: store_removeNode_def fun_upd_idem)
next
  case (Some n)
  with shape_removeNode [OF session_good_inv [OF g] v, of i] show ?thesis
    by (simp add: store_removeNode_def Let_def clearExecution_def)
qed

lemma store_removeConnection_shape:
  assumes g: "session_good odoo (graph st)" and v: "shape_view (graph st) = (S, K)"
  shows "shape_view (graph (snd (store_removeConnection i st))) = (S, {k \<in> K. conn_id k \<noteq> i})"
proof (cases "store_getConnection i st")
  case None
  have "conn_id k \<noteq> i" if "k \<in> K" for k
  proof
    assume "conn_id k = i"
    moreover have "conn_to_ui k \<in> set (canvas_connections st)"
      using that v session_good_inv [OF g] by (auto simp: canvas_connections_def adapter_inv_def mirror_def getConnectionsForUI_def shape_view_def)
    ultimately show False using None by (auto simp: store_getConnection_def find_None_iff canvas_connections_def conn_to_ui_def)
  qed
  then have "{k \<in> K. conn_id k \<noteq> i} = K" by auto
  with None v show ?thesis by (simp add: store_removeConnection_def)
next
  case (Some c)
  with shape_removeConnection [OF session_good_inv [OF g] v, of i] show ?thesis
    by (simp add: store_removeConnection_def Let_def clearExecution_def)
qed

lemma store_addConnection_shape:
  assumes v: "shape_view (graph st) = (S, K)"
  shows "shape_view (graph (snd (store_addConnection s h t g st))) =
    (S, if shape_link S (new_Connection s h t g) \<and> generateId s h t g \<notin> conn_id ` K then insert (new_Connection s h t g) K else K)"
proof -
  obtain M where M: "graph_view (graph st) = (M, K)" "S = map_option shape_of \<circ> M" using v by (rule shape_viewE)
  let ?k = "new_Connection s h t g"
  have f: "source ?k = s" "sourceHandle ?k = h" "target ?k = t" "targetHandle ?k = g" "conn_id ?k = generateId s h t g"
    by (simp_all add: new_Connection_def)
  have c: "connectable s h t g (core (graph st)) \<longleftrightarrow> shape_link S ?k \<and> generateId s h t g \<notin> conn_id ` K"
    using M by (auto simp: connectable_def conn_ok_view shape_link_iff graph_view_def f)
  show ?thesis
  proof (cases "connectable s h t g (core (graph st))")
    case True
    moreover from this have "fst (adapter_addConnection s h t g (graph st)) = Some ?k"
      by (simp add: adapter_addConnection_def editor_conn_core(2))
    ultimately show ?thesis using c shape_addConnection [OF v plain_conn_new, of s h t g]
      by (auto simp: store_addConnection_def connect_and_record_def clearExecution_def f split: prod.splits option.splits)
  next
    case False
    with c v show ?thesis
      by (auto simp: store_addConnection_def connect_and_record_def adapter_addConnection_def editor_addConnection_def core_addConnection_iff)
  qed
qed

subsection \<open>Tidying up is one edit\<close>

abbreviation node_ids :: "ui_node list \<Rightarrow> string set" where
  "node_ids ns \<equiv> (\<lambda>n. gn_id (geo_of n)) ` set ns"

lemma batch_apply_positions:
  "batch_from odoo st0 st \<Longrightarrow> batch_from odoo st0 (apply_positions ps ns st)"
  unfolding apply_positions_def by (rule batch_fold) (auto intro: batch_single(3) split: option.splits)

lemma apply_positions_shape:
  assumes "session_good odoo (graph st)" and "shape_view (graph st) = (S, K)"
  shows "shape_view (graph (apply_positions ps ns st)) = (shape_at S (map_of ps |` node_ids ns), K)"
  using assms
proof (induction ns arbitrary: st S)
  case Nil
  then show ?case by (simp add: apply_positions_def)
next
  case (Cons n ns)
  let ?i = "gn_id (geo_of n)" and ?m = "map_of ps |` node_ids ns"
  show ?case
  proof (cases "map_of ps ?i")
    case None
    then have "map_of ps |` node_ids (n # ns) = ?m" by (auto simp: restrict_map_def fun_eq_iff)
    with Cons.IH [OF Cons.prems] None show ?thesis by (simp add: apply_positions_def)
  next
    case (Some p)
    let ?st = "store_moveNode ?i p st"
    have "session_good odoo (graph ?st)" using store_moveNode_step [OF Cons.prems(1)] by (simp add: recorded_step_def)
    from Cons.IH [OF this store_moveNode_shape [OF Cons.prems]] Some
    have "shape_view (graph (apply_positions ps (n # ns) st)) = (shape_at S ([?i \<mapsto> p] ++ ?m), K)"
      by (simp add: apply_positions_def shape_at_add)
    moreover have "[?i \<mapsto> p] ++ ?m = map_of ps |` node_ids (n # ns)"
      using Some by (auto simp: restrict_map_def fun_eq_iff map_add_def split: option.split)
    ultimately show ?thesis by simp
  qed
qed

lemma canvas_mirror:
  assumes g: "session_good odoo (graph st)" and v: "shape_view (graph st) = (S, K)"
  shows "node_ids (canvas_nodes st) = dom S"
    and "canvas_connections st = map conn_to_ui (connections (core (graph st)))"
    and "\<forall>c \<in> set (canvas_connections st). uc_source c \<in> dom S \<and> uc_target c \<in> dom S"
proof -
  have inv: "adapter_inv (graph st)" by (rule session_good_inv [OF g])
  then have "\<forall>(i, n) \<in> set (nodes (core (graph st))). node_id n = Some i"
    by (auto simp: adapter_inv_def core_wf_def nodes_wf_def list_all_iff)
  then have "node_ids (canvas_nodes st) = fst ` set (nodes (core (graph st)))"
    using inv by (force simp: canvas_nodes_def adapter_inv_def mirror_def getNodesForUI_def geo_of_def node_to_ui_def image_iff)
  moreover have "dom S = fst ` set (nodes (core (graph st)))"
  proof -
    have "S = map_option shape_of \<circ> map_of (nodes (core (graph st)))" using v by (simp add: shape_view_def)
    then show ?thesis by (simp add: dom_map_of_conv_image_fst dom_def flip: dom_map_of_conv_image_fst)
  qed
  ultimately show "node_ids (canvas_nodes st) = dom S" by simp
  show c: "canvas_connections st = map conn_to_ui (connections (core (graph st)))"
    using inv by (simp add: canvas_connections_def adapter_inv_def mirror_def getConnectionsForUI_def)
  have "\<forall>k \<in> K. source k \<in> dom S \<and> target k \<in> dom S" using view_conns(1) [OF g v] by (auto simp: shape_link_def)
  with v show "\<forall>c \<in> set (canvas_connections st). uc_source c \<in> dom S \<and> uc_target c \<in> dom S"
    by (auto simp: c shape_view_def conn_to_ui_def)
qed

lemma setters_keep [simp]:
  "graph (beginBatch st) = graph st" "graph (endBatch d st) = graph st"
  by (simp_all add: beginBatch_def endBatch_def)

text \<open>C30: Tidying up is one undo and moves only what it should. In every store reached by permitted operations,
  editable and outside a batch, for a layout library that keeps its promises: the layout is found for exactly
  the nodes of the graph, afterwards every node is at its position and keeps its type and sockets, the
  connections are the same, and one undo puts all nodes back (or none had to move and nothing was
  recorded).\<close>

theorem tidy_is_one_undo:
  assumes "registry_sound odoo" and "permitted (store_step odoo) store_ok ops (start_store odoo)"
    and "st = run_ops (store_step odoo) ops (start_store odoo)" and "currentBatch (hist st) = None" and "canEdit st"
    and "graphlib_ok L" and "shape_view (graph st) = (S, K)" and "S \<noteq> Map.empty"
  shows "taken_back st (tidyUp L orient sep label st)
    \<and> (\<exists>ps. calculateTidyPositions L (map layout_node_of (canvas_nodes st)) (map layout_conn_of (canvas_connections st))
           (Some (if orient = Some ''vertical'' then ''vertical'' else ''horizontal'')) sep = Some ps
         \<and> set (map_keys ps) = dom S
         \<and> shape_view (graph (tidyUp L orient sep label st)) =
             (\<lambda>i. map_option (at_position (the (map_of ps i))) (S i), K))"
proof -
  have l: "on_line odoo st" using sto.run_invar [OF start_store_line [OF assms(1)] assms(2)] assms(3) by simp
  note g = sh.line_good [OF l] and v = assms(7)
  note ids = canvas_mirror [OF g v]
  let ?ns = "map layout_node_of (canvas_nodes st)" and ?cs = "map layout_conn_of (canvas_connections st)"
  let ?o = "if orient = Some ''vertical'' then ''vertical'' else ''horizontal''"
  have ln: "ln_id ` set ?ns = dom S" using ids(1) by (simp add: layout_node_of_def image_image)
  have "\<forall>c \<in> set ?cs. lc_source c \<in> ln_id ` set ?ns \<and> lc_target c \<in> ln_id ` set ?ns"
    unfolding ln using ids(3) by (auto simp: layout_conn_of_def)
  from tidy_facts [OF assms(6) this, of "Some ?o" sep] obtain ps
    where ps: "calculateTidyPositions L ?ns ?cs (Some ?o) sep = Some ps" "set (map_keys ps) = dom S"
    unfolding ln by blast
  have "canvas_nodes st \<noteq> []" using ids(1) assms(8) by fastforce
  with ps(1) assms(5) obtain d
    where st': "tidyUp L orient sep label st = endBatch d (apply_positions ps (canvas_nodes st) (beginBatch st))"
    by (auto simp: tidyUp_def Let_def split: if_splits)
  have "shape_view (graph (apply_positions ps (canvas_nodes st) (beginBatch st))) = (shape_at S (map_of ps |` dom S), K)"
    using apply_positions_shape [of odoo "beginBatch st" S K ps "canvas_nodes st"] g v ids(1) by simp
  moreover have "shape_at S (map_of ps |` dom S) = (\<lambda>i. map_option (at_position (the (map_of ps i))) (S i))"
  proof
    fix i
    have "map_of ps i = None \<longleftrightarrow> S i = None" using ps(2) by (metis domIff dom_map_of_conv_image_fst list.set_map)
    then show "shape_at S (map_of ps |` dom S) i = map_option (at_position (the (map_of ps i))) (S i)"
      by (cases "S i") (auto simp: shape_at_def restrict_map_def split: option.split)
  qed
  moreover have "taken_back st (tidyUp L orient sep label st)"
    unfolding st' by (rule taken_back_batch [OF batch_apply_positions [OF batch_begin [OF l]]])
  ultimately show ?thesis using ps st' by auto
qed

theorem tidy_is_one_undo_witness:
  "taken_back demo_store (tidyUp list_graphlib None None [] demo_store)"
proof -
  obtain S K where v: "shape_view (graph demo_store) = (S, K)" by fastforce
  have l: "on_line builtin_classes (start_store builtin_classes)" by (rule start_store_line [OF builtin_sound])
  obtain C where C: "map_of builtin_classes ''noop'' = Some C" by (simp add: builtin_classes_def class_defs)
  obtain S0 K0 where v0: "shape_view (graph (start_store builtin_classes)) = (S0, K0)" by fastforce
  from shape_addNode [OF sh.line_good [OF l] v0 C, of "(0, 0)"] obtain i a' where
    a: "adapter_addNode builtin_classes ''noop'' (0, 0) (graph (start_store builtin_classes)) = (Some i, a')"
    "shape_view a' = (S0(i \<mapsto> class_shape C (0, 0)), K0)" by blast
  have "graph demo_store = a'" and ed: "canEdit demo_store" "currentBatch (hist demo_store) = None"
    using a(1) by (auto simp: store_addNode_def add_and_record_def clearExecution_def start_store_def hist_push_def hist_onChange_def
        new_HistoryManager_def hist_notify_def Let_def canEdit_def isReadonly_def DEFAULT_UI_STATE_def)
  with a(2) v have "S i = Some (class_shape C (0, 0))" by auto
  then have ne: "S \<noteq> Map.empty" by auto
  show ?thesis
    by (rule conjunct1 [OF tidy_is_one_undo [OF builtin_sound, of "[SAddNode ''noop'' (0, 0)]", OF _ _ ed(2,1) list_graphlib_ok v ne]])
      (simp_all add: store_ok_def)
qed

subsection \<open>Deleting a node bridges its neighbours\<close>

definition bridge :: "connection \<Rightarrow> connection \<Rightarrow> connection" where
  "bridge k j = new_Connection (source k) (sourceHandle k) (target j) (targetHandle j)"

text \<open>Ids and handles that cannot be confused inside the id of a connection.\<close>

definition plain_ends :: "connection \<Rightarrow> bool" where
  "plain_ends k \<longleftrightarrow> CHR '':'' \<notin> set (source k) \<and> CHR '':'' \<notin> set (target k) \<and> CHR ''='' \<notin> set (sourceHandle k)"

definition flow :: "connection set \<Rightarrow> (string \<times> string) set" where
  "flow K = {(source k, target k) | k. k \<in> K}"

lemma bridge_fields [simp]:
  "source (bridge k j) = source k" "target (bridge k j) = target j" "sourceHandle (bridge k j) = sourceHandle k"
  "targetHandle (bridge k j) = targetHandle j" "plain_conn (bridge k j)"
  by (simp_all add: bridge_def new_Connection_def plain_conn_def)

lemma plain_ids_inj:
  assumes "\<forall>k \<in> K. plain_conn k \<and> plain_ends k"
  shows "inj_on conn_id K"
proof (rule inj_onI)
  fix k j assume kj: "k \<in> K" "j \<in> K" "conn_id k = conn_id j"
  have new: "k = new_Connection (source k) (sourceHandle k) (target k) (targetHandle k)"
    "j = new_Connection (source j) (sourceHandle j) (target j) (targetHandle j)"
    using assms kj by (simp_all add: plain_conn_def)
  then have "generateId (source k) (sourceHandle k) (target k) (targetHandle k)
      = generateId (source j) (sourceHandle j) (target j) (targetHandle j)"
    using kj(3) by (metis new_Connection_def connection.select_convs(1))
  from generateId_inject [OF this] assms kj have "source k = source j \<and> sourceHandle k = sourceHandle j
      \<and> target k = target j \<and> targetHandle k = targetHandle j" by (simp add: plain_ends_def)
  with new show "k = j" by metis
qed

lemma add_step:
  assumes v: "shape_view (graph st) = (S, K)" and inj: "inj_on conn_id (insert (new_Connection s h t g) K)"
  shows "shape_view (graph (snd (store_addConnection s h t g st))) =
    (S, K \<union> {k \<in> {new_Connection s h t g}. shape_link S k})"
proof -
  have "new_Connection s h t g \<in> K" if "generateId s h t g \<in> conn_id ` K"
  proof -
    from that obtain x where "x \<in> K" "conn_id x = conn_id (new_Connection s h t g)" by (auto simp: new_Connection_def)
    with inj show ?thesis by (metis inj_onD insertI1 insertI2)
  qed
  then show ?thesis using store_addConnection_shape [OF v, of s h t g] by auto
qed

definition connect_pair :: "store \<Rightarrow> connection \<times> connection \<Rightarrow> store" where
  "connect_pair st = (\<lambda>(k, j). if source k = target j then st
     else snd (store_addConnection (source k) (sourceHandle k) (target j) (targetHandle j) st))"

lemma bridge_step:
  assumes v: "shape_view (graph st) = (S, K)" and inj: "inj_on conn_id (insert (bridge k j) K)"
  shows "shape_view (graph (connect_pair st (k, j))) = (S, K \<union> {b \<in> {bridge k j}. shape_link S b})"
proof (cases "source k = target j")
  case True
  then have "\<not> shape_link S (bridge k j)" by (simp add: shape_link_def)
  with True v show ?thesis by (auto simp: connect_pair_def)
next
  case False
  with add_step [OF v inj [unfolded bridge_def]] show ?thesis by (simp add: connect_pair_def bridge_def)
qed

lemma bridge_all:
  assumes "shape_view (graph st) = (S, K)" and "inj_on conn_id (K \<union> (\<lambda>(k, j). bridge k j) ` set ps)"
  shows "shape_view (graph (foldl connect_pair st ps))
    = (S, K \<union> {b \<in> (\<lambda>(k, j). bridge k j) ` set ps. shape_link S b})"
  using assms
proof (induction ps arbitrary: st K)
  case (Cons p ps)
  obtain k j where p: "p = (k, j)" by (cases p)
  let ?K = "K \<union> {b \<in> {bridge k j}. shape_link S b}"
  have "inj_on conn_id (insert (bridge k j) K)" by (rule inj_on_subset [OF Cons.prems(2)]) (auto simp: p)
  note v = bridge_step [OF Cons.prems(1) this]
  have "inj_on conn_id (?K \<union> (\<lambda>(k, j). bridge k j) ` set ps)" by (rule inj_on_subset [OF Cons.prems(2)]) (auto simp: p)
  from Cons.IH [OF v this] show ?case by (auto simp: p)
qed simp

lemma bypass:
  assumes R: "\<And>x y. (x, y) \<in> R \<Longrightarrow> x \<noteq> i \<Longrightarrow> y \<noteq> i \<Longrightarrow> (x, y) \<in> Q"
    and B: "\<And>x y. (x, i) \<in> R \<Longrightarrow> (i, y) \<in> R \<Longrightarrow> x \<noteq> y \<Longrightarrow> (x, y) \<in> Q"
    and irr: "(i, i) \<notin> R" and ab: "(a, b) \<in> R\<^sup>*" "a \<noteq> i"
  shows "if b = i then \<exists>x. (a, x) \<in> Q\<^sup>* \<and> (x, i) \<in> R else (a, b) \<in> Q\<^sup>*"
  using ab(1)
proof (induction rule: rtrancl_induct)
  case base
  with ab(2) show ?case by simp
next
  case (step y z)
  show ?case
  proof (cases "y = i")
    case True
    with step.IH obtain x where x: "(a, x) \<in> Q\<^sup>*" "(x, i) \<in> R" by auto
    from True step.hyps(2) irr have "z \<noteq> i" by auto
    moreover have "(x, z) \<in> Q\<^sup>*" using B [OF x(2)] step.hyps(2) True by (cases "x = z") auto
    ultimately show ?thesis using x(1) by auto
  next
    case False
    with step R show ?thesis by (auto intro: rtrancl_into_rtrancl)
  qed
qed

lemma conn_to_ui_fields [simp]:
  "uc_id (conn_to_ui k) = conn_id k" "uc_source (conn_to_ui k) = source k" "uc_sourceHandle (conn_to_ui k) = sourceHandle k"
  "uc_target (conn_to_ui k) = target k" "uc_targetHandle (conn_to_ui k) = targetHandle k"
  by (simp_all add: conn_to_ui_def)

lemma bridge_connections_pairs:
  "bridge_connections (map conn_to_ui ks) (map conn_to_ui js) st = foldl connect_pair st (List.product ks js)"
proof -
  have "List.product (map conn_to_ui ks) (map conn_to_ui js) = map (\<lambda>(k, j). (conn_to_ui k, conn_to_ui j)) (List.product ks js)"
    by (induction ks) (simp_all add: comp_def)
  moreover have "foldl (\<lambda>st (i, j). if uc_source i = uc_target j then st
      else snd (store_addConnection (uc_source i) (uc_sourceHandle i) (uc_target j) (uc_targetHandle j) st))
      st (map (\<lambda>(k, j). (conn_to_ui k, conn_to_ui j)) ps) = foldl connect_pair st ps" for ps
    by (induction ps arbitrary: st) (auto simp: connect_pair_def)
  ultimately show ?thesis by (simp add: bridge_connections_def)
qed

lemma onNodeDelete_eq:
  assumes g: "session_good odoo (graph st)" and ed: "canEdit st"
  obtains st2 where "onNodeDelete odoo i st = foldl connect_pair st2
        (List.product (filter (\<lambda>k. target k = i) (connections (core (graph st)))) (filter (\<lambda>k. source k = i) (connections (core (graph st)))))"
    and "graph st2 = graph (snd (store_removeNode odoo i st))" and "hist st2 = hist (snd (store_removeNode odoo i st))"
    and "i \<notin> set (sel_nodeIds (selection (ui st2)))"
proof
  let ?st1 = "snd (store_removeNode odoo i st)"
  let ?st2 = "if i \<in> set (sel_nodeIds (selection (ui ?st1)))
      then store_select (filter (\<lambda>j. j \<noteq> i) (sel_nodeIds (selection (ui ?st1)))) [] ?st1 else ?st1"
  obtain S K where v: "shape_view (graph st) = (S, K)" by fastforce
  show "onNodeDelete odoo i st = foldl connect_pair ?st2
      (List.product (filter (\<lambda>k. target k = i) (connections (core (graph st)))) (filter (\<lambda>k. source k = i) (connections (core (graph st)))))"
    using ed by (simp add: onNodeDelete_def Let_def canvas_mirror(2) [OF g v] filter_map bridge_connections_pairs comp_def)
  show "graph ?st2 = graph ?st1" "hist ?st2 = hist ?st1" by simp_all
  show "i \<notin> set (sel_nodeIds (selection (ui ?st2)))" by simp
qed

lemma addConnection_ui: "ui (snd (store_addConnection s h t g st)) = ui st"
  by (auto simp: store_addConnection_def connect_and_record_def clearExecution_def split: prod.splits option.splits)

lemma bridge_ui: "ui (foldl connect_pair st ps) = ui st"
  by (induction ps arbitrary: st) (auto simp: addConnection_ui connect_pair_def)

text \<open>C31: Deleting a node on the canvas bridges it. In every editable store reached by permitted operations, with
  node ids and handles that do not contain the separators of connection ids: deleting a node removes it
  and its connections, adds a connection from each of its predecessors to each of its successors whose sockets
  are compatible, and nothing else; the node is no longer selected. When all those sockets are compatible,
  every other node still reaches the nodes it reached before.\<close>

theorem delete_bridges_neighbours:
  assumes "registry_sound odoo" and "permitted (store_step odoo) store_ok ops (start_store odoo)"
    and "st = run_ops (store_step odoo) ops (start_store odoo)" and "canEdit st"
    and v: "shape_view (graph st) = (S, K)" and ends: "\<forall>k \<in> K. plain_ends k"
    and K': "K' = {k \<in> K. \<not> involvesNode k i}
      \<union> {bridge k j | k j. k \<in> K \<and> j \<in> K \<and> target k = i \<and> source j = i \<and> shape_link (S(i := None)) (bridge k j)}"
  shows "shape_view (graph (onNodeDelete odoo i st)) = (S(i := None), K')
    \<and> i \<notin> set (sel_nodeIds (selection (ui (onNodeDelete odoo i st))))
    \<and> ((\<forall>k \<in> K. \<forall>j \<in> K. target k = i \<and> source j = i \<and> source k \<noteq> target j \<longrightarrow> shape_link (S(i := None)) (bridge k j))
       \<longrightarrow> (\<forall>a b. a \<noteq> i \<and> b \<noteq> i \<and> (a, b) \<in> (flow K)\<^sup>* \<longrightarrow> (a, b) \<in> (flow K')\<^sup>*))"
proof -
  have l: "on_line odoo st" using sto.run_invar [OF start_store_line [OF assms(1)] assms(2)] assms(3) by simp
  note g = sh.line_good [OF l]
  let ?ps = "List.product (filter (\<lambda>k. target k = i) (connections (core (graph st)))) (filter (\<lambda>k. source k = i) (connections (core (graph st))))"
  let ?K = "{k \<in> K. \<not> involvesNode k i}" and ?B = "(\<lambda>(k, j). bridge k j) ` set ?ps"
  have K: "set (connections (core (graph st))) = K" using v by (simp add: shape_view_def)
  obtain st2 where st2: "onNodeDelete odoo i st = foldl connect_pair st2 ?ps"
    "graph st2 = graph (snd (store_removeNode odoo i st))" "i \<notin> set (sel_nodeIds (selection (ui st2)))"
    by (rule onNodeDelete_eq [OF g assms(4), of i])
  have v2: "shape_view (graph st2) = (S(i := None), ?K)" using store_removeNode_shape [OF g v, of i] st2(2) by simp
  note links = view_conns(1) [OF g v]
  have "\<forall>k \<in> ?K \<union> ?B. plain_conn k \<and> plain_ends k" using links ends K by (auto simp: plain_ends_def)
  from bridge_all [OF v2 plain_ids_inj [OF this]]
  have shape: "shape_view (graph (onNodeDelete odoo i st)) = (S(i := None), ?K \<union> {b \<in> ?B. shape_link (S(i := None)) b})"
    by (simp only: st2(1))
  have K'_eq: "?K \<union> {b \<in> ?B. shape_link (S(i := None)) b} = K'" unfolding K' using K by force
  have "i \<notin> set (sel_nodeIds (selection (ui (onNodeDelete odoo i st))))" using st2 by (simp add: bridge_ui)
  moreover have "(a, b) \<in> (flow K')\<^sup>*"
    if br: "\<forall>k \<in> K. \<forall>j \<in> K. target k = i \<and> source j = i \<and> source k \<noteq> target j \<longrightarrow> shape_link (S(i := None)) (bridge k j)"
      and ab: "a \<noteq> i" "b \<noteq> i" "(a, b) \<in> (flow K)\<^sup>*" for a b
  proof -
    have "(x, y) \<in> flow K'" if "(x, y) \<in> flow K" "x \<noteq> i" "y \<noteq> i" for x y
      using that by (auto simp: flow_def K' involvesNode_def)
    moreover have "(x, y) \<in> flow K'" if "(x, i) \<in> flow K" "(i, y) \<in> flow K" "x \<noteq> y" for x y
    proof -
      from that obtain k j where "k \<in> K" "j \<in> K" "source k = x" "target k = i" "source j = i" "target j = y" by (auto simp: flow_def)
      with br that(3) have "bridge k j \<in> K'" unfolding K' by blast
      then show ?thesis using \<open>source k = x\<close> \<open>target j = y\<close> unfolding flow_def by (metis (mono_tags, lifting) CollectI bridge_fields(1,2))
    qed
    moreover have "(i, i) \<notin> flow K" using links by (auto simp: flow_def shape_link_def)
    ultimately show ?thesis using bypass [of "flow K" i "flow K'" a b] ab by auto
  qed
  ultimately show ?thesis using shape K'_eq by auto
qed

lemma addNode_ui: "ui (snd (store_addNode odoo type p st)) = ui st"
  by (auto simp: store_addNode_def add_and_record_def connect_and_record_def clearExecution_def Let_def
      split: prod.splits option.splits)

lemma new_id_fresh:
  assumes g: "session_good odoo (graph st)" and v: "shape_view (graph st) = (S, K)"
    and i: "i = ''n_'' @ show_nat (Suc (idCounter (core (graph st))))"
  shows "S i = None" and "CHR '':'' \<notin> set i"
proof -
  have "core_wf (core (graph st))" using session_good_inv [OF g] by (simp add: adapter_inv_def)
  then show "S i = None" using core_addNode_class_fresh v i by (auto simp: shape_view_def map_of_eq_None_iff)
  have "\<not> is_digit CHR '':''" by (simp add: is_digit_def)
  with i show "CHR '':'' \<notin> set i" using show_nat_digits by auto
qed

lemma store_addNode_shape:
  assumes g: "session_good odoo (graph st)" and v: "shape_view (graph st) = (S, K)"
    and C: "map_of odoo type = Some C" and nl: "type \<noteq> ''loop''"
    and i: "i = ''n_'' @ show_nat (Suc (idCounter (core (graph st))))"
  shows "fst (store_addNode odoo type p st) = Some i"
    and "shape_view (graph (snd (store_addNode odoo type p st))) = (S(i \<mapsto> class_shape C p), K)"
    and "session_good odoo (graph (snd (store_addNode odoo type p st)))"
    and "idCounter (core (graph (snd (store_addNode odoo type p st)))) = Suc (idCounter (core (graph st)))"
proof -
  from shape_addNode [OF g v C, of p] obtain j a' where a: "adapter_addNode odoo type p (graph st) = (Some j, a')"
    "shape_view a' = (S(j \<mapsto> class_shape C p), K)" by blast
  have "class_ok C" using g C registry_class_ok by (auto simp: session_good_def)
  then have j: "j = i" and n: "idCounter (core a') = Suc (idCounter (core (graph st)))"
    using a(1) C i by (auto simp: adapter_addNode_def adapter_getNodeClass_def editor_addNode_def split_beta Let_def core_addNode_class)
  have "session_good odoo a'" using session_good_ops(10) [OF g, of type p] a(1) by simp
  with a nl j n show "fst (store_addNode odoo type p st) = Some i"
    "shape_view (graph (snd (store_addNode odoo type p st))) = (S(i \<mapsto> class_shape C p), K)"
    "session_good odoo (graph (snd (store_addNode odoo type p st)))"
    "idCounter (core (graph (snd (store_addNode odoo type p st)))) = Suc (idCounter (core (graph st)))"
    by (auto simp: store_addNode_def add_and_record_def clearExecution_def)
qed

abbreviation chain_ops :: "store_op list" where
  "chain_ops \<equiv> [SAddNode ''noop'' (0, 0), SAddNode ''noop'' (300, 0), SAddNode ''noop'' (600, 0),
     SConnect ''n_1'' ''result'' ''n_2'' ''data'', SConnect ''n_2'' ''result'' ''n_3'' ''data'']"

abbreviation chain_store :: store where
  "chain_store \<equiv> run_ops (store_step builtin_classes) chain_ops (start_store builtin_classes)"

abbreviation chain_link :: "string \<Rightarrow> string \<Rightarrow> connection" where
  "chain_link i j \<equiv> new_Connection i ''result'' j ''data''"

lemma chain_store_shape:
  shows "canEdit chain_store"
    and "snd (shape_view (graph chain_store)) = {chain_link ''n_1'' ''n_2'', chain_link ''n_2'' ''n_3''}"
proof -
  show "canEdit chain_store"
    by (simp add: addNode_ui addConnection_ui canEdit_def isReadonly_def start_store_def DEFAULT_UI_STATE_def)
  let ?st0 = "start_store builtin_classes" and ?add = "\<lambda>p st. snd (store_addNode builtin_classes ''noop'' p st)"
  have C: "map_of builtin_classes ''noop'' = Some NoOpNode" by (simp add: builtin_classes_def class_defs)
  have v0: "shape_view (graph ?st0) = (Map.empty, {})" and n0: "idCounter (core (graph ?st0)) = 0"
    by (simp_all add: shape_view_def start_store_def new_WorkflowAdapter_def new_WorkflowEditor_def editor_on_def fun_eq_iff)
  have g0: "session_good builtin_classes (graph ?st0)" by (rule sh.line_good [OF start_store_line [OF builtin_sound]])
  have nl: "''noop'' \<noteq> ''loop''" by simp
  note a1 = store_addNode_shape [OF g0 v0 C nl refl, of "(0, 0)", unfolded n0]
  note a2 = store_addNode_shape [OF a1(3,2) C nl refl, of "(300, 0)", unfolded a1(4)]
  note a3 = store_addNode_shape [OF a2(3,2) C nl refl, of "(600, 0)", unfolded a2(4)]
  let ?shape = "\<lambda>x. class_shape NoOpNode (x, 0)"
  have ids: "show_nat (Suc 0) = ''1''" "show_nat (Suc (Suc 0)) = ''2''" "show_nat (Suc (Suc (Suc 0))) = ''3''"
    by code_simp+
  have v3: "shape_view (graph (?add (600, 0) (?add (300, 0) (?add (0, 0) ?st0)))) =
      ([''n_1'' \<mapsto> ?shape 0, ''n_2'' \<mapsto> ?shape 300, ''n_3'' \<mapsto> ?shape 600], {})"
    using a3(2) by (simp add: ids)
  have link: "shape_link [''n_1'' \<mapsto> ?shape 0, ''n_2'' \<mapsto> ?shape 300, ''n_3'' \<mapsto> ?shape 600] (chain_link i j)"
    if "(i, j) \<in> {(''n_1'', ''n_2''), (''n_2'', ''n_3'')}" for i j
    using that by (auto simp: shape_link_def class_shape_def new_Connection_def NoOpNode_def new_node_def new_BaseNode_def
        addInput_def addOutput_def isCompatible_def)
  have "snd (shape_view (graph (snd (store_addConnection ''n_2'' ''result'' ''n_3'' ''data''
      (snd (store_addConnection ''n_1'' ''result'' ''n_2'' ''data'' (?add (600, 0) (?add (300, 0) (?add (0, 0) ?st0)))))))))
      = {chain_link ''n_1'' ''n_2'', chain_link ''n_2'' ''n_3''}"
    using store_addConnection_shape [OF v3, of "''n_1''" "''result''" "''n_2''" "''data''"] link [of "''n_1''"] link [of "''n_2''"]
      store_addConnection_shape [of _ "[''n_1'' \<mapsto> ?shape 0, ''n_2'' \<mapsto> ?shape 300, ''n_3'' \<mapsto> ?shape 600]" _ "''n_2''" "''result''" "''n_3''" "''data''"]
    by (auto simp: new_Connection_def generateId_def)
  then show "snd (shape_view (graph chain_store)) = {chain_link ''n_1'' ''n_2'', chain_link ''n_2'' ''n_3''}" by simp
qed

lemma chain_store_ends: "shape_view (graph chain_store) = (S, K) \<Longrightarrow> \<forall>k \<in> K. plain_ends k"
  using chain_store_shape(2) by (auto simp: plain_ends_def new_Connection_def)

theorem delete_bridges_neighbours_witness:
  "''n_2'' \<notin> set (sel_nodeIds (selection (ui (onNodeDelete builtin_classes ''n_2'' chain_store))))
   \<and> fst (shape_view (graph (onNodeDelete builtin_classes ''n_2'' chain_store))) ''n_2'' = None"
proof -
  obtain S K where v: "shape_view (graph chain_store) = (S, K)" by fastforce
  from delete_bridges_neighbours [OF builtin_sound _ refl chain_store_shape(1) v chain_store_ends [OF v] refl, of "''n_2''"] show ?thesis
    by (simp add: store_ok_def)
qed

subsection \<open>Inserting a node into a connection\<close>

definition wires :: "node_class \<Rightarrow> connection \<Rightarrow> string \<Rightarrow> connection set" where
  "wires C k i =
     (case first_socket (socketsToUI (inputs (new_node C))) of
        None \<Rightarrow> {}
      | Some a \<Rightarrow>
          insert (new_Connection (source k) (sourceHandle k) i a)
            (case first_socket (socketsToUI (outputs (new_node C))) of
               None \<Rightarrow> {}
             | Some b \<Rightarrow> {new_Connection i b (target k) (targetHandle k)}))"

lemma find_by_key: "distinct (map f xs) \<Longrightarrow> x \<in> set xs \<Longrightarrow> List.find (\<lambda>y. f y = f x) xs = Some x"
  by (induction xs) (auto simp: rev_image_eqI)

lemma getNode_sockets:
  assumes "session_good odoo (graph st)" and "shape_view (graph st) = (S, K)" and "S i = Some (class_shape C p)"
  obtains n where "store_getNode i st = Some n" and "ui_inputs n = socketsToUI (inputs (new_node C))"
    and "ui_outputs n = socketsToUI (outputs (new_node C))"
  using assms(2,3) getNode_mirror [OF session_good_inv [OF assms(1)], of i]
  by (auto simp: shape_view_def shape_of_def class_shape_def node_to_ui_def)

lemma runDeferredConnect_shape:
  assumes g: "session_good odoo (graph st)" and v: "shape_view (graph st) = (S, K)" and i: "S i = Some (class_shape C p)"
    and inj: "inj_on conn_id (K \<union> wires C k i)" and t: "t = no_deferred\<lparr>deferredConnect := Some (conn_to_ui k, i)\<rparr>"
  shows "fst (runDeferredConnect t st) = no_deferred"
    and "shape_view (graph (snd (runDeferredConnect t st))) = (S, K \<union> {j \<in> wires C k i. shape_link S j})"
proof -
  from getNode_sockets [OF g v i] obtain n where n: "store_getNode i st = Some n"
    "ui_inputs n = socketsToUI (inputs (new_node C))" "ui_outputs n = socketsToUI (outputs (new_node C))" .
  show "fst (runDeferredConnect t st) = no_deferred" by (simp add: t runDeferredConnect_def no_deferred_def)
  show "shape_view (graph (snd (runDeferredConnect t st))) = (S, K \<union> {j \<in> wires C k i. shape_link S j})"
  proof (cases "first_socket (ui_inputs n)")
    case None
    with n v show ?thesis by (simp add: t runDeferredConnect_def wires_def)
  next
    case (Some a)
    let ?st = "snd (store_addConnection (source k) (sourceHandle k) i a st)" and ?j = "new_Connection (source k) (sourceHandle k) i a"
    have "inj_on conn_id (insert ?j K)"
      by (rule inj_on_subset [OF inj]) (use Some n in \<open>auto simp: wires_def\<close>)
    note v1 = add_step [OF v this]
    show ?thesis
    proof (cases "first_socket (ui_outputs n)")
      case None
      with Some n v1 show ?thesis by (simp add: t runDeferredConnect_def wires_def)
    next
      case out: (Some b)
      have "inj_on conn_id (insert (new_Connection i b (target k) (targetHandle k)) (K \<union> {x \<in> {?j}. shape_link S x}))"
        by (rule inj_on_subset [OF inj]) (use Some out n in \<open>auto simp: wires_def\<close>)
      from add_step [OF v1 this] Some out n show ?thesis by (auto simp: t runDeferredConnect_def wires_def)
    qed
  qed
qed

text \<open>C32: What inserting a node into a connection leaves. In every editable store reached by permitted operations,
  with plain node ids and handles, choosing a node type (other than a loop) for a connection and running
  the timer it sets gives: one new node at the position, all other nodes unchanged, all other connections
  unchanged, the connection itself removed, and in its place the connection to the first input of the new
  node and the one from its first output, each if its sockets are compatible. So a type with inputs and
  compatible outputs keeps the flow; a type without inputs, such as a trigger, takes the connection away and
  puts nothing in its place.\<close>

theorem insert_into_connection:
  assumes "registry_sound odoo" and "permitted (store_step odoo) store_ok ops (start_store odoo)"
    and "st = run_ops (store_step odoo) ops (start_store odoo)" and ed: "canEdit st"
    and v: "shape_view (graph st) = (S, K)" and k: "k \<in> K" and ends: "\<forall>k \<in> K. plain_ends k"
    and C: "map_of odoo type = Some C" "type \<noteq> ''loop''"
    and b: "\<forall>b. first_socket (socketsToUI (outputs (new_node C))) = Some b \<longrightarrow> CHR ''='' \<notin> set b"
    and ins: "insertNodeIntoConnection odoo type (conn_id k) p no_deferred st = (t1, st1)"
    and run: "runDeferredConnect t1 st1 = (t2, st2)"
  shows "\<exists>i. S i = None \<and> t2 = no_deferred \<and> shape_view (graph st2) =
    (S(i \<mapsto> class_shape C p), (K - {k}) \<union> {j \<in> wires C k i. shape_link (S(i \<mapsto> class_shape C p)) j})"
proof -
  have l: "on_line odoo st" using sto.run_invar [OF start_store_line [OF assms(1)] assms(2)] assms(3) by simp
  note g = sh.line_good [OF l]
  note links = view_conns [OF g v]
  have inv: "adapter_inv (graph st)" by (rule session_good_inv [OF g])
  have "distinct (map conn_id (connections (core (graph st))))" using inv by (simp add: adapter_inv_def core_wf_def conns_wf_def)
  moreover have kc: "k \<in> set (connections (core (graph st)))" using v k by (auto simp: shape_view_def)
  ultimately have "List.find (\<lambda>j. conn_id j = conn_id k) (connections (core (graph st))) = Some k"
    by (rule find_by_key)
  then have conn: "store_getConnection (conn_id k) st = Some (conn_to_ui k)" by (simp add: getConnection_mirror [OF inv])
  define i where "i = ''n_'' @ show_nat (Suc (idCounter (core (graph st))))"
  obtain sa where sa: "store_addNode odoo type p st = (Some i, sa)"
    using store_addNode_shape(1) [OF g v C i_def] by (metis prod.collapse)
  note fresh = new_id_fresh [OF g v i_def]
  note a = store_addNode_shape [OF g v C i_def, of p, unfolded sa snd_conv]
  have t1: "t1 = no_deferred\<lparr>deferredConnect := Some (conn_to_ui k, i)\<rparr>" and st1: "st1 = snd (store_removeConnection (conn_id k) sa)"
    using ins ed conn sa by (auto simp: insertNodeIntoConnection_def)
  have K: "{j \<in> K. conn_id j \<noteq> conn_id k} = K - {k}" using links(2) k by (auto dest: inj_onD)
  have v1: "shape_view (graph st1) = (S(i \<mapsto> class_shape C p), K - {k})"
    unfolding st1 store_removeConnection_shape [OF a(3,2)] K ..
  have g1: "session_good odoo (graph st1)" using store_removeConnection_step [OF a(3)] by (simp add: st1 recorded_step_def)
  have "\<forall>j \<in> (K - {k}) \<union> wires C k i. plain_conn j \<and> plain_ends j"
    using links(1) ends k fresh(2) b by (auto simp: wires_def plain_ends_def new_Connection_def plain_conn_def split: option.splits)
  note inj = plain_ids_inj [OF this]
  from runDeferredConnect_shape [OF g1 v1 _ inj t1] run fresh(1) show ?thesis by auto
qed

theorem insert_into_connection_witness:
  "let k = chain_link ''n_1'' ''n_2'';
       (t1, st1) = insertNodeIntoConnection builtin_classes ''manual_trigger'' (conn_id k) (300, 100) no_deferred chain_store
   in snd (shape_view (graph (snd (runDeferredConnect t1 st1)))) = {chain_link ''n_2'' ''n_3''}"
proof -
  let ?k = "chain_link ''n_1'' ''n_2''"
  obtain S K where v: "shape_view (graph chain_store) = (S, K)" by fastforce
  obtain t1 st1 where 1: "insertNodeIntoConnection builtin_classes ''manual_trigger'' (conn_id ?k) (300, 100) no_deferred chain_store = (t1, st1)"
    by fastforce
  obtain t2 st2 where 2: "runDeferredConnect t1 st1 = (t2, st2)" by fastforce
  have K: "K = {?k, chain_link ''n_2'' ''n_3''}" using chain_store_shape(2) v by simp
  have C: "map_of builtin_classes ''manual_trigger'' = Some ManualTriggerNode" by (simp add: builtin_classes_def class_defs)
  have none: "wires ManualTriggerNode ?k i = {}" for i
    by (simp add: wires_def first_socket_def socketsToUI_def ManualTriggerNode_def new_node_def new_BaseNode_def addOutput_def)
  have out: "\<forall>b. first_socket (socketsToUI (outputs (new_node ManualTriggerNode))) = Some b \<longrightarrow> CHR ''='' \<notin> set b"
    by (simp add: first_socket_def socketsToUI_def ManualTriggerNode_def new_node_def new_BaseNode_def addOutput_def obj_set_def is_index_key_def)
  have "?k \<in> K" using K by simp
  from insert_into_connection [OF builtin_sound _ refl chain_store_shape(1) v this chain_store_ends [OF v] C _ out 1 2] none
  have "snd (shape_view (graph st2)) = K - {?k}" by (simp add: store_ok_def) (metis snd_conv)
  then show ?thesis using 1 2 K by (auto simp: new_Connection_def)
qed

end
