(* ===== verification/Expression.thy ===== *)
theory Expression
  imports Js_Prelude
begin

section \<open>Expressions: templates, paths and their preview\<close>

text \<open>
  The functions of utils/expression_utils.js. A stored value that starts with \<open>=\<close> is an expression; its
  templates \<open>{{ ... }}\<close> are found by a lazy regular expression, a template that is a path into the context
  is resolved by walking it, and any other one is run as a JavaScript function. The regular expressions are
  written out as the scanners they are: each is tried at every position from left to right, as
  \<open>RegExp.exec\<close> does with the flag g. Running code (\<open>new Function\<close>) is the parameter \<open>run\<close> of the
  definitions: it takes the named arguments and the source of the returned expression and gives the value or
  the exception.
\<close>

subsection \<open>Character classes\<close>

definition is_letter :: "char \<Rightarrow> bool" where
  "is_letter c \<longleftrightarrow> (let n = (of_char c :: nat) in (65 \<le> n \<and> n \<le> 90) \<or> (97 \<le> n \<and> n \<le> 122))"

text \<open>\<open>[a-zA-Z_]\<close> and \<open>\w\<close>, which is \<open>[a-zA-Z0-9_]\<close>; the dot matches all but the line terminators.\<close>

definition ident_start :: "char \<Rightarrow> bool" where
  "ident_start c \<longleftrightarrow> is_letter c \<or> c = CHR ''_''"

definition word_char :: "char \<Rightarrow> bool" where
  "word_char c \<longleftrightarrow> ident_start c \<or> is_digit c"

definition line_end :: "char \<Rightarrow> bool" where
  "line_end c \<longleftrightarrow> (of_char c :: nat) = 10 \<or> (of_char c :: nat) = 13"

subsection \<open>Templates\<close>

definition NAMESPACES :: "string list" where
  "NAMESPACES = [''_json'', ''_vars'', ''_loop'', ''_node'', ''_input'', ''_execution'', ''_workflow'', ''_now'', ''_today'']"

text \<open>\<open>.*?}}\<close>: the shortest text without a line end before two closing braces, and what follows them.\<close>

fun lazy_close :: "string \<Rightarrow> (string \<times> string) option" where
  "lazy_close [] = None"
| "lazy_close (c # s) =
     (if js_starts (c # s) ''}}'' then Some ([], tl s)
      else if line_end c then None
      else map_option (\<lambda>(e, r). (c # e, r)) (lazy_close s))"

text \<open>\<open>\{\{(.+?)\}\}\<close> at the start of a text: the captured group and the rest.\<close>

fun match_template :: "string \<Rightarrow> (string \<times> string) option" where
  "match_template (a # b # c # s) =
     (if a = CHR ''{'' \<and> b = CHR ''{'' \<and> \<not> line_end c then map_option (\<lambda>(e, r). (c # e, r)) (lazy_close s) else None)"
| "match_template _ = None"

record expr_template =
  full :: string
  expression :: string
  tm_start :: nat
  tm_end :: nat

lemma lazy_close_shorter: "lazy_close s = Some (e, r) \<Longrightarrow> length e + length r + 2 = length s"
  by (induction s arbitrary: e r) (auto split: if_splits simp: js_starts_iff)

lemma match_template_shorter: "match_template s = Some (e, r) \<Longrightarrow> length e + length r + 4 = length s"
  by (induction s rule: match_template.induct) (auto split: if_splits dest: lazy_close_shorter)

text \<open>The loop over \<open>regex.exec\<close> from position \<open>i\<close> on; it ends because a match is never empty.\<close>

function scan_templates :: "nat \<Rightarrow> string \<Rightarrow> expr_template list" where
  "scan_templates i [] = []"
| "scan_templates i (c # s) =
     (case match_template (c # s) of
        None \<Rightarrow> scan_templates (Suc i) s
      | Some (e, r) \<Rightarrow>
          \<lparr>full = ''{{'' @ e @ ''}}'', expression = js_trim e, tm_start = i, tm_end = i + length e + 4\<rparr>
            # scan_templates (i + length e + 4) r)"
  by pat_completeness auto
termination
  by (relation "measure (\<lambda>(i, s). length s)") (auto dest: match_template_shorter)

fun extractExpressions :: "jsval \<Rightarrow> expr_template list" where
  "extractExpressions (JStr s) = scan_templates 0 s"
| "extractExpressions _ = []"

fun hasExpressions :: "jsval \<Rightarrow> bool" where
  "hasExpressions (JStr s) = (scan_templates 0 s \<noteq> [])"
| "hasExpressions _ = False"

fun isExpressionMode :: "jsval \<Rightarrow> bool" where
  "isExpressionMode (JStr s) = js_starts s ''=''"
| "isExpressionMode _ = False"

fun stripExpressionPrefix :: "jsval \<Rightarrow> string" where
  "stripExpressionPrefix (JStr s) = (if isExpressionMode (JStr s) then tl s else s)"
| "stripExpressionPrefix _ = []"

definition ensureExpressionPrefix :: "jsval \<Rightarrow> string" where
  "ensureExpressionPrefix v =
     (if nullish v then ''=''
      else let t = js_string v in if isExpressionMode (JStr t) then t else ''='' @ t)"

definition inferExpressionModeFromValue :: "jsval \<Rightarrow> bool" where
  "inferExpressionModeFromValue v = (is_string v \<and> isExpressionMode v)"

definition wrapExpression :: "string \<Rightarrow> string" where
  "wrapExpression e = ''{{ '' @ e @ '' }}''"

subsection \<open>Paths\<close>

definition path_segment :: "string \<Rightarrow> string" where
  "path_segment part =
     (if part \<noteq> [] \<and> list_all is_digit part then ''['' @ part @ '']''
      else if list_ex (\<lambda>c. \<not> word_char c) part then ''['' @ [CHR 0x27] @ part @ [CHR 0x27] @ '']''
      else ''.'' @ part)"

definition generateExpressionPath :: "string list \<Rightarrow> string \<Rightarrow> string" where
  "generateExpressionPath parts base = base @ concat (map path_segment parts)"

definition generateNodeSelectorExpressionPath :: "string \<Rightarrow> string list \<Rightarrow> string" where
  "generateNodeSelectorExpressionPath nodeId parts =
     (if nodeId = [] then generateExpressionPath parts ''_json''
      else generateExpressionPath parts (''_node['' @ [CHR 0x22] @ nodeId @ [CHR 0x22] @ ''].json''))"

text \<open>The four alternatives of the path regular expression, in their order.\<close>

definition match_ident :: "string \<Rightarrow> (string \<times> string) option" where
  "match_ident s =
     (let t = (if js_starts s ''.'' then tl s else s)
      in if t \<noteq> [] \<and> ident_start (hd t) then Some (takeWhile word_char t, dropWhile word_char t) else None)"

definition match_index :: "string \<Rightarrow> (string \<times> string) option" where
  "match_index s =
     (if \<not> js_starts s ''['' then None
      else let w = takeWhile is_digit (tl s); r = dropWhile is_digit (tl s)
           in if w \<noteq> [] \<and> js_starts r '']'' then Some (w, tl r) else None)"

definition match_quoted :: "char \<Rightarrow> string \<Rightarrow> (string \<times> string) option" where
  "match_quoted q s =
     (if \<not> js_starts s [CHR ''['', q] then None
      else let w = takeWhile (\<lambda>c. c \<noteq> q) (drop 2 s); r = dropWhile (\<lambda>c. c \<noteq> q) (drop 2 s)
           in if w \<noteq> [] \<and> js_starts r [q, CHR '']''] then Some (w, drop 2 r) else None)"

definition match_part :: "string \<Rightarrow> (string \<times> string) option" where
  "match_part s =
     (case match_ident s of Some x \<Rightarrow> Some x
      | None \<Rightarrow> (case match_index s of Some x \<Rightarrow> Some x
      | None \<Rightarrow> (case match_quoted (CHR 0x27) s of Some x \<Rightarrow> Some x
      | None \<Rightarrow> match_quoted (CHR 0x22) s)))"

lemma match_ident_shorter: "match_ident s = Some (w, r) \<Longrightarrow> length r < length s"
proof -
  assume a: "match_ident s = Some (w, r)"
  define t where "t = (if js_starts s ''.'' then tl s else s)"
  have t: "t \<noteq> []" "ident_start (hd t)" "r = dropWhile word_char t"
    using a by (simp_all add: match_ident_def t_def [symmetric] split: if_splits)
  then obtain c u where "t = c # u" "word_char c" by (cases t) (auto simp: word_char_def)
  then have "length r \<le> length u" using t by (simp add: length_dropWhile_le)
  moreover have "length t \<le> length s" by (simp add: t_def)
  ultimately show ?thesis using \<open>t = c # u\<close> by simp
qed

lemma match_index_shorter: "match_index s = Some (w, r) \<Longrightarrow> length r < length s"
  using length_dropWhile_le [of is_digit "tl s"]
  by (cases s) (auto simp: match_index_def Let_def split: if_splits)

lemma match_quoted_shorter: "match_quoted q s = Some (w, r) \<Longrightarrow> length r < length s"
  using length_dropWhile_le [of "\<lambda>c. c \<noteq> q" "drop 2 s"]
  by (cases s) (auto simp: match_quoted_def Let_def split: if_splits)

lemma match_part_shorter: "match_part s = Some (w, r) \<Longrightarrow> length r < length s"
  by (auto simp: match_part_def split: option.splits dest: match_ident_shorter match_index_shorter match_quoted_shorter)

function scan_parts :: "string \<Rightarrow> string list" where
  "scan_parts [] = []"
| "scan_parts (c # s) = (case match_part (c # s) of None \<Rightarrow> scan_parts s | Some (w, r) \<Rightarrow> w # scan_parts r)"
  by pat_completeness auto
termination
  by (relation "measure length") (auto dest: match_part_shorter)

text \<open>\<open>/^_(\w+)/\<close>: the namespace with its underscore.\<close>

definition match_namespace :: "string \<Rightarrow> string option" where
  "match_namespace s =
     (if js_starts s ''_'' \<and> takeWhile word_char (tl s) \<noteq> [] then Some (''_'' @ takeWhile word_char (tl s)) else None)"

fun parseExpressionPath :: "jsval \<Rightarrow> string option \<times> string list" where
  "parseExpressionPath (JStr path) =
     (if path = [] then (None, [])
      else let ns = match_namespace path;
               clean = (case ns of None \<Rightarrow> path
                        | Some n \<Rightarrow> (let t = drop (length n) path in if js_starts t ''.'' then tl t else t))
           in (ns, scan_parts clean))"
| "parseExpressionPath _ = (None, [])"

definition parsePathParts :: "jsval \<Rightarrow> string list" where
  "parsePathParts path = snd (parseExpressionPath path)"

text \<open>The walk along the parts: a read from null or undefined ends it with undefined.\<close>

fun walk_parts :: "jsval \<Rightarrow> string list \<Rightarrow> jsval" where
  "walk_parts v [] = v"
| "walk_parts v (p # ps) = (if nullish v then JUndef else walk_parts (js_prop v p) ps)"

definition getValueByPath :: "jsval \<Rightarrow> jsval \<Rightarrow> jsval" where
  "getValueByPath data path = walk_parts data (parsePathParts path)"

text \<open>The data a namespace stands for: an empty object, or null for the two dates, if the context has none.\<close>

definition namespace_source :: "string \<Rightarrow> jsobj \<Rightarrow> jsval" where
  "namespace_source ns ctx =
     js_or (js_prop (JObj ctx) ns) (if ns = ''_now'' \<or> ns = ''_today'' then JNull else JObj [])"

definition namespace_help :: string where
  "namespace_help = ''Use one of: '' @ js_join '', '' NAMESPACES"

definition resolveExpression :: "string \<Rightarrow> jsobj \<Rightarrow> js_error + jsval" where
  "resolveExpression e ctx =
     (case parseExpressionPath (JStr e) of
        (None, _) \<Rightarrow> Inl (JsError (''Invalid expression namespace. '' @ namespace_help))
      | (Some ns, parts) \<Rightarrow>
          if ns \<notin> set NAMESPACES
          then Inl (JsError (''Unsupported namespace '' @ ns @ ''. '' @ namespace_help))
          else Inr (walk_parts (namespace_source ns ctx) parts))"

subsection \<open>The preview of an expression\<close>

definition containsSupportedNamespaceReference :: "string \<Rightarrow> bool" where
  "containsSupportedNamespaceReference e = list_ex (\<lambda>ns. js_includes e ns) NAMESPACES"

text \<open>
  \<open>SIMPLE_SELECTOR_PATTERN\<close>: a namespace and then only dotted identifiers and bracketed indices or quoted
  keys up to the end. After a name the next character decides how to go on, so the match needs no
  backtracking.
\<close>

definition selector_step :: "string \<Rightarrow> string option" where
  "selector_step s =
     (if js_starts s ''.'' then map_option snd (match_ident s)
      else map_option snd
        (case match_index s of Some x \<Rightarrow> Some x
         | None \<Rightarrow> (case match_quoted (CHR 0x27) s of Some x \<Rightarrow> Some x | None \<Rightarrow> match_quoted (CHR 0x22) s)))"

lemma selector_step_shorter: "selector_step s = Some r \<Longrightarrow> length r < length s"
  by (auto simp: selector_step_def split: if_splits option.splits
      dest: match_ident_shorter match_index_shorter match_quoted_shorter)

function selector_rest :: "string \<Rightarrow> bool" where
  "selector_rest s = (if s = [] then True else case selector_step s of None \<Rightarrow> False | Some r \<Rightarrow> selector_rest r)"
  by pat_completeness auto
termination
  by (relation "measure length") (auto dest: selector_step_shorter)

declare selector_rest.simps [simp del]

definition isSimpleSelectorExpression :: "string \<Rightarrow> bool" where
  "isSimpleSelectorExpression e =
     (let t = js_trim e
      in list_ex (\<lambda>ns. js_starts t ns \<and> selector_rest (drop (length ns) t)) NAMESPACES)"

text \<open>\<open>/\s+w\s+/g\<close> replaced by a text, and \<open>/(^|[\s(])not\s+/g\<close> by the group and an exclamation mark.\<close>

definition match_spaced :: "string \<Rightarrow> string \<Rightarrow> string option" where
  "match_spaced w s =
     (let t = dropWhile is_space s; u = drop (length w) t
      in if s \<noteq> [] \<and> is_space (hd s) \<and> js_starts t w \<and> u \<noteq> [] \<and> is_space (hd u) then Some (dropWhile is_space u) else None)"

lemma match_spaced_shorter: "match_spaced w s = Some r \<Longrightarrow> length r < length s"
proof -
  assume a: "match_spaced w s = Some r"
  then obtain c s' where s: "s = c # s'" "is_space c" by (cases s) (auto simp: match_spaced_def Let_def split: if_splits)
  have r: "r = dropWhile is_space (drop (length w) (dropWhile is_space s'))"
    using a s by (auto simp: match_spaced_def Let_def split: if_splits)
  have "length r \<le> length s'"
    using length_dropWhile_le [of is_space "drop (length w) (dropWhile is_space s')"] length_dropWhile_le [of is_space s'] r by simp
  then show ?thesis using s by simp
qed

function replace_spaced :: "string \<Rightarrow> string \<Rightarrow> string \<Rightarrow> string" where
  "replace_spaced w new [] = []"
| "replace_spaced w new (c # s) =
     (case match_spaced w (c # s) of None \<Rightarrow> c # replace_spaced w new s | Some r \<Rightarrow> new @ replace_spaced w new r)"
  by pat_completeness auto
termination
  by (relation "measure (\<lambda>(w, new, s). length s)") (auto dest: match_spaced_shorter)

definition match_not :: "string \<Rightarrow> string option" where
  "match_not s =
     (let u = drop 3 s in if js_starts s ''not'' \<and> u \<noteq> [] \<and> is_space (hd u) then Some (dropWhile is_space u) else None)"

lemma match_not_shorter: "match_not s = Some r \<Longrightarrow> length r < length s"
  using length_dropWhile_le [of is_space "drop 3 s"] by (cases s) (auto simp: match_not_def Let_def split: if_splits)

function replace_not_inside :: "string \<Rightarrow> string" where
  "replace_not_inside [] = []"
| "replace_not_inside (c # s) =
     (if is_space c \<or> c = CHR ''(''
      then (case match_not s of None \<Rightarrow> c # replace_not_inside s | Some r \<Rightarrow> c # CHR ''!'' # replace_not_inside r)
      else c # replace_not_inside s)"
  by pat_completeness auto
termination
  by (relation "measure length") (auto dest: match_not_shorter)

definition replace_not :: "string \<Rightarrow> string" where
  "replace_not s = (case match_not s of Some r \<Rightarrow> CHR ''!'' # replace_not_inside r | None \<Rightarrow> replace_not_inside s)"

definition normalizePreviewExpression :: "string \<Rightarrow> string" where
  "normalizePreviewExpression e =
     replace_not (replace_spaced ''or'' '' || '' (replace_spaced ''and'' '' && '' (js_trim e)))"

definition buildPreviewScope :: "jsobj \<Rightarrow> (string \<times> jsval) list" where
  "buildPreviewScope ctx =
     map (\<lambda>ns. (ns, namespace_source ns ctx)) NAMESPACES
     @ [(''True'', JBool True), (''False'', JBool False), (''None'', JNull), (''globalThis'', JUndef),
        (''window'', JUndef), (''document'', JUndef), (''Function'', JUndef)]"

type_synonym runner = "(string \<times> jsval) list \<Rightarrow> string \<Rightarrow> js_error + jsval"

definition evaluatePreviewExpression :: "runner \<Rightarrow> string \<Rightarrow> jsobj \<Rightarrow> js_error + jsval" where
  "evaluatePreviewExpression run e ctx = run (buildPreviewScope ctx) (normalizePreviewExpression e)"

definition resolvePreviewTemplate :: "runner \<Rightarrow> string \<Rightarrow> jsobj \<Rightarrow> js_error + jsval" where
  "resolvePreviewTemplate run e ctx =
     (if isSimpleSelectorExpression e then resolveExpression e ctx else evaluatePreviewExpression run e ctx)"

fun typeLabel :: "jsval \<Rightarrow> string option" where
  "typeLabel (JBool b) = Some ''bool''"
| "typeLabel (JNum q) = Some (if q = of_int \<lfloor>q\<rfloor> then ''int'' else ''float'')"
| "typeLabel (JStr s) = Some ''str''"
| "typeLabel (JArr xs) = Some ''list''"
| "typeLabel (JObj ps) = Some ''object''"
| "typeLabel _ = Some ''null''"

text \<open>
  \<open>text.replace(pattern, replacement)\<close> for strings: the first occurrence is replaced, and in the
  replacement the dollar sign is special: \<open>$$\<close> is a dollar sign, \<open>$&\<close> the matched text, and \<open>$\<close> with a
  back quote or a quote the text before or after the match.
\<close>

fun js_substitution :: "string \<Rightarrow> string \<Rightarrow> string \<Rightarrow> string \<Rightarrow> string" where
  "js_substitution [] before matched after = []"
| "js_substitution [c] before matched after = [c]"
| "js_substitution (c # d # s) before matched after =
     (if c \<noteq> CHR ''$'' then c # js_substitution (d # s) before matched after
      else if d = CHR ''$'' then CHR ''$'' # js_substitution s before matched after
      else if d = CHR ''&'' then matched @ js_substitution s before matched after
      else if d = CHR 0x60 then before @ js_substitution s before matched after
      else if d = CHR 0x27 then after @ js_substitution s before matched after
      else c # js_substitution (d # s) before matched after)"

fun js_replace_from :: "string \<Rightarrow> string \<Rightarrow> string \<Rightarrow> string \<Rightarrow> string" where
  "js_replace_from before [] pat new = (if pat = [] then before @ js_substitution new before pat [] else before)"
| "js_replace_from before (c # s) pat new =
     (if js_starts (c # s) pat
      then (let after = drop (length pat) (c # s) in before @ js_substitution new before pat after @ after)
      else js_replace_from (before @ [c]) s pat new)"

definition js_replace :: "string \<Rightarrow> string \<Rightarrow> string \<Rightarrow> string" where
  "js_replace s pat new = js_replace_from [] s pat new"

record evaluation =
  ev_value :: jsval
  ev_error :: "string option"
  ev_type :: "string option"

definition shown :: "jsval \<Rightarrow> string" where
  "shown v = (if v = JUndef then [] else js_string v)"

fun fill_templates :: "runner \<Rightarrow> jsobj \<Rightarrow> expr_template list \<Rightarrow> string \<Rightarrow> js_error + string" where
  "fill_templates run ctx [] result = Inr result"
| "fill_templates run ctx (t # ts) result =
     (case resolvePreviewTemplate run (expression t) ctx of
        Inl e \<Rightarrow> Inl e
      | Inr v \<Rightarrow> fill_templates run ctx ts (js_replace result (full t) (shown v)))"

definition evaluated :: "jsval \<Rightarrow> evaluation" where
  "evaluated v = \<lparr>ev_value = v, ev_error = None, ev_type = typeLabel v\<rparr>"

fun failed :: "js_error \<Rightarrow> evaluation" where
  "failed (JsError m) = \<lparr>ev_value = JNull, ev_error = Some m, ev_type = None\<rparr>"

definition evaluateExpression :: "runner \<Rightarrow> jsval \<Rightarrow> jsobj \<Rightarrow> evaluation" where
  "evaluateExpression run e ctx =
     (let raw = (case e of JStr s \<Rightarrow> s | _ \<Rightarrow> [])
      in if \<not> isExpressionMode (JStr raw) then evaluated (JStr raw)
         else let src = stripExpressionPrefix (JStr raw); ts = extractExpressions (JStr src)
              in if ts = [] then (if js_trim src = [] then evaluated (JStr []) else evaluated (JStr src))
                 else if length ts = 1 \<and> full (hd ts) = src
                      then (case resolvePreviewTemplate run (expression (hd ts)) ctx of
                              Inr v \<Rightarrow> evaluated v
                            | Inl err \<Rightarrow>
                                if containsSupportedNamespaceReference (expression (hd ts))
                                then \<lparr>ev_value = JUndef, ev_error = None, ev_type = None\<rparr>
                                else failed err)
                 else (case fill_templates run ctx ts src of
                         Inl err \<Rightarrow> failed err
                       | Inr result \<Rightarrow> \<lparr>ev_value = JStr result, ev_error = None, ev_type = Some ''str''\<rparr>))"

subsection \<open>Generated paths are read back\<close>

lemmas char_class_defs = word_char_def ident_start_def is_letter_def is_digit_def

text \<open>The parts a generated path can carry: not empty, without a quote, and if they are made of word
  characters only, then an index or an identifier.\<close>

definition path_part :: "string \<Rightarrow> bool" where
  "path_part p \<longleftrightarrow> p \<noteq> [] \<and> CHR 0x27 \<notin> set p
     \<and> (list_all word_char p \<longrightarrow> list_all is_digit p \<or> ident_start (hd p))"

definition no_word_start :: "string \<Rightarrow> bool" where
  "no_word_start r \<longleftrightarrow> r = [] \<or> \<not> word_char (hd r)"

lemma brackets_no_word [simp]:
  "\<not> word_char (CHR ''['')" "\<not> word_char (CHR ''.'')" "\<not> ident_start (CHR ''['')" "\<not> is_digit (CHR '']'')"
  "\<not> is_digit (CHR 0x27)" "\<not> is_digit (CHR 0x22)" "ident_start (CHR ''_'')" "\<not> word_char (CHR 0x20)"
  by (simp_all add: char_class_defs)

lemma takeWhile_word_append:
  "list_all word_char p \<Longrightarrow> no_word_start r \<Longrightarrow> takeWhile word_char (p @ r) = p \<and> dropWhile word_char (p @ r) = r"
  by (induction p) (auto simp: no_word_start_def takeWhile_eq_Nil_iff dropWhile_eq_self_iff)

lemma takeWhile_digit_append:
  "list_all is_digit p \<Longrightarrow> takeWhile is_digit (p @ CHR '']'' # r) = p \<and> dropWhile is_digit (p @ CHR '']'' # r) = CHR '']'' # r"
  by (induction p) auto

lemma takeWhile_quote_append:
  "q \<notin> set p \<Longrightarrow> takeWhile (\<lambda>c. c \<noteq> q) (p @ q # r) = p \<and> dropWhile (\<lambda>c. c \<noteq> q) (p @ q # r) = q # r"
  by (induction p) auto

lemma match_index_at: "p \<noteq> [] \<Longrightarrow> list_all is_digit p \<Longrightarrow> match_index (CHR ''['' # p @ CHR '']'' # r) = Some (p, r)"
  by (simp add: match_index_def takeWhile_digit_append)

lemma match_quoted_at:
  "p \<noteq> [] \<Longrightarrow> q \<notin> set p \<Longrightarrow> match_quoted q (CHR ''['' # q # p @ q # CHR '']'' # r) = Some (p, r)"
  by (simp add: match_quoted_def takeWhile_quote_append)

lemma match_ident_at:
  assumes "p \<noteq> []" "ident_start (hd p)" "list_all word_char p" "no_word_start r"
  shows "match_ident (CHR ''.'' # p @ r) = Some (p, r)" "match_ident (p @ r) = Some (p, r)"
  using assms takeWhile_word_append [OF assms(3,4)]
  by (cases p; auto simp: match_ident_def Let_def char_class_defs)+

lemma path_segment_cases:
  assumes "path_part p"
  obtains (index) "list_all is_digit p" "path_segment p = CHR ''['' # p @ '']''"
    | (quoted) "\<not> list_all is_digit p" "path_segment p = CHR ''['' # CHR 0x27 # p @ CHR 0x27 # '']''"
    | (ident) "ident_start (hd p)" "list_all word_char p" "path_segment p = CHR ''.'' # p"
proof -
  have "list_ex (\<lambda>c. \<not> word_char c) p \<longleftrightarrow> \<not> list_all word_char p" by (auto simp: list_ex_iff list_all_iff)
  with assms that show ?thesis
    by (cases "list_all is_digit p"; cases "list_all word_char p") (simp_all add: path_part_def path_segment_def)
qed

lemma match_ident_bracket [simp]: "match_ident (CHR ''['' # s) = None"
  by (simp add: match_ident_def)

lemma match_index_quote [simp]: "match_index (CHR ''['' # CHR 0x27 # s) = None" "match_index (CHR ''['' # CHR 0x22 # s) = None"
  by (simp_all add: match_index_def)

lemma match_part_segment:
  assumes "path_part p" and "no_word_start r"
  shows "match_part (path_segment p @ r) = Some (p, r)"
  using assms(1)
proof (cases rule: path_segment_cases)
  case index
  then show ?thesis using assms by (simp add: match_part_def match_index_at path_part_def)
next
  case quoted
  then show ?thesis using assms by (simp add: match_part_def match_quoted_at path_part_def)
next
  case ident
  then show ?thesis using assms by (simp add: match_part_def match_ident_at path_part_def)
qed

lemma path_segment_nonempty [simp]: "path_segment p \<noteq> []" "no_word_start (path_segment p @ r)"
  by (simp_all add: path_segment_def no_word_start_def)

lemma segments_no_word: "no_word_start (concat (map path_segment ps))"
  by (cases ps) (simp_all add: no_word_start_def [of "[]"])

lemma scan_parts_match: "match_part s = Some (p, r) \<Longrightarrow> scan_parts s = p # scan_parts r"
  by (cases s) (auto simp: match_part_def match_ident_def match_index_def match_quoted_def)

lemma scan_segments:
  "\<forall>p \<in> set ps. path_part p \<Longrightarrow> scan_parts (concat (map path_segment ps)) = ps"
  by (induction ps) (auto simp: scan_parts_match [OF match_part_segment] segments_no_word)

text \<open>The dot of a first identifier is cut off before the scan, which makes no difference.\<close>

lemma scan_segments_cut:
  assumes "\<forall>p \<in> set ps. path_part p"
  shows "scan_parts (let t = concat (map path_segment ps) in if js_starts t ''.'' then tl t else t) = ps"
proof (cases ps)
  case (Cons p qs)
  then have p: "path_part p" using assms by simp
  let ?r = "concat (map path_segment qs)"
  have rest: "scan_parts ?r = qs" using assms Cons by (intro scan_segments) simp
  from p show ?thesis
  proof (cases rule: path_segment_cases)
    case ident
    have "match_part (p @ ?r) = Some (p, ?r)"
      using match_ident_at(2) [OF _ ident(1,2) segments_no_word] p by (simp add: match_part_def path_part_def)
    then show ?thesis using scan_parts_match rest ident Cons by simp
  qed (use scan_segments [OF assms] Cons in simp_all)
qed simp

lemma match_namespace_at:
  assumes "ns \<in> set NAMESPACES" and "no_word_start r"
  shows "match_namespace (ns @ r) = Some ns"
proof -
  obtain w where w: "ns = CHR ''_'' # w" "w \<noteq> []" "list_all word_char w"
    using assms(1) by (auto simp: NAMESPACES_def char_class_defs)
  then show ?thesis using takeWhile_word_append [OF w(3) assms(2)] by (simp add: match_namespace_def)
qed

lemma parse_generated:
  assumes "ns \<in> set NAMESPACES" and "\<forall>p \<in> set ps. path_part p"
  shows "parseExpressionPath (JStr (generateExpressionPath ps ns)) = (Some ns, ps)"
proof -
  have "ns \<noteq> []" using assms(1) by (auto simp: NAMESPACES_def)
  then show ?thesis
    using match_namespace_at [OF assms(1) segments_no_word] scan_segments_cut [OF assms(2)]
    by (simp add: generateExpressionPath_def Let_def)
qed

subsection \<open>Generated paths in templates\<close>

definition template_text :: "string \<Rightarrow> bool" where
  "template_text s \<longleftrightarrow> CHR ''}'' \<notin> set s \<and> \<not> list_ex line_end s"

lemma template_text_append [simp]: "template_text (s @ t) \<longleftrightarrow> template_text s \<and> template_text t"
  by (auto simp: template_text_def)

lemma template_text_simps [simp]:
  "template_text []" "template_text (c # s) \<longleftrightarrow> c \<noteq> CHR ''}'' \<and> \<not> line_end c \<and> template_text s"
  by (auto simp: template_text_def)

lemma lazy_close_at: "template_text e \<Longrightarrow> lazy_close (e @ ''}}'' @ r) = Some (e, r)"
  by (induction e) auto

lemma match_template_at: "e \<noteq> [] \<Longrightarrow> template_text e \<Longrightarrow> match_template (''{{'' @ e @ ''}}'' @ r) = Some (e, r)"
  using lazy_close_at by (cases e) auto

lemma scan_single_template:
  assumes "e \<noteq> []" and "template_text e"
  shows "scan_templates i (''{{'' @ e @ ''}}'') =
    [\<lparr>full = ''{{'' @ e @ ''}}'', expression = js_trim e, tm_start = i, tm_end = i + length e + 4\<rparr>]"
  using match_template_at [OF assms, of "[]"] by simp

lemma js_trim_padded:
  assumes "s \<noteq> []" "\<not> is_space (hd s)" "\<not> is_space (last s)"
  shows "js_trim s = s" "js_trim ('' '' @ s @ '' '') = s"
proof -
  have d: "dropWhile is_space (s @ t) = s @ t" for t using assms(1,2) by (cases s) simp_all
  have r: "dropWhile is_space (rev s) = rev s" using assms(1,3) by (simp add: dropWhile_eq_self_iff hd_rev)
  have blank: "is_space (CHR '' '')" by (simp add: is_space_def)
  show "js_trim s = s" using d [of "[]"] r by (simp add: js_trim_def)
  show "js_trim ('' '' @ s @ '' '') = s" using d [of "'' ''"] r blank by (simp add: js_trim_def)
qed

lemma line_end_simps [simp]:
  "\<not> line_end (CHR ''['')" "\<not> line_end (CHR '']'')" "\<not> line_end (CHR ''.'')" "\<not> line_end (CHR '' '')"
  "\<not> line_end (CHR 0x27)" "\<not> line_end (CHR 0x22)" "\<not> line_end (CHR ''{'')" "\<not> line_end (CHR ''}'')"
  by (simp_all add: line_end_def)

lemma template_text_segment: "template_text p \<Longrightarrow> template_text (path_segment p)"
  by (simp add: path_segment_def)

lemma selector_step_segment:
  assumes "path_part p" and "no_word_start r"
  shows "selector_step (path_segment p @ r) = Some r"
  using assms(1)
proof (cases rule: path_segment_cases)
  case index
  then show ?thesis using assms by (simp add: selector_step_def match_index_at path_part_def)
next
  case quoted
  then show ?thesis using assms by (simp add: selector_step_def match_quoted_at path_part_def)
next
  case ident
  then show ?thesis using assms by (simp add: selector_step_def match_ident_at path_part_def)
qed

lemma selector_rest_segments: "\<forall>p \<in> set ps. path_part p \<Longrightarrow> selector_rest (concat (map path_segment ps))"
  by (induction ps) (simp_all add: selector_rest.simps selector_step_segment segments_no_word)

lemma word_char_no_space: "word_char c \<Longrightarrow> \<not> is_space c"
  by (auto simp: char_class_defs is_space_def Let_def)

lemma last_segment_no_space:
  assumes "path_part p"
  shows "\<not> is_space (last (path_segment p))"
  using assms
proof (cases rule: path_segment_cases)
  case ident
  have "last p \<in> set p" "p \<noteq> []" using assms by (auto simp: path_part_def)
  then show ?thesis using ident by (auto simp: list_all_iff word_char_no_space)
qed (auto simp: is_space_def)

definition cut_dot :: "string \<Rightarrow> string" where
  "cut_dot t = (if js_starts t ''.'' then tl t else t)"

lemma namespace_text: "ns \<in> set NAMESPACES \<Longrightarrow> ns \<noteq> [] \<and> template_text ns \<and> \<not> is_space (hd ns) \<and> \<not> is_space (last ns)"
  by (auto simp: NAMESPACES_def is_space_def line_end_def)

lemma resolve_path:
  assumes "ns \<in> set NAMESPACES" and "no_word_start t" and "scan_parts (cut_dot t) = ps"
  shows "resolveExpression (ns @ t) ctx = Inr (walk_parts (namespace_source ns ctx) ps)"
  using match_namespace_at [OF assms(1,2)] namespace_text [OF assms(1)] assms(1,3)
  by (simp add: resolveExpression_def cut_dot_def Let_def)

lemma resolve_preview_path:
  assumes "ns \<in> set NAMESPACES" and "no_word_start t" and "scan_parts (cut_dot t) = ps"
    and "selector_rest t" and "t \<noteq> [] \<Longrightarrow> \<not> is_space (last t)"
  shows "resolvePreviewTemplate run (ns @ t) ctx = Inr (walk_parts (namespace_source ns ctx) ps)"
    and "js_trim ('' '' @ (ns @ t) @ '' '') = ns @ t"
proof -
  let ?e = "ns @ t"
  have e: "?e \<noteq> []" "\<not> is_space (hd ?e)" "\<not> is_space (last ?e)"
    using namespace_text [OF assms(1)] assms(5) by (auto simp: last_append hd_append)
  note trim = js_trim_padded [OF e]
  have "isSimpleSelectorExpression ?e"
    using assms(1,4) trim(1) unfolding isSimpleSelectorExpression_def Let_def list_ex_iff
    by (intro bexI [of _ ns]) simp_all
  then show "resolvePreviewTemplate run ?e ctx = Inr (walk_parts (namespace_source ns ctx) ps)"
    using resolve_path [OF assms(1-3)] by (simp add: resolvePreviewTemplate_def)
  show "js_trim ('' '' @ ?e @ '' '') = ?e" by (rule trim(2))
qed

lemma preview_path:
  assumes "ns \<in> set NAMESPACES" and "no_word_start t" and "scan_parts (cut_dot t) = ps"
    and "selector_rest t" and "t \<noteq> [] \<Longrightarrow> \<not> is_space (last t)" and "template_text t"
  shows "evaluateExpression run (JStr (''='' @ wrapExpression (ns @ t))) ctx
    = evaluated (walk_parts (namespace_source ns ctx) ps)"
proof -
  let ?e = "ns @ t" and ?src = "wrapExpression (ns @ t)"
  note res = resolve_preview_path [OF assms(1-5)]
  have src: "?src = ''{{'' @ ('' '' @ ?e @ '' '') @ ''}}''" by (simp add: wrapExpression_def)
  have "extractExpressions (JStr ?src) = [\<lparr>full = ?src, expression = ?e, tm_start = 0, tm_end = length ?src\<rparr>]"
    using scan_single_template [of "'' '' @ ?e @ '' ''" 0] res(2) namespace_text [OF assms(1)] assms(6) unfolding src by simp
  then show ?thesis using res(1) by (simp add: evaluateExpression_def)
qed

definition previewable_part :: "string \<Rightarrow> bool" where
  "previewable_part p \<longleftrightarrow> path_part p \<and> template_text p"

definition node_key :: "string \<Rightarrow> bool" where
  "node_key i \<longleftrightarrow> i \<noteq> [] \<and> CHR 0x22 \<notin> set i \<and> template_text i"

lemma last_concat_segments:
  "\<forall>p \<in> set ps. path_part p \<Longrightarrow> ps \<noteq> [] \<Longrightarrow> \<not> is_space (last (concat (map path_segment ps)))"
  by (induction ps rule: rev_induct) (auto simp: last_segment_no_space)

lemma template_text_segments: "\<forall>p \<in> set ps. template_text p \<Longrightarrow> template_text (concat (map path_segment ps))"
  by (induction ps) (simp_all add: template_text_segment)

lemma preview_segments:
  assumes "ns \<in> set NAMESPACES" and "\<forall>p \<in> set ps. previewable_part p"
  shows "evaluateExpression run (JStr (''='' @ wrapExpression (generateExpressionPath ps ns))) ctx
    = evaluated (walk_parts (namespace_source ns ctx) ps)"
proof -
  have "\<forall>p \<in> set ps. path_part p" "\<forall>p \<in> set ps. template_text p" using assms(2) by (auto simp: previewable_part_def)
  then show ?thesis unfolding generateExpressionPath_def
    using scan_segments_cut last_concat_segments
    by (intro preview_path [OF assms(1)] segments_no_word selector_rest_segments template_text_segments)
      (auto simp: cut_dot_def Let_def)
qed

lemma preview_node_segments:
  assumes "node_key i" and "\<forall>p \<in> set ps. previewable_part p"
  shows "evaluateExpression run (JStr (''='' @ wrapExpression (generateNodeSelectorExpressionPath i ps))) ctx
    = evaluated (walk_parts (namespace_source ''_node'' ctx) (i # ''json'' # ps))"
proof -
  let ?q = "CHR 0x22" and ?segs = "concat (map path_segment (''json'' # ps))"
  let ?t = "CHR ''['' # ?q # i @ ?q # CHR '']'' # ?segs"
  have i: "i \<noteq> []" "?q \<notin> set i" "template_text i" using assms(1) by (auto simp: node_key_def)
  have json: "path_segment ''json'' = ''.json''" "path_part ''json''" "template_text ''json''"
    by (simp_all add: path_segment_def path_part_def char_class_defs line_end_def)
  have ps: "\<forall>p \<in> set (''json'' # ps). path_part p" "\<forall>p \<in> set (''json'' # ps). template_text p"
    using assms(2) json by (auto simp: previewable_part_def)
  have q: "match_quoted (CHR 0x27) ?t = None" by (simp add: match_quoted_def)
  have "match_part ?t = Some (i, ?segs)" "selector_step ?t = Some ?segs"
    using match_quoted_at [OF i(1,2), of ?segs] q by (simp_all add: match_part_def selector_step_def)
  then have "scan_parts (cut_dot ?t) = i # ''json'' # ps" "selector_rest ?t"
    using scan_parts_match scan_segments [OF ps(1)] selector_rest_segments [OF ps(1)] selector_rest.simps [of ?t]
    by (simp_all add: cut_dot_def)
  moreover have "template_text ?t" using i(3) template_text_segments [OF ps(2)] by simp
  moreover have "\<not> is_space (last ?t)" using last_concat_segments [OF ps(1)] json by (simp add: last_append)
  ultimately show ?thesis
    using preview_path [of "''_node''" ?t "i # ''json'' # ps" run ctx] i(1) json(1)
    by (simp add: NAMESPACES_def no_word_start_def generateNodeSelectorExpressionPath_def generateExpressionPath_def)
qed


lemma index_key_0: "is_index_key ''0''" "nat_of_digits ''0'' = 0"
  by (simp_all add: is_index_key_def nat_of_digits_def digit_val_def show_nat.simps digit_char_def char_of_def bit_0)

definition demo_context :: jsobj where
  "demo_context =
     [(''_json'', JObj [(''order lines'', JArr [JObj [(''qty'', JNum 3)]])]),
      (''_node'', JObj [(''n_1'', JObj [(''json'', JObj [(''order lines'', JArr [JObj [(''qty'', JNum 5)]])])])])]"


subsection \<open>Texts with several templates\<close>

text \<open>A text without a template start in it, whatever follows.\<close>

definition closed_text :: "string \<Rightarrow> bool" where
  "closed_text s \<longleftrightarrow> (\<forall>a b u. s = a @ b \<longrightarrow> b \<noteq> [] \<longrightarrow> match_template (b @ u) = None)"

definition is_template :: "string \<Rightarrow> bool" where
  "is_template f \<longleftrightarrow> (\<exists>e. f = ''{{'' @ e @ ''}}'' \<and> e \<noteq> [] \<and> \<not> list_ex line_end e)"

lemma lazy_close_some: "\<not> list_ex line_end e \<Longrightarrow> lazy_close (e @ ''}}'' @ r) \<noteq> None"
proof (induction e)
  case (Cons c e)
  then show ?case by auto
qed simp

lemma lazy_close_parts:
  "lazy_close s = Some (e, r) \<Longrightarrow> s = e @ ''}}'' @ r \<and> \<not> list_ex line_end e"
  by (induction s arbitrary: e r) (auto split: if_splits simp: js_starts_iff)

lemma match_template_parts:
  "match_template s = Some (e, r) \<Longrightarrow> s = ''{{'' @ e @ ''}}'' @ r \<and> is_template (''{{'' @ e @ ''}}'')"
  by (induction s rule: match_template.induct) (auto split: if_splits dest!: lazy_close_parts simp: is_template_def)

lemma match_template_some: "is_template f \<Longrightarrow> match_template (f @ r) \<noteq> None"
proof -
  assume "is_template f"
  then obtain c e where "f = ''{{'' @ (c # e) @ ''}}''" "\<not> line_end c" "\<not> list_ex line_end e"
    by (auto simp: is_template_def neq_Nil_conv)
  then show ?thesis using lazy_close_some [of e r] by simp
qed

text \<open>A line end blocks a template, so what comes after it does not matter.\<close>

lemma lazy_close_blocked: "list_ex line_end b \<Longrightarrow> lazy_close (b @ u) = None \<Longrightarrow> lazy_close (b @ v) = None"
proof (induction b)
  case (Cons c b)
  then show ?case
    by (cases b) (auto split: if_splits simp: line_end_def)
qed simp

lemma literal_closed:
  assumes "is_template f" and "match_template (b @ f @ r) = None" and "b \<noteq> []"
  shows "match_template (b @ u) = None"
proof (cases "\<exists>b'. b = ''{{'' @ b'")
  case True
  then obtain b' where b: "b = ''{{'' @ b'" by blast
  obtain e where e: "f = ''{{'' @ e @ ''}}''" "e \<noteq> []" "\<not> list_ex line_end e" using assms(1) by (auto simp: is_template_def)
  have brace: "\<not> line_end (CHR ''{'')" by simp
  show ?thesis
  proof (cases b')
    case Nil
    then show ?thesis using assms(2) lazy_close_some [of "''{'' @ e" r] e b by simp
  next
    case (Cons c b'')
    show ?thesis
    proof (cases "line_end c")
      case False
      then have none: "lazy_close (b'' @ f @ r) = None" using assms(2) b Cons by simp
      have "list_ex line_end b''"
      proof (rule ccontr)
        assume "\<not> list_ex line_end b''"
        then have "\<not> list_ex line_end (b'' @ ''{{'' @ e)" using e by simp
        from lazy_close_some [OF this, of r] show False using none e(1) by simp
      qed
      from lazy_close_blocked [OF this none] show ?thesis using b Cons by simp
    qed (use b Cons in simp)
  qed
next
  case False
  show ?thesis
  proof (cases b)
    case (Cons c b')
    show ?thesis
    proof (cases b')
      case Nil
      have "c \<noteq> CHR ''{''"
      proof
        assume "c = CHR ''{''"
        obtain d e where e: "f = ''{{'' @ (d # e) @ ''}}''" "\<not> list_ex line_end (d # e)" using assms(1) by (auto simp: is_template_def neq_Nil_conv)
        from lazy_close_some [OF this(2), of r] show False using assms(2) Cons Nil e \<open>c = _\<close> by simp
      qed
      then show ?thesis using Cons Nil by (cases u rule: match_template.cases) simp_all
    next
      case (Cons d b'')
      then show ?thesis using False \<open>b = c # b'\<close> by (cases "b'' @ u") auto
    qed
  qed (use assms(3) in simp)
qed

lemma closed_text_append:
  assumes "closed_text s" and "closed_text t"
  shows "closed_text (s @ t)"
  unfolding closed_text_def
proof (intro allI impI)
  fix a b u
  assume ab: "s @ t = a @ b" and b: "b \<noteq> []"
  then consider us where "s = a @ us" "b = us @ t" | us where "t = us @ b"
    by (auto simp: append_eq_append_conv2)
  then show "match_template (b @ u) = None"
  proof cases
    case (1 us)
    then show ?thesis using assms b unfolding closed_text_def by (cases "us = []") (metis append_Nil, metis append_assoc)
  next
    case (2 us)
    then show ?thesis using assms(2) b by (simp add: closed_text_def)
  qed
qed

lemma closed_text_no_brace: "CHR ''{'' \<notin> set s \<Longrightarrow> closed_text s"
  unfolding closed_text_def
proof (intro allI impI)
  fix a b u
  assume "CHR ''{'' \<notin> set s" "s = a @ b" "b \<noteq> []"
  then show "match_template (b @ u) = None" by (cases "b @ u" rule: match_template.cases) (auto simp: neq_Nil_conv)
qed


lemma js_replace_at:
  assumes "is_template f" and "closed_text x" and "CHR ''$'' \<notin> set new"
  shows "js_replace (x @ f @ r) f new = x @ new @ r"
proof -
  have subst: "js_substitution new before m after = new" for before m after
    using assms(3) by (induction new before m after rule: js_substitution.induct) auto
  have ne: "f \<noteq> []" using assms(1) by (auto simp: is_template_def)
  have "js_replace_from before (x @ f @ r) f new = before @ x @ new @ r" for before
    using assms(2)
  proof (induction x arbitrary: before)
    case Nil
    then show ?case using ne subst by (cases f) simp_all
  next
    case (Cons c x)
    have "closed_text x" using Cons.prems unfolding closed_text_def by (metis append_Cons)
    moreover have "\<not> js_starts (c # x @ f @ r) f"
    proof
      assume "js_starts (c # x @ f @ r) f"
      then obtain u where "(c # x) @ f @ r = f @ u" by (auto simp: js_starts_iff)
      then have "match_template ((c # x) @ f @ r) \<noteq> None" using match_template_some [OF assms(1)] by metis
      then show False using Cons.prems unfolding closed_text_def by (metis append_Nil list.distinct(1))
    qed
    ultimately show ?case using Cons.IH [of "before @ [c]"] by simp
  qed
  then show ?thesis by (simp add: js_replace_def)
qed

lemma scan_templates_first:
  assumes "scan_templates i s = t # ts"
  obtains l r where "s = l @ full t @ r" "tm_start t = i + length l" "tm_end t = tm_start t + length (full t)"
    "is_template (full t)" "ts = scan_templates (tm_end t) r" "closed_text l"
proof -
  have "\<exists>l r. s = l @ full t @ r \<and> tm_start t = i + length l \<and> tm_end t = tm_start t + length (full t)
    \<and> is_template (full t) \<and> ts = scan_templates (tm_end t) r
    \<and> (\<forall>a b. l = a @ b \<longrightarrow> b \<noteq> [] \<longrightarrow> match_template (b @ full t @ r) = None)"
    using assms
  proof (induction i s rule: scan_templates.induct)
    case (2 i c s)
    show ?case
    proof (cases "match_template (c # s)")
      case None
      then obtain l r where l: "s = l @ full t @ r" "tm_start t = Suc i + length l" "tm_end t = tm_start t + length (full t)"
        "is_template (full t)" "ts = scan_templates (tm_end t) r"
        "\<forall>a b. l = a @ b \<longrightarrow> b \<noteq> [] \<longrightarrow> match_template (b @ full t @ r) = None"
        using 2 by auto
      then show ?thesis using None
        by (intro exI [of _ "c # l"] exI [of _ r]) (auto simp: Cons_eq_append_conv)
    next
      case (Some er)
      obtain e r where er: "er = (e, r)" by fastforce
      then show ?thesis using "2.prems" Some match_template_parts [of "c # s" e r]
        by (intro exI [of _ "[]"] exI [of _ r]) auto
    qed
  qed simp
  with that literal_closed show ?thesis unfolding closed_text_def by metis
qed

text \<open>The texts between the templates, and putting a list of texts into these places.\<close>

fun literals :: "nat \<Rightarrow> expr_template list \<Rightarrow> string \<Rightarrow> string list" where
  "literals i [] s = [s]"
| "literals i (t # ts) s = take (tm_start t - i) s # literals (tm_end t) ts (drop (tm_end t - i) s)"

fun interleave :: "string list \<Rightarrow> string list \<Rightarrow> string" where
  "interleave (l # ls) (x # xs) = l @ x @ interleave ls xs"
| "interleave ls xs = concat ls"

lemma literals_split:
  assumes "tm_start t = i + length l" and "tm_end t = tm_start t + length (full t)"
  shows "literals i (t # ts) (l @ full t @ r) = l # literals (tm_end t) ts r"
  using assms by simp

lemma scan_templates_closed: "closed_text s \<Longrightarrow> scan_templates i s = []"
proof (induction s arbitrary: i)
  case (Cons c s)
  have "closed_text s" using Cons.prems unfolding closed_text_def by (metis append_Cons)
  moreover have "match_template ((c # s) @ []) = None" using Cons.prems unfolding closed_text_def by (metis append_Nil list.distinct(1))
  ultimately show ?case using Cons.IH by simp
qed simp

lemma scan_templates_start: "scan_templates i s = [] \<longleftrightarrow> scan_templates j s = []"
proof (induction i s arbitrary: j rule: scan_templates.induct)
  case (2 i c s)
  show ?case
  proof (cases "match_template (c # s)")
    case None
    then show ?thesis using "2.IH"(1) [OF None, of "Suc j"] by simp
  qed auto
qed simp

lemma templates_interleave:
  "scan_templates i s = ts \<Longrightarrow> s = interleave (literals i ts s) (map full ts)
    \<and> (\<forall>l \<in> set (literals i ts s). \<not> hasExpressions (JStr l))"
proof (induction ts arbitrary: i s)
  case Nil
  then show ?case using scan_templates_start [of i s 0] by simp
next
  case (Cons t ts)
  from Cons.prems obtain l r where l: "s = l @ full t @ r" "tm_start t = i + length l" "tm_end t = tm_start t + length (full t)"
    "ts = scan_templates (tm_end t) r" "closed_text l" by (rule scan_templates_first)
  show ?case
    using Cons.IH [OF l(4) [symmetric]] literals_split [OF l(2,3), of ts r] scan_templates_closed [OF l(5), of 0] l(1) by simp
qed

lemma fill_templates_spec:
  assumes "scan_templates i s = ts" and "closed_text p"
    and "\<forall>t \<in> set ts. resolvePreviewTemplate run (expression t) ctx = Inr (val t)
      \<and> CHR ''{'' \<notin> set (shown (val t)) \<and> CHR ''$'' \<notin> set (shown (val t))"
  shows "fill_templates run ctx ts (p @ s) = Inr (p @ interleave (literals i ts s) (map (shown \<circ> val) ts))"
  using assms
proof (induction ts arbitrary: i s p)
  case (Cons t ts)
  from Cons.prems(1) obtain l r where l: "s = l @ full t @ r" "tm_start t = i + length l" "tm_end t = tm_start t + length (full t)"
    "is_template (full t)" "ts = scan_templates (tm_end t) r" "closed_text l" by (rule scan_templates_first)
  let ?new = "shown (val t)"
  have pl: "closed_text (p @ l)" by (rule closed_text_append [OF Cons.prems(2) l(6)])
  have "js_replace (p @ s) (full t) ?new = (p @ l @ ?new) @ r"
    using js_replace_at [OF l(4) pl, of ?new r] Cons.prems(3) l(1) by simp
  moreover have closed: "closed_text (p @ l @ ?new)"
    using closed_text_append [OF pl closed_text_no_brace] Cons.prems(3) by simp
  ultimately show ?case
    using Cons.IH [OF l(5) [symmetric] closed] Cons.prems(3) literals_split [OF l(2,3), of ts r] l(1) by simp
qed simp

text \<open>A text with templates is previewed by putting the value of each template in its place. If the templates
  can be evaluated and no value has an opening brace or a dollar sign when shown, then the preview is the
  text with every template replaced, at its own place, by the text of its value (nothing for undefined), and
  everything between the templates is kept.\<close>

theorem mixed_templates_preview:
  assumes "ts = extractExpressions (JStr src)" and "ts \<noteq> []" and "map full ts \<noteq> [src]"
    and "\<forall>t \<in> set ts. resolvePreviewTemplate run (expression t) ctx = Inr (val t)
      \<and> CHR ''{'' \<notin> set (shown (val t)) \<and> CHR ''$'' \<notin> set (shown (val t))"
  shows "src = interleave (literals 0 ts src) (map full ts)
    \<and> (\<forall>l \<in> set (literals 0 ts src). \<not> hasExpressions (JStr l))
    \<and> evaluateExpression run (JStr (''='' @ src)) ctx
        = \<lparr>ev_value = JStr (interleave (literals 0 ts src) (map (shown \<circ> val) ts)), ev_error = None, ev_type = Some ''str''\<rparr>"
proof -
  have ts: "scan_templates 0 src = ts" using assms(1) by simp
  have "closed_text []" by (simp add: closed_text_def)
  note fill = fill_templates_spec [OF ts this assms(4)]
  have "\<not> (length ts = 1 \<and> full (hd ts) = src)" using assms(3) by (cases ts) auto
  then have "evaluateExpression run (JStr (''='' @ src)) ctx =
    \<lparr>ev_value = JStr (interleave (literals 0 ts src) (map (shown \<circ> val) ts)), ev_error = None, ev_type = Some ''str''\<rparr>"
    using ts fill assms(2) by (auto simp: evaluateExpression_def Let_def)
  then show ?thesis using templates_interleave [OF ts] by blast
qed

lemma resolve_selector:
  assumes "js_starts e ns" and "ns \<in> set NAMESPACES" and "selector_rest (drop (length ns) e)"
  shows "\<exists>v. resolveExpression e ctx = Inr v"
proof -
  obtain t where e: "e = ns @ t" using assms(1) by (auto simp: js_starts_iff)
  have "no_word_start t"
  proof (cases t)
    case (Cons c u)
    then show ?thesis using assms(3) e
      by (auto simp: selector_rest.simps [of "c # u"] selector_step_def match_ident_def match_index_def match_quoted_def no_word_start_def
          split: if_splits option.splits)
  qed (simp add: no_word_start_def)
  then show ?thesis using resolve_path [OF assms(2) _ refl, of t ctx] e by blast
qed

lemma js_trim_idem [simp]: "js_trim (js_trim s) = js_trim s"
proof (cases "js_trim s = []")
  case False
  let ?t = "dropWhile is_space s"
  have t: "js_trim s = rev (dropWhile is_space (rev ?t))" by (simp add: js_trim_def)
  obtain u where u: "rev ?t = takeWhile is_space (rev ?t) @ rev (js_trim s)" using t by simp
  then have "?t = js_trim s @ rev (takeWhile is_space (rev ?t))" by (metis rev_append rev_rev_ident)
  then have "hd (js_trim s) = hd ?t" "?t \<noteq> []" using False by (metis hd_append2, force)
  then have "\<not> is_space (hd (js_trim s))" using hd_dropWhile [of is_space s] by simp
  moreover have "\<not> is_space (last (js_trim s))"
    using False hd_dropWhile [of is_space "rev ?t"] unfolding t by (simp add: last_rev)
  ultimately show ?thesis using js_trim_padded(1) [OF False] by blast
next
  case True
  have "js_trim [] = []" by (simp add: js_trim_def)
  then show ?thesis using True by simp
qed

lemma scan_expression_trimmed: "t \<in> set (scan_templates i s) \<Longrightarrow> js_trim (expression t) = expression t"
  by (induction i s rule: scan_templates.induct) (auto split: option.splits)

definition code_error :: "runner \<Rightarrow> jsobj \<Rightarrow> expr_template \<Rightarrow> string option" where
  "code_error run ctx t =
     (if isSimpleSelectorExpression (expression t) then None
      else case run (buildPreviewScope ctx) (normalizePreviewExpression (expression t)) of
             Inl (JsError m) \<Rightarrow> Some m
           | Inr _ \<Rightarrow> None)"

lemma resolve_template_error:
  assumes "t \<in> set (scan_templates i s)"
  shows "(case resolvePreviewTemplate run (expression t) ctx of Inl err \<Rightarrow> Some err | Inr _ \<Rightarrow> None)
    = map_option JsError (code_error run ctx t)"
proof (cases "isSimpleSelectorExpression (expression t)")
  case True
  then obtain ns where "ns \<in> set NAMESPACES" "js_starts (expression t) ns" "selector_rest (drop (length ns) (expression t))"
    using scan_expression_trimmed [OF assms] by (auto simp: isSimpleSelectorExpression_def Let_def list_ex_iff)
  then obtain v where "resolveExpression (expression t) ctx = Inr v" using resolve_selector by blast
  then show ?thesis using True by (simp add: resolvePreviewTemplate_def code_error_def)
next
  case False
  then show ?thesis
    by (auto simp: resolvePreviewTemplate_def code_error_def evaluatePreviewExpression_def split: sum.splits js_error.splits)
qed


lemma fill_templates_error:
  assumes "set ts \<subseteq> set (scan_templates i s)"
  shows "(case fill_templates run ctx ts result of Inl err \<Rightarrow> Some err | Inr _ \<Rightarrow> None)
    = (case List.map_filter (code_error run ctx) ts of [] \<Rightarrow> None | m # _ \<Rightarrow> Some (JsError m))"
  using assms
proof (induction ts arbitrary: result)
  case (Cons t ts)
  have "t \<in> set (scan_templates i s)" using Cons.prems by simp
  from resolve_template_error [OF this, of run ctx] Cons show ?case
    by (cases "resolvePreviewTemplate run (expression t) ctx"; cases "code_error run ctx t") (auto simp: List.map_filter_simps)
qed (simp add: List.map_filter_simps)

text \<open>C24: Errors of a preview come from the code in it, never from a path. The reported error is the message of the
  first template whose code throws, and there is none if no code throws; if the text is that one template
  and mentions a namespace, its error is kept back, because the server may be able to evaluate it.\<close>

theorem preview_errors:
  "ev_error (evaluateExpression run (JStr (''='' @ src)) ctx) =
     (let ts = extractExpressions (JStr src)
      in case List.map_filter (code_error run ctx) ts of
           [] \<Rightarrow> None
         | m # _ \<Rightarrow> if map full ts = [src] \<and> containsSupportedNamespaceReference (expression (hd ts)) then None else Some m)"
proof -
  define ts where "ts = scan_templates 0 src"
  show ?thesis
  proof (cases "map full ts = [src]")
    case True
    then obtain t where t: "ts = [t]" "full t = src" by auto
    then have "t \<in> set (scan_templates 0 src)" using ts_def by (metis list.set_intros(1))
    from resolve_template_error [OF this, of run ctx] t show ?thesis
      using ts_def
      by (auto simp: evaluateExpression_def Let_def evaluated_def List.map_filter_simps split: sum.splits option.splits)
  next
    case False
    then have "\<not> (length ts = 1 \<and> full (hd ts) = src)" by (cases ts) auto
    then show ?thesis
      using fill_templates_error [of ts 0 src run ctx src] ts_def False
      by (auto simp: evaluateExpression_def Let_def evaluated_def List.map_filter_simps split: sum.splits list.splits)
  qed
qed


definition greeting :: string where
  "greeting = ''Hello {{_json.name}}, {{ _json.city }}!''"

lemma greeting_templates:
  "extractExpressions (JStr greeting) =
     [\<lparr>full = ''{{_json.name}}'', expression = ''_json.name'', tm_start = 6, tm_end = 20\<rparr>,
      \<lparr>full = ''{{ _json.city }}'', expression = ''_json.city'', tm_start = 22, tm_end = 38\<rparr>]"
  by (simp add: greeting_def line_end_def js_trim_def is_space_def)

lemma resolve_json_field:
  assumes "path_part p"
  shows "resolvePreviewTemplate run (''_json'' @ path_segment p) [(''_json'', JObj fs)] = Inr (js_prop (JObj fs) p)"
proof -
  have "scan_parts (cut_dot (path_segment p)) = [p]" "selector_rest (path_segment p)" "no_word_start (path_segment p)"
    using scan_segments_cut [of "[p]"] selector_rest_segments [of "[p]"] path_segment_nonempty(2) [of p "[]"] assms
    by (simp_all add: cut_dot_def Let_def split: if_splits)
  from resolve_preview_path(1) [of "''_json''", OF _ this(3,1,2), of run "[(''_json'', JObj fs)]"]
    last_segment_no_space [OF assms] show ?thesis
    by (simp add: NAMESPACES_def namespace_source_def js_or_def)
qed

lemma greeting_fields:
  "resolvePreviewTemplate run ''_json.name'' [(''_json'', JObj fs)] = Inr (js_prop (JObj fs) ''name'')"
  "resolvePreviewTemplate run ''_json.city'' [(''_json'', JObj fs)] = Inr (js_prop (JObj fs) ''city'')"
  using resolve_json_field [of "''name''" run fs] resolve_json_field [of "''city''" run fs]
  by (simp_all add: path_part_def path_segment_def char_class_defs)

theorem mixed_templates_preview_witness:
  "evaluateExpression (\<lambda>_ _. Inr JNull) (JStr (''='' @ greeting)) [(''_json'', JObj [(''name'', JStr ''Ann'')])]
     = \<lparr>ev_value = JStr ''Hello Ann, !'', ev_error = None, ev_type = Some ''str''\<rparr>"
proof -
  let ?val = "\<lambda>t. if expression t = ''_json.name'' then JStr ''Ann'' else JUndef"
  have "\<forall>t \<in> set (extractExpressions (JStr greeting)).
      resolvePreviewTemplate (\<lambda>_ _. Inr JNull) (expression t) [(''_json'', JObj [(''name'', JStr ''Ann'')])] = Inr (?val t)
      \<and> CHR ''{'' \<notin> set (shown (?val t)) \<and> CHR ''$'' \<notin> set (shown (?val t))"
    unfolding greeting_templates by (simp add: greeting_fields shown_def)
  from mixed_templates_preview [OF refl _ _ this] show ?thesis
    unfolding greeting_templates by (simp add: greeting_def shown_def)
qed

text \<open>A value with a dollar sign is not shown as it is: the replacement treats it as a pattern.\<close>

lemma preview_dollar:
  "ev_value (evaluateExpression run (JStr (''='' @ greeting))
     [(''_json'', JObj [(''name'', JStr ''US$$''), (''city'', JStr ''$&'')])]) = JStr ''Hello US$, {{ _json.city }}!''"
  using greeting_templates
  by (simp add: evaluateExpression_def Let_def greeting_fields shown_def) (simp add: greeting_def js_replace_def)

end
