(* ===== verification/Dynamic_Nodes.thy ===== *)
theory Dynamic_Nodes
  imports Persistence
begin

section \<open>Node classes made from schemas (utils/dynamic_node_factory.js)\<close>

text \<open>
  The server describes its node types by schemas, and the editor makes a class from each description. A
  description is a JavaScript value; a schema in it may be a JSON text, and \<open>JSON.parse\<close> is the parameter
  \<open>parse\<close> (None if it throws). The labels of sockets are strings. The registries of the host framework are
  parameters too: \<open>odoo_registry\<close> lists the operations that are called, and \<open>registry_ok\<close> what they promise.
\<close>

record ('r, 'v) odoo_registry =
  rg_entries :: "'r \<Rightarrow> (string \<times> 'v) list"
  rg_add :: "string \<Rightarrow> 'v \<Rightarrow> 'r \<Rightarrow> 'r" \<comment> \<open>\<open>add\<close> of a new key, or of any key with force\<close>
  rg_remove :: "string \<Rightarrow> 'r \<Rightarrow> 'r"

definition registry_ok :: "('r, 'v) odoo_registry \<Rightarrow> bool" where
  "registry_ok R \<longleftrightarrow>
     (\<forall>k v r. map_of (rg_entries R (rg_add R k v r)) = (map_of (rg_entries R r))(k \<mapsto> v))
     \<and> (\<forall>k r. map_of (rg_entries R (rg_remove R k r)) = (map_of (rg_entries R r))(k := None))
     \<and> (\<forall>r. distinct (map_keys (rg_entries R r)))"

definition rg_contains :: "('r, 'v) odoo_registry \<Rightarrow> string \<Rightarrow> 'r \<Rightarrow> bool" where
  "rg_contains R k r \<longleftrightarrow> k \<in> set (map_keys (rg_entries R r))"

record category_entry =
  cat_name :: string
  cat_icon :: string
  cat_description :: string
  cat_sequence :: jsval

record type_entry =
  te_class :: node_class
  te_name :: string
  te_icon :: string
  te_category :: string
  te_description :: string
  te_group :: string

subsection \<open>Defaults and helpers\<close>

definition CATEGORY_LABELS :: "(string \<times> string) list" where
  "CATEGORY_LABELS =
     [(''trigger'', ''Triggers''), (''action'', ''Actions''), (''flow'', ''Flow Control''), (''data'', ''Data''),
      (''integration'', ''Integrations''), (''transform'', ''Transform'')]"

definition SOCKET_BY_NAME :: "(string \<times> socket) list" where
  "SOCKET_BY_NAME = [(''data'', DataSocket), (''error'', ErrorSocket), (''trigger'', TriggerSocket)]"

abbreviation texts :: "string list \<Rightarrow> jsval" where
  "texts xs \<equiv> JArr (map JStr xs)"

definition HTTP_CONTROL_SUGGESTION_DEFAULTS :: "(string \<times> jsobj) list" where
  "HTTP_CONTROL_SUGGESTION_DEFAULTS =
     [(''url'', [(''suggestions'', texts [''https://api.example.com'', ''https://httpbin.org/anything''])]),
      (''query_params'', [(''suggestionsByKey'', JObj
         [(''limit'', texts [''10'', ''20'', ''50'', ''100'']), (''offset'', texts [''0'', ''10'', ''20'']),
          (''page'', texts [''1'', ''2'', ''3'']), (''sort'', texts [''asc'', ''desc'']),
          (''status'', texts [''active'', ''inactive''])])]),
      (''auth'', [(''suggestionsByKey'', JObj
         [(''header_name'', texts [''Authorization'', ''X-API-Key'']), (''key_name'', texts [''X-API-Key'', ''api_key'']),
          (''scope'', texts [''read'', ''write'', ''read write''])])]),
      (''body_config'', [(''suggestionsByKey'', JObj [(''form_data_value'', texts [''true'', ''false'', ''null''])])]),
      (''headers'', [(''suggestionsByKey'', JObj
         [(''Content-Type'', texts [''application/json'', ''application/x-www-form-urlencoded'', ''multipart/form-data'']),
          (''Accept'', texts [''application/json'', ''*/*'']), (''Authorization'', texts [''Bearer ''])])])]"

definition clonePlain :: "jsval \<Rightarrow> jsval" where
  "clonePlain v = (if nullish v then v else json_copy v)"

text \<open>\<open>value && typeof value === "object" && !Array.isArray(value)\<close>\<close>

fun is_object :: "jsval \<Rightarrow> bool" where
  "is_object (JObj _) = True"
| "is_object _ = False"

definition add_missing :: "jsobj \<Rightarrow> jsobj \<Rightarrow> jsobj" where
  "add_missing defaults control =
     foldl (\<lambda>c (k, v). if k \<in> set (map_keys c) then c else obj_set k (clonePlain v) c) control defaults"

definition withHttpSuggestionDefaults :: "string \<Rightarrow> jsobj \<Rightarrow> jsobj" where
  "withHttpSuggestionDefaults nodeType schema =
     (if nodeType \<noteq> ''http'' then schema
      else foldl (\<lambda>merged (key, defaults).
              case map_of merged key of
                Some (JObj control) \<Rightarrow> obj_set key (JObj (add_missing defaults control)) merged
              | _ \<Rightarrow> merged) schema HTTP_CONTROL_SUGGESTION_DEFAULTS)"

definition getNodeTypeKey :: "jsval \<Rightarrow> string" where
  "getNodeTypeKey e =
     (if \<not> truthy e \<or> \<not> typeof_object e then []
      else case js_or (js_or (js_prop e ''node_type'') (js_prop e ''nodeType'')) (js_prop e ''key'') of
             JStr k \<Rightarrow> js_trim k
           | _ \<Rightarrow> [])"

fun capitalize :: "string \<Rightarrow> string" where
  "capitalize [] = []"
| "capitalize (c # s) = upper_char c @ s"

definition humanizeKey :: "string \<Rightarrow> string" where
  "humanizeKey key = js_join '' '' (map capitalize (filter (\<lambda>w. w \<noteq> []) (js_split (CHR ''_'') key)))"

definition normalizeSchema :: "(string \<Rightarrow> jsval option) \<Rightarrow> jsval \<Rightarrow> jsobj" where
  "normalizeSchema parse raw =
     (if \<not> truthy raw then []
      else case raw of
             JStr s \<Rightarrow> (case parse s of Some (JObj ps) \<Rightarrow> ps | _ \<Rightarrow> [])
           | JObj ps \<Rightarrow> ps
           | _ \<Rightarrow> [])"

definition normalizeControlSchema :: "jsval \<Rightarrow> jsobj" where
  "normalizeControlSchema raw =
     (if \<not> truthy raw then []
      else case raw of JStr s \<Rightarrow> [(''type'', JStr s)] | JObj ps \<Rightarrow> ps | _ \<Rightarrow> [])"

fun normalizeSocketName :: "jsval \<Rightarrow> string" where
  "normalizeSocketName (JStr raw) =
     (let a = js_lower (js_trim raw); b = (if js_ends a ''socket'' then take (length a - 6) a else a)
      in if b = [] then ''data'' else b)"
| "normalizeSocketName _ = ''data''"

definition resolveSocket :: "jsval \<Rightarrow> socket" where
  "resolveSocket d =
     (let name = (case d of
                    JStr s \<Rightarrow> normalizeSocketName d
                  | JObj ps \<Rightarrow> if is_string (opt ps ''type'') then normalizeSocketName (opt ps ''type'')
                              else if is_string (opt ps ''socket'') then normalizeSocketName (opt ps ''socket'')
                              else ''data''
                  | _ \<Rightarrow> ''data'')
      in case map_of SOCKET_BY_NAME name of Some s \<Rightarrow> s | None \<Rightarrow> DataSocket)"

definition getDefaultValue :: "jsobj \<Rightarrow> jsval \<Rightarrow> jsval" where
  "getDefaultValue schema fallback =
     (case map_of schema ''default'' of Some v \<Rightarrow> v
      | None \<Rightarrow> (case map_of schema ''defaultValue'' of Some v \<Rightarrow> v | None \<Rightarrow> fallback))"

fun normalizeControlType :: "jsval \<Rightarrow> string" where
  "normalizeControlType (JStr raw) = (let t = js_lower (js_trim raw) in if t = [] then ''text'' else t)"
| "normalizeControlType _ = ''text''"

fun select_option :: "jsval \<Rightarrow> jsval option" where
  "select_option (JObj ps) =
     (let hasValue = ''value'' \<in> set (map_keys ps); hasLabel = ''label'' \<in> set (map_keys ps);
          v = (if hasValue then opt ps ''value'' else opt ps ''label'');
          l = (if hasLabel then opt ps ''label'' else opt ps ''value'')
      in if nullish v then None
         else Some (JObj [(''value'', JStr (js_string v)), (''label'', JStr (js_string (if nullish l then v else l)))]))"
| "select_option v = (if nullish v then None else Some (JObj [(''value'', JStr (js_string v)), (''label'', JStr (js_string v))]))"

definition normalizeSelectOptions :: "jsval \<Rightarrow> jsval" where
  "normalizeSelectOptions raw = JArr (List.map_filter select_option (arr_items raw))"

definition getSuggestionOptions :: "jsobj \<Rightarrow> jsobj" where
  "getSuggestionOptions schema =
     filter (\<lambda>(k, v). is_array v) (map (\<lambda>k. (k, opt schema k)) [''suggestions'', ''valueSuggestions'', ''expressionSuggestions''])
     @ (if is_object (opt schema ''suggestionsByKey'') then [(''suggestionsByKey'', opt schema ''suggestionsByKey'')] else [])"

subsection \<open>Controls\<close>

definition text_or :: "string \<Rightarrow> jsval \<Rightarrow> jsval" where
  "text_or d v = (if is_string v then v else JStr d)"

fun is_number :: "jsval \<Rightarrow> bool" where
  "is_number (JNum _) = True"
| "is_number _ = False"

definition control_of_type :: "string \<Rightarrow> string \<Rightarrow> jsobj \<Rightarrow> jsobj \<Rightarrow> control" where
  "control_of_type kind key schema base =
     (let default = (\<lambda>d. (''default'', getDefaultValue schema d)); more = getSuggestionOptions schema;
          placeholder = (''placeholder'', text_or [] (opt schema ''placeholder''));
          single = (\<lambda>p d. new_TextInputControl key (base @ [p, (''multiline'', JBool False), default (JStr d)] @ more))
      in if kind = ''select''
         then new_SelectControl key (base @ [(''options'', normalizeSelectOptions (opt schema ''options'')), default JUndef] @ more)
         else if kind = ''number''
         then new_NumberControl key (base @ [(''min'', opt schema ''min''), (''max'', opt schema ''max''),
                (''step'', opt schema ''step''), default (JNum 0)] @ more)
         else if kind = ''boolean'' \<or> kind = ''checkbox''
         then new_CheckboxControl key (base @ [(''default'', JBool (truthy (getDefaultValue schema (JBool False))))] @ more)
         else if kind = ''keyvalue''
         then new_KeyValueControl key (base @ [(''keyPlaceholder'', text_or ''Key'' (opt schema ''keyPlaceholder'')),
                (''valuePlaceholder'', text_or ''Value'' (opt schema ''valuePlaceholder'')), default (JArr [])] @ more)
         else if kind = ''code''
         then new_CodeControl key (base @ [(''language'', text_or ''python'' (opt schema ''language'')),
                (''height'', if is_number (opt schema ''height'') then opt schema ''height'' else JNum 200),
                placeholder, default (JStr [])] @ more)
         else if kind = ''auth''
         then new_AuthControl key (base @ [default (JObj [(''type'', JStr ''none'')])] @ more)
         else if kind = ''body_type''
         then new_BodyTypeControl key (base @ [default (JObj [(''content_type'', JStr ''none''), (''body'', JStr []),
                (''form_data'', JArr [])])] @ more)
         else if kind = ''query_params''
         then new_QueryParamsControl key (base @ [default (JArr [])] @ more)
         else if kind = ''model_select'' then (single placeholder [])\<lparr>ctype := ''model_select''\<rparr>
         else if kind = ''domain'' then (single (''placeholder'', JStr ''[]'') ''[]'')\<lparr>ctype := ''domain''\<rparr>
         else if kind = ''field_values'' then (single (''placeholder'', JStr ''{}'') ''{}'')\<lparr>ctype := ''field_values''\<rparr>
         else let c = new_TextInputControl key (base @ [placeholder,
                     (''multiline'', JBool (opt schema ''multiline'' = JBool True \<or> kind = ''text'' \<or> kind = ''json'')),
                     default (JStr [])] @ more)
              in if kind = ''expression'' then c\<lparr>ctype := ''expression''\<rparr> else c)"

definition createControl :: "string \<Rightarrow> jsval \<Rightarrow> control" where
  "createControl key raw =
     (let schema = normalizeControlSchema raw;
          label = (case opt schema ''label'' of JStr l \<Rightarrow> if l \<noteq> [] then l else humanizeKey key | _ \<Rightarrow> humanizeKey key);
          c = control_of_type (normalizeControlType (opt schema ''type'')) key schema [(''label'', JStr label)];
          c1 = (case opt schema ''section'' of
                  JStr s \<Rightarrow> if s \<noteq> [] then c\<lparr>props := obj_set ''section'' (JStr s) (props c)\<rparr> else c | _ \<Rightarrow> c);
          cond = opt schema ''visibleWhen''
      in if truthy cond \<and> typeof_object cond then c1\<lparr>props := obj_set ''visibleWhen'' cond (props c1)\<rparr> else c1)"

subsection \<open>Classes\<close>

definition socketDefToLabel :: "jsval \<Rightarrow> string" where
  "socketDefToLabel d = (case d of JObj ps \<Rightarrow> (let l = opt ps ''label'' in if truthy l then js_string l else []) | _ \<Rightarrow> [])"

definition socket_multiple :: "jsval \<Rightarrow> bool" where
  "socket_multiple d = (case d of JObj ps \<Rightarrow> opt ps ''multiple'' = JBool True | _ \<Rightarrow> False)"

definition add_schema_input :: "node \<Rightarrow> string \<times> jsval \<Rightarrow> node" where
  "add_schema_input n kd =
     (if fst kd = [] then n
      else addInput (fst kd) (resolveSocket (snd kd)) (Some (socketDefToLabel (snd kd))) (socket_multiple (snd kd)) n)"

definition add_schema_output :: "node \<Rightarrow> string \<times> jsval \<Rightarrow> node" where
  "add_schema_output n kd =
     (if fst kd = [] then n else addOutput (fst kd) (resolveSocket (snd kd)) (Some (socketDefToLabel (snd kd))) n)"

definition add_schema_control :: "node \<Rightarrow> string \<times> jsval \<Rightarrow> node" where
  "add_schema_control n kd =
     (if fst kd = [] then n
      else let schema = normalizeControlSchema (snd kd)
           in if truthy (opt schema ''hidden'')
              then n\<lparr>hiddenDefaults := obj_set (fst kd) (getDefaultValue schema (JStr [])) (hiddenDefaults n)\<rparr>
              else addControl (fst kd) (createControl (fst kd) (snd kd)) n)"

definition dynamic_body :: "jsobj \<Rightarrow> jsobj \<Rightarrow> jsobj \<Rightarrow> node \<Rightarrow> node" where
  "dynamic_body inputSchema outputSchema configSchema n =
     foldl add_schema_control (foldl add_schema_output (foldl add_schema_input n inputSchema) outputSchema) configSchema"

definition nonempty_or :: "string \<Rightarrow> jsval \<Rightarrow> string" where
  "nonempty_or d v = (case v of JStr s \<Rightarrow> if s \<noteq> [] then s else d | _ \<Rightarrow> d)"

definition createDynamicNodeClass :: "(string \<Rightarrow> jsval option) \<Rightarrow> jsval \<Rightarrow> node_class" where
  "createDynamicNodeClass parse td =
     (let nodeType = getNodeTypeKey td;
          configSchema = withHttpSuggestionDefaults nodeType (normalizeSchema parse (js_prop td ''config_schema''))
      in \<lparr>cls_nodeType = nodeType, cls_label = nonempty_or (humanizeKey nodeType) (js_prop td ''name''),
          cls_icon = nonempty_or ''fa-cube'' (js_prop td ''icon''),
          cls_category = nonempty_or ''transform'' (js_prop td ''category''),
          cls_description = nonempty_or [] (js_prop td ''description''),
          cls_group = nonempty_or [] (js_prop td ''group''),
          cls_body = dynamic_body (normalizeSchema parse (js_prop td ''input_schema''))
                       (normalizeSchema parse (js_prop td ''output_schema'')) configSchema\<rparr>)"

subsection \<open>Registration\<close>

definition ensureCategory :: "('c, category_entry) odoo_registry \<Rightarrow> jsval \<Rightarrow> 'c \<Rightarrow> 'c" where
  "ensureCategory K key cats =
     (case key of
        JStr k \<Rightarrow>
          if k = [] \<or> rg_contains K k cats then cats
          else rg_add K k \<lparr>cat_name = (case map_of CATEGORY_LABELS k of Some l \<Rightarrow> l | None \<Rightarrow> humanizeKey k),
                           cat_icon = ''fa-cube'', cat_description = [], cat_sequence = JUndef\<rparr> cats
      | _ \<Rightarrow> cats)"

definition type_entry_of :: "node_class \<Rightarrow> type_entry" where
  "type_entry_of C =
     \<lparr>te_class = C, te_name = cls_label C, te_icon = cls_icon C, te_category = cls_category C,
      te_description = cls_description C, te_group = cls_group C\<rparr>"

fun register_types ::
    "(string \<Rightarrow> jsval option) \<Rightarrow> ('r, type_entry) odoo_registry \<Rightarrow> ('c, category_entry) odoo_registry
      \<Rightarrow> jsval list \<Rightarrow> string list \<times> 'r \<times> 'c \<Rightarrow> string list \<times> 'r \<times> 'c" where
  "register_types parse R K [] s = s"
| "register_types parse R K (td # tds) (keys, types, cats) =
     (let nodeType = getNodeTypeKey td
      in if nodeType = [] then register_types parse R K tds (keys, types, cats)
         else register_types parse R K tds
                (if nodeType \<in> set keys then keys else keys @ [nodeType],
                 rg_add R nodeType (type_entry_of (createDynamicNodeClass parse td)) types,
                 ensureCategory K (js_or (js_prop td ''category'') (JStr ''transform'')) cats))"

definition remove_unlisted :: "('r, 'v) odoo_registry \<Rightarrow> string list \<Rightarrow> 'r \<Rightarrow> 'r" where
  "remove_unlisted R keys types =
     foldl (\<lambda>r k. if k \<in> set keys then r else rg_remove R k r) types (map_keys (rg_entries R types))"

definition registerBackendNodeTypes ::
    "(string \<Rightarrow> jsval option) \<Rightarrow> ('r, type_entry) odoo_registry \<Rightarrow> ('c, category_entry) odoo_registry
      \<Rightarrow> jsval \<Rightarrow> 'r \<Rightarrow> 'c \<Rightarrow> string list \<times> 'r \<times> 'c" where
  "registerBackendNodeTypes parse R K typeDefs types cats =
     (let (keys, types', cats') = register_types parse R K (arr_items typeDefs) ([], types, cats)
      in (keys, remove_unlisted R keys types', cats'))"

text \<open>What the adapter makes of the registry: the class of each entry.\<close>

definition registered_classes :: "('r, type_entry) odoo_registry \<Rightarrow> 'r \<Rightarrow> (string \<times> node_class) list" where
  "registered_classes R types = map (\<lambda>(k, e). (k, te_class e)) (rg_entries R types)"

subsection \<open>The classes are sound\<close>

lemma schema_sockets_fields [simp]:
  "node_id (foldl add_schema_input n xs) = node_id n" "node_id (foldl add_schema_output n xs) = node_id n"
  "node_type (foldl add_schema_input n xs) = node_type n" "node_type (foldl add_schema_output n xs) = node_type n"
  "node_label (foldl add_schema_input n xs) = node_label n" "node_label (foldl add_schema_output n xs) = node_label n"
  "meta (foldl add_schema_input n xs) = meta n" "meta (foldl add_schema_output n xs) = meta n"
  "controls (foldl add_schema_input n xs) = controls n" "controls (foldl add_schema_output n xs) = controls n"
  "hiddenDefaults (foldl add_schema_input n xs) = hiddenDefaults n"
  "hiddenDefaults (foldl add_schema_output n xs) = hiddenDefaults n"
  by (induction xs arbitrary: n; simp add: add_schema_input_def add_schema_output_def)+

lemma schema_controls_fields [simp]:
  "node_id (foldl add_schema_control n xs) = node_id n" "node_type (foldl add_schema_control n xs) = node_type n"
  "node_label (foldl add_schema_control n xs) = node_label n" "meta (foldl add_schema_control n xs) = meta n"
  by (induction xs arbitrary: n; simp add: add_schema_control_def Let_def)+

text \<open>Every key of the configuration schema becomes a control or a hidden default, never both.\<close>

definition config_split :: "string set \<Rightarrow> node \<Rightarrow> bool" where
  "config_split ks n \<longleftrightarrow> distinct (map_keys (controls n)) \<and> distinct (map_keys (hiddenDefaults n))
     \<and> set (map_keys (hiddenDefaults n)) \<inter> set (map_keys (controls n)) = {}
     \<and> set (map_keys (hiddenDefaults n)) \<union> set (map_keys (controls n)) \<subseteq> ks"

lemma config_split_step:
  assumes "config_split ks n" and "fst kd \<notin> ks"
  shows "config_split (insert (fst kd) ks) (add_schema_control n kd)"
proof (cases "fst kd = []")
  case True
  then show ?thesis using assms(1) unfolding config_split_def add_schema_control_def by (simp del: set_map distinct_map) blast
next
  case False
  show ?thesis
  proof (cases "truthy (opt (normalizeControlSchema (snd kd)) ''hidden'')")
    case True
    with False assms show ?thesis unfolding config_split_def add_schema_control_def Let_def
      by (simp add: jso.set_keys_put jso.distinct_put del: set_map distinct_map) blast
  next
    case hidden: False
    with False assms show ?thesis unfolding config_split_def add_schema_control_def addControl_def Let_def
      by (simp add: jso.set_keys_put jso.distinct_put del: set_map distinct_map) blast
  qed
qed

lemma config_split_fold:
  "config_split ks n \<Longrightarrow> distinct (map_keys cs) \<Longrightarrow> set (map_keys cs) \<inter> ks = {} \<Longrightarrow>
     config_split (ks \<union> set (map_keys cs)) (foldl add_schema_control n cs)"
proof (induction cs arbitrary: ks n)
  case (Cons kd cs)
  have "config_split (insert (fst kd) ks) (add_schema_control n kd)" using Cons.prems by (intro config_split_step) auto
  from Cons.IH [OF this] Cons.prems show ?case by (simp add: disjoint_iff) blast
qed simp

lemma keys_http_defaults: "map_keys (withHttpSuggestionDefaults t schema) = map_keys schema"
proof -
  have "map_keys (foldl (\<lambda>merged (key, defaults). case map_of merged key of
      Some (JObj control) \<Rightarrow> obj_set key (JObj (add_missing defaults control)) merged | _ \<Rightarrow> merged) s ds) = map_keys s" for s ds
  proof (induction ds arbitrary: s)
    case (Cons d ds)
    obtain k x where d: "d = (k, x)" by (cases d)
    show ?case
    proof (cases "\<exists>control. map_of s k = Some (JObj control)")
      case True
      then obtain control where c: "map_of s k = Some (JObj control)" by blast
      then have "k \<in> set (map_keys s)" by (force dest: map_of_SomeD)
      then show ?thesis using Cons.IH c by (simp add: d obj_set_keys_present del: set_map)
    next
      case False
      then show ?thesis using Cons.IH by (auto simp: d split: option.splits jsval.splits)
    qed
  qed simp
  then show ?thesis by (simp add: withHttpSuggestionDefaults_def)
qed

text \<open>A description a class can be made of: its configuration schema is an object, a label can be found, and
  its category is a text if it is given.\<close>

definition describes_type :: "(string \<Rightarrow> jsval option) \<Rightarrow> jsval \<Rightarrow> bool" where
  "describes_type parse td \<longleftrightarrow>
     distinct (map_keys (normalizeSchema parse (js_prop td ''config_schema'')))
     \<and> nonempty_or (humanizeKey (getNodeTypeKey td)) (js_prop td ''name'') \<noteq> []
     \<and> (is_string (js_prop td ''category'') \<or> \<not> truthy (js_prop td ''category''))"

lemma dynamic_class_split:
  assumes "describes_type parse td"
  shows "config_split (set (map_keys (normalizeSchema parse (js_prop td ''config_schema'')))) (new_node (createDynamicNodeClass parse td))"
proof -
  let ?cs = "withHttpSuggestionDefaults (getNodeTypeKey td) (normalizeSchema parse (js_prop td ''config_schema''))"
  have "distinct (map_keys ?cs)" using assms unfolding keys_http_defaults describes_type_def by blast
  from config_split_fold [of "{}", OF _ this]
  have "config_split (set (map_keys ?cs)) (new_node (createDynamicNodeClass parse td))"
    by (simp add: new_node_def createDynamicNodeClass_def Let_def dynamic_body_def config_split_def)
  then show ?thesis unfolding keys_http_defaults .
qed

lemma dynamic_class_sound:
  assumes "describes_type parse td"
  shows "class_sound (getNodeTypeKey td, createDynamicNodeClass parse td)"
  using dynamic_class_split [OF assms] assms
  by (simp add: class_sound_def config_split_def describes_type_def Let_def)
     (simp add: new_node_def createDynamicNodeClass_def Let_def dynamic_body_def)

subsection \<open>Registration replaces the registry\<close>

lemma registry_laws:
  assumes "registry_ok R"
  shows "map_of (rg_entries R (rg_add R k v r)) = (map_of (rg_entries R r))(k \<mapsto> v)"
    and "map_of (rg_entries R (rg_remove R k r)) = (map_of (rg_entries R r))(k := None)"
    and "distinct (map_keys (rg_entries R r))"
  using assms unfolding registry_ok_def by blast+

lemma rg_contains_iff: "rg_contains R k r \<longleftrightarrow> map_of (rg_entries R r) k \<noteq> None"
  by (simp add: rg_contains_def map_of_eq_None_iff)

lemma rg_contains_add: "registry_ok R \<Longrightarrow> rg_contains R k (rg_add R k' v r) \<longleftrightarrow> k = k' \<or> rg_contains R k r"
  by (auto simp: rg_contains_iff registry_laws)

lemma unique_snoc: "unique (xs @ [x]) = (if x \<in> set xs then unique xs else unique xs @ [x])"
  by (simp add: unique_def)

definition described :: "jsval list \<Rightarrow> jsval list" where
  "described tds = filter (\<lambda>td. getNodeTypeKey td \<noteq> []) tds"

lemma register_types_spec:
  assumes "registry_ok R" and "registry_ok K"
    and "register_types parse R K tds (unique ks, types, cats) = (keys, types', cats')"
  shows "keys = unique (ks @ map getNodeTypeKey (described tds))
    \<and> map_of (rg_entries R types') = map_of (rg_entries R types)
        ++ map_of (rev (map (\<lambda>td. (getNodeTypeKey td, type_entry_of (createDynamicNodeClass parse td))) (described tds)))
    \<and> (\<forall>k. rg_contains K k cats \<longrightarrow> rg_contains K k cats')
    \<and> (\<forall>td \<in> set (described tds). describes_type parse td \<longrightarrow>
          rg_contains K (cls_category (createDynamicNodeClass parse td)) cats')"
  using assms(3)
proof (induction tds arbitrary: ks types cats)
  case Nil
  then show ?case by (simp add: described_def)
next
  case (Cons td tds)
  show ?case
  proof (cases "getNodeTypeKey td = []")
    case True
    then show ?thesis using Cons by (simp add: described_def)
  next
    case False
    let ?k = "getNodeTypeKey td" and ?cat = "js_or (js_prop td ''category'') (JStr ''transform'')"
    let ?types = "rg_add R ?k (type_entry_of (createDynamicNodeClass parse td)) types"
    let ?cats = "ensureCategory K ?cat cats"
    have mono: "rg_contains K k cats \<Longrightarrow> rg_contains K k ?cats" for k
      by (simp add: ensureCategory_def rg_contains_add [OF assms(2)] split: jsval.splits)
    have own: "rg_contains K (cls_category (createDynamicNodeClass parse td)) ?cats" if "describes_type parse td"
      using that by (auto simp: describes_type_def createDynamicNodeClass_def Let_def nonempty_or_def ensureCategory_def js_or_def
          rg_contains_add [OF assms(2)] split: jsval.splits)
    have "register_types parse R K tds (unique (ks @ [?k]), ?types, ?cats) = (keys, types', cats')"
      using Cons.prems False by (simp add: Let_def unique_snoc split: if_splits)
    from Cons.IH [OF this] show ?thesis
      using False mono own by (simp add: described_def registry_laws [OF assms(1)] map_add_def fun_eq_iff split: option.splits)
  qed
qed

lemma remove_unlisted_spec:
  assumes "registry_ok R"
  shows "map_of (rg_entries R (remove_unlisted R keys types)) k = (if k \<in> set keys then map_of (rg_entries R types) k else None)"
proof -
  have "map_of (rg_entries R (foldl (\<lambda>r k. if k \<in> set keys then r else rg_remove R k r) r ks)) k
      = (if k \<in> set keys \<or> k \<notin> set ks then map_of (rg_entries R r) k else None)" for r ks
    by (induction ks arbitrary: r) (auto simp: registry_laws [OF assms])
  then show ?thesis by (auto simp: remove_unlisted_def map_of_eq_None_iff)
qed


lemma registered_entries:
  assumes "registry_ok R" and "registry_ok K"
    and "registerBackendNodeTypes parse R K (JArr tds) types cats = (keys, types', cats')"
  shows "keys = unique (map getNodeTypeKey (described tds))"
    and "map_of (rg_entries R types')
      = map_of (rev (map (\<lambda>td. (getNodeTypeKey td, type_entry_of (createDynamicNodeClass parse td))) (described tds)))"
    and "td \<in> set (described tds) \<Longrightarrow> describes_type parse td \<Longrightarrow> rg_contains K (cls_category (createDynamicNodeClass parse td)) cats'"
    and "set (map_keys (rg_entries R types')) = set keys"
proof -
  let ?entries = "map (\<lambda>td. (getNodeTypeKey td, type_entry_of (createDynamicNodeClass parse td))) (described tds)"
  obtain r where r: "register_types parse R K tds (unique [], types, cats) = (keys, r, cats')" "types' = remove_unlisted R keys r"
    using assms(3) by (auto simp: registerBackendNodeTypes_def unique_def split: prod.splits)
  note reg = register_types_spec [OF assms(1,2) r(1)]
  show keys: "keys = unique (map getNodeTypeKey (described tds))" using reg by simp
  have set_keys: "set keys = fst ` set ?entries" by (simp add: keys image_image)
  have entries: "map_of (rg_entries R types') k = map_of (rev ?entries) k" for k
  proof (cases "k \<in> set keys")
    case True
    then have "map_of (rev ?entries) k \<noteq> None" using set_keys by (simp only: map_of_eq_None_iff set_rev) simp
    then show ?thesis using reg True by (auto simp: r(2) remove_unlisted_spec [OF assms(1)] map_add_def)
  next
    case False
    then have "map_of (rev ?entries) k = None" using set_keys by (simp only: map_of_eq_None_iff set_rev) simp
    then show ?thesis using False by (simp add: r(2) remove_unlisted_spec [OF assms(1)])
  qed
  then show "map_of (rg_entries R types') = map_of (rev ?entries)" by blast
  then show "set (map_keys (rg_entries R types')) = set keys"
    using dom_map_of_conv_image_fst [of "rg_entries R types'"] dom_map_of_conv_image_fst [of "rev ?entries"] set_keys by simp
  show "td \<in> set (described tds) \<Longrightarrow> describes_type parse td \<Longrightarrow> rg_contains K (cls_category (createDynamicNodeClass parse td)) cats'"
    using reg by blast
qed

text \<open>C25: After the node types of the server have been registered, the registry is exactly what the server
  described. The registered keys are the types of the descriptions, each once, in order; types the server
  no longer lists are gone; each class is the one made from the last description of its type; every class
  has a registered category; and all classes are sound, that is, nodes of them survive saving and loading
  with their hidden values, which is what the properties of editing sessions assume of a registry.\<close>

theorem registered_types_sound:
  assumes "registry_ok R" and "registry_ok K" and "\<forall>td \<in> set (described tds). describes_type parse td"
    and "registerBackendNodeTypes parse R K (JArr tds) types cats = (keys, types', cats')"
  shows "registry_sound (registered_classes R types') \<and> keys = unique (map getNodeTypeKey (described tds))
    \<and> map_of (registered_classes R types')
        = map_of (rev (map (\<lambda>td. (getNodeTypeKey td, createDynamicNodeClass parse td)) (described tds)))
    \<and> set (map_keys (registered_classes R types')) = set keys
    \<and> (\<forall>C \<in> ran (map_of (registered_classes R types')). rg_contains K (cls_category C) cats')"
proof -
  let ?made = "map (\<lambda>td. (getNodeTypeKey td, createDynamicNodeClass parse td)) (described tds)"
  note reg = registered_entries [OF assms(1,2,4)]
  have classes: "map_of (registered_classes R types') = map_of (rev ?made)"
  proof
    fix k
    have "rev ?made = map (\<lambda>(k, e). (k, te_class e))
        (rev (map (\<lambda>td. (getNodeTypeKey td, type_entry_of (createDynamicNodeClass parse td))) (described tds)))"
      by (simp add: rev_map comp_def type_entry_of_def)
    then show "map_of (registered_classes R types') k = map_of (rev ?made) k"
      by (simp add: registered_classes_def map_of_map_snd reg(2))
  qed
  have dom: "map_keys (registered_classes R types') = map_keys (rg_entries R types')"
    by (simp add: registered_classes_def case_prod_beta' comp_def)
  have made: "\<exists>td \<in> set (described tds). k = getNodeTypeKey td \<and> C = createDynamicNodeClass parse td"
    if "map_of (registered_classes R types') k = Some C" for k C
    using that unfolding classes by (auto dest!: map_of_SomeD)
  have distinct: "distinct (map_keys (registered_classes R types'))" unfolding dom by (rule registry_laws(3) [OF assms(1)])
  then have "list_all class_sound (registered_classes R types')"
    using made dynamic_class_sound assms(3) by (fastforce simp: list_all_iff map_of_eq_Some_iff)
  moreover have "set (map_keys (registered_classes R types')) = set keys" unfolding dom by (rule reg(4))
  moreover have "rg_contains K (cls_category C) cats'" if "C \<in> ran (map_of (registered_classes R types'))" for C
  proof -
    obtain k where "map_of (registered_classes R types') k = Some C" using \<open>C \<in> _\<close> by (auto simp: ran_def)
    from made [OF this] show ?thesis using reg(3) assms(3) by auto
  qed
  ultimately show ?thesis using distinct reg(1) classes unfolding registry_sound_def by blast
qed

text \<open>A registry that keeps a list of entries.\<close>

definition list_registry :: "((string \<times> 'v) list, 'v) odoo_registry" where
  "list_registry = \<lparr>rg_entries = AList.clearjunk, rg_add = (\<lambda>k v r. (k, v) # r), rg_remove = (\<lambda>k r. AList.delete k r)\<rparr>"

lemma list_registry_ok: "registry_ok list_registry"
  by (auto simp: registry_ok_def list_registry_def map_of_clearjunk distinct_clearjunk delete_conv')

definition ping_type :: jsval where
  "ping_type =
     JObj [(''node_type'', JStr ''ping''), (''name'', JStr ''Ping''),
           (''config_schema'', JObj [(''url'', JStr ''text''), (''mode'', JObj [(''hidden'', JBool True), (''default'', JStr ''fast'')])])]"

lemma ping_described: "getNodeTypeKey ping_type = ''ping''" "describes_type parse ping_type"
proof -
  show "getNodeTypeKey ping_type = ''ping''"
    by (simp add: ping_type_def getNodeTypeKey_def js_or_def js_trim_def is_space_def)
  then show "describes_type parse ping_type"
    by (simp add: describes_type_def ping_type_def normalizeSchema_def nonempty_or_def)
qed

theorem registered_types_sound_witness:
  "\<exists>types' cats'. registerBackendNodeTypes (\<lambda>_. None) list_registry list_registry (JArr [ping_type, JNull])
       [(''old'', type_entry_of LoopNode)] [] = ([''ping''], types', cats')
     \<and> registry_sound (registered_classes list_registry types')
     \<and> set (map_keys (registered_classes list_registry types')) = {''ping''}"
proof -
  let ?call = "registerBackendNodeTypes (\<lambda>_. None) list_registry list_registry (JArr [ping_type, JNull])
     [(''old'', type_entry_of LoopNode)] []"
  obtain keys types' cats' where call: "?call = (keys, types', cats')" by (cases ?call) auto
  have null: "getNodeTypeKey JNull = []" by (simp add: getNodeTypeKey_def)
  have "described [ping_type, JNull] = [ping_type]" by (simp add: described_def ping_described null)
  with registered_types_sound [OF list_registry_ok list_registry_ok _ call] call show ?thesis
    by (simp add: ping_described unique_def)
qed

end
