(* ===== verification/Panel_Controls.thy ===== *)
theory Panel_Controls
  imports Panel_Rows Canvas_Actions Expression Dynamic_Nodes
begin

section \<open>The values of the configuration panel (components/node_config_panel.js)\<close>

text \<open>
  The open panel of a node: a local copy of the values of its controls, the modes of its expression inputs, and the
  timer that writes the copy to the store 300 ms after the last edit. The panel is given the node of the mirror as it
  was when the dialog opened (\<open>_syncConfigPanelDialog\<close> of components/editor_canvas.js passes it once); the actions it
  calls are those of the store. The list of the models of the host framework is the argument \<open>models\<close>: the
  description of a model name, if it is known.
\<close>

record panel =
  pn_node :: ui_node
  pn_controls :: "jsobj list"
  pn_values :: jsobj
  pn_controlModes :: jsobj
  pn_pairModes :: jsobj
  pn_saveTimer :: bool
  pn_loading :: nat

definition pn_id :: "panel \<Rightarrow> string" where
  "pn_id p = (case ui_id (pn_node p) of Some i \<Rightarrow> i | None \<Rightarrow> ''undefined'')"

text \<open>A node of the mirror carries no configuration (\<open>getNodesForUI\<close> of core/adapter.js).\<close>

definition ui_config :: "ui_node \<Rightarrow> jsval" where
  "ui_config n = JUndef"

subsection \<open>The controls of a trigger without metadata\<close>

definition makeSelectOptions :: "string list \<Rightarrow> jsval" where
  "makeSelectOptions vs = JArr (map (\<lambda>v. JObj [(''value'', JStr v), (''label'', JStr v)]) vs)"

definition buildFallbackTriggerControls :: "string \<Rightarrow> jsval \<Rightarrow> jsobj list" where
  "buildFallbackTriggerControls type cfg =
     (if type = ''schedule_trigger'' then
        [[(''key'', JStr ''interval_number''), (''type'', JStr ''number''), (''label'', JStr ''Every''),
          (''value'', js_or (js_prop cfg ''interval_number'') (JNum 1)), (''min'', JNum 1)],
         [(''key'', JStr ''interval_type''), (''type'', JStr ''select''), (''label'', JStr ''Unit''),
          (''value'', js_or (js_prop cfg ''interval_type'') (JStr ''hours'')),
          (''options'', makeSelectOptions [''minutes'', ''hours'', ''days'', ''weeks'', ''months''])]]
      else if type = ''webhook_trigger'' then
        [[(''key'', JStr ''http_method''), (''type'', JStr ''select''), (''label'', JStr ''HTTP Method''),
          (''value'', js_or (js_prop cfg ''http_method'') (JStr ''POST'')), (''section'', JStr ''webhook''),
          (''options'', makeSelectOptions [''GET'', ''POST'', ''PUT'', ''PATCH'', ''DELETE''])],
         [(''key'', JStr ''response_mode''), (''type'', JStr ''select''), (''label'', JStr ''Response Mode''),
          (''value'', js_or (js_prop cfg ''response_mode'') (JStr ''immediate'')), (''section'', JStr ''webhook''),
          (''options'', makeSelectOptions [''immediate'', ''last_node''])]]
      else if type = ''record_event_trigger'' then
        [[(''key'', JStr ''model_name''), (''type'', JStr ''model_select''), (''label'', JStr ''Model''),
          (''value'', js_or (js_prop cfg ''model_name'') (JStr [])), (''placeholder'', JStr ''res.partner'')],
         [(''key'', JStr ''trigger_event''), (''type'', JStr ''select''), (''label'', JStr ''Trigger Event''),
          (''value'', js_or (js_prop cfg ''trigger_event'') (JStr ''on_create_or_write'')),
          (''options'', makeSelectOptions [''on_create_or_write'', ''on_create'', ''on_write'', ''on_unlink''])],
         [(''key'', JStr ''filter_domain''), (''type'', JStr ''domain''), (''label'', JStr ''Filter Domain''),
          (''value'', if is_string (js_prop cfg ''filter_domain'') then js_prop cfg ''filter_domain'' else JStr ''[]'')]]
      else [])"

subsection \<open>Opening the panel\<close>

definition inferControlMode :: "jsval \<Rightarrow> string" where
  "inferControlMode v = (if inferExpressionModeFromValue v then ''expression'' else ''fixed'')"

definition normalizeControlValue :: "jsval \<Rightarrow> jsval" where
  "normalizeControlValue v = v"

definition fixed_pair :: jsval where
  "fixed_pair = JObj [(''key'', JStr ''fixed''), (''value'', JStr ''fixed'')]"

definition init_pair :: "jsobj \<Rightarrow> jsval \<Rightarrow> jsobj" where
  "init_pair m p =
     (let i = js_prop p ''id'' in
      if nullish i then m
      else case js_prop (JObj m) (js_string i) of
             JStr s \<Rightarrow> obj_set (js_string i) (if s = [] then fixed_pair else JObj [(''key'', JStr ''fixed''), (''value'', JStr s)]) m
           | existing \<Rightarrow> if truthy existing then m else obj_set (js_string i) fixed_pair m)"

definition init_control_mode :: "jsobj \<Rightarrow> jsobj \<times> jsobj \<Rightarrow> jsobj \<Rightarrow> jsobj \<times> jsobj" where
  "init_control_mode vals modes c =
     (let (cm, pm) = modes; k = ctl_key c; v = js_prop (JObj vals) k; inferred = inferControlMode v;
          cm' = (if \<not> truthy (js_prop (JObj cm) k) \<or> inferred = ''expression'' then obj_set k (JStr inferred) cm else cm);
          pm' = (if js_prop (JObj c) ''type'' = JStr ''keyvalue''
                 then obj_set k (JObj (foldl init_pair (own_props (js_or (js_prop (JObj pm) k) (JObj []))) (arr_items v))) pm
                 else pm)
      in (cm', pm'))"

definition panel_values :: "ui_node \<Rightarrow> jsobj list \<Rightarrow> jsobj" where
  "panel_values n cs =
     (let vals = foldl (\<lambda>m c. obj_set (ctl_key c) (normalizeControlValue (js_prop (JObj c) ''value'')) m) [] cs
      in if ui_type n = ''record_event_trigger''
         then obj_set ''trigger_fields'' (JArr (map JStr (normalizeTriggerFields (js_prop (ui_config n) ''trigger_fields'')))) vals
         else vals)"

definition panel_controls :: "ui_node \<Rightarrow> string \<Rightarrow> store \<Rightarrow> jsobj list" where
  "panel_controls n i st =
     (let cs = adapter_getNodeControls i (graph st)
      in if ui_type n \<in> set TRIGGER_NODE_TYPES \<and> cs = [] then buildFallbackTriggerControls (ui_type n) (ui_config n) else cs)"

definition initControlValues :: "ui_node \<Rightarrow> store \<Rightarrow> panel \<times> store" where
  "initControlValues n st =
     (let i = (case ui_id n of Some i \<Rightarrow> i | None \<Rightarrow> ''undefined'');
          cs = panel_controls n i st;
          vals = panel_values n cs;
          normalized = list_ex (\<lambda>c. normalizeControlValue (js_prop (JObj c) ''value'') \<noteq> js_prop (JObj c) ''value'') cs;
          st' = (if normalized then snd (store_setNodeConfig i vals st) else st);
          ui = js_or (js_prop (JObj (adapter_getNodeMeta i (graph st'))) ''ui'') (JObj []);
          (cm, pm) = foldl (init_control_mode vals)
                       (own_props (js_or (js_prop ui ''controlModes'') (JObj [])),
                        own_props (js_or (js_prop ui ''pairModes'') (JObj []))) cs
      in (\<lparr>pn_node = n,
           pn_controls = map (\<lambda>c. obj_set ''value'' (normalizeControlValue (js_prop (JObj c) ''value'')) c) cs,
           pn_values = vals, pn_controlModes = cm, pn_pairModes = pm, pn_saveTimer = False, pn_loading = 0\<rparr>, st'))"

subsection \<open>Modes\<close>

definition getControlMode :: "string \<Rightarrow> panel \<Rightarrow> string" where
  "getControlMode k p =
     (let v = js_prop (JObj (pn_values p)) k; inferred = inferControlMode v;
          persisted = js_prop (JObj (pn_controlModes p)) k;
          signal = (case v of JStr s \<Rightarrow> s \<noteq> [] | _ \<Rightarrow> \<not> nullish v)
      in if signal then inferred
         else if persisted = JStr ''fixed'' \<or> persisted = JStr ''expression'' then js_string persisted
         else inferred)"

definition persistUiModes :: "panel \<times> store \<Rightarrow> panel \<times> store" where
  "persistUiModes ps =
     (let (p, st) = ps in
      (p, snd (store_setNodeMeta (pn_id p)
             [(''ui'', JObj [(''controlModes'', JObj (pn_controlModes p)), (''pairModes'', JObj (pn_pairModes p))])] st)))"

definition onControlModeChange :: "string \<Rightarrow> string \<Rightarrow> panel \<times> store \<Rightarrow> panel \<times> store" where
  "onControlModeChange k mode ps =
     (let (p, st) = ps in persistUiModes (p\<lparr>pn_controlModes := obj_set k (JStr mode) (pn_controlModes p)\<rparr>, st))"

definition onPairModeChange :: "string \<Rightarrow> jsval \<Rightarrow> string \<Rightarrow> string \<Rightarrow> panel \<times> store \<Rightarrow> panel \<times> store" where
  "onPairModeChange k pairId cell mode ps =
     (let (p, st) = ps;
          m = own_props (js_or (js_prop (JObj (pn_pairModes p)) k) (JObj []));
          cur = js_prop (JObj m) (js_string pairId);
          pairMode = (if typeof_object cur then cur else fixed_pair);
          m' = obj_set (js_string pairId) (JObj (obj_set cell (JStr mode) (own_props pairMode))) m
      in persistUiModes (p\<lparr>pn_pairModes := obj_set k (JObj m') (pn_pairModes p)\<rparr>, st))"

text \<open>\<open>Number(s)\<close> for decimal numbers; any other text is not a number (None). The keys of a mode table are written from
  the ids of pairs, so forms with an exponent or another base do not occur.\<close>

definition js_Number :: "string \<Rightarrow> rat option" where
  "js_Number s =
     (let t = js_trim s;
          (neg, r) = (if t \<noteq> [] \<and> hd t = CHR ''-'' then (True, tl t) else (False, t));
          digits = (\<lambda>d. d \<noteq> [] \<and> list_all is_digit d);
          sgn = (if neg then -1 else 1)
      in if t = [] then Some 0
         else case js_split (CHR ''.'') r of
                [a] \<Rightarrow> if digits a then Some (sgn * of_nat (nat_of_digits a)) else None
              | [a, b] \<Rightarrow> if digits a \<and> digits b
                         then Some (sgn * (of_nat (nat_of_digits a) + of_nat (nat_of_digits b) / 10 ^ length b)) else None
              | _ \<Rightarrow> None)"

definition pair_ids :: "jsval \<Rightarrow> jsval list" where
  "pair_ids pairs = unique (filter (\<lambda>i. \<not> nullish i) (map (\<lambda>p. if truthy p then js_prop p ''id'' else p) (arr_items pairs)))"

definition names_pair :: "jsval list \<Rightarrow> string \<Rightarrow> bool" where
  "names_pair ids k = (JStr k \<in> set ids \<or> (case js_Number k of Some n \<Rightarrow> JNum n \<in> set ids | None \<Rightarrow> False))"

definition reconciled_pairs :: "jsval list \<Rightarrow> jsobj \<Rightarrow> jsobj" where
  "reconciled_pairs ids existing =
     filter (\<lambda>(k, _). names_pair ids k)
       (foldl (\<lambda>m i. if truthy (js_prop (JObj m) (js_string i)) then m else obj_set (js_string i) fixed_pair m) existing ids)"

definition reconcilePairModes :: "string \<Rightarrow> jsval \<Rightarrow> panel \<times> store \<Rightarrow> panel \<times> store" where
  "reconcilePairModes k pairs ps =
     (let (p, st) = ps;
          existing = own_props (js_or (js_prop (JObj (pn_pairModes p)) k) (JObj []));
          ids = pair_ids pairs;
          changed = (list_ex (\<lambda>i. \<not> truthy (js_prop (JObj existing) (js_string i))) ids
                     \<or> list_ex (\<lambda>(k, _). \<not> names_pair ids k) existing)
      in if changed
         then persistUiModes (p\<lparr>pn_pairModes := obj_set k (JObj (reconciled_pairs ids existing)) (pn_pairModes p)\<rparr>, st)
         else ps)"

subsection \<open>Titles\<close>

definition recordOperationLabel :: "string \<Rightarrow> string" where
  "recordOperationLabel operation =
     (case map_of [(''search'', ''Search''), (''create'', ''Create''), (''write'', ''Update''), (''delete'', ''Delete'')] operation of
        Some l \<Rightarrow> l | None \<Rightarrow> ''Record Operation'')"

definition recordOperationModelLabel :: "(string \<rightharpoonup> jsval) \<Rightarrow> jsval \<Rightarrow> string" where
  "recordOperationModelLabel models v =
     (case v of
        JStr s \<Rightarrow>
          if js_trim s = [] then []
          else (case models (js_trim s) of
                  Some (JStr d) \<Rightarrow> if js_trim d \<noteq> [] then js_trim d else js_trim s
                | _ \<Rightarrow> js_trim s)
      | _ \<Rightarrow> [])"

definition computeRecordOperationAutoTitle :: "(string \<rightharpoonup> jsval) \<Rightarrow> panel \<Rightarrow> string option" where
  "computeRecordOperationAutoTitle models p =
     (if ui_type (pn_node p) \<noteq> ''record_operation'' then None
      else (let operation = (case js_prop (JObj (pn_values p)) ''operation'' of JStr s \<Rightarrow> js_lower (js_trim s) | _ \<Rightarrow> []);
                operationLabel = recordOperationLabel operation;
                modelLabel = recordOperationModelLabel models (js_prop (JObj (pn_values p)) ''model'')
            in Some (if modelLabel \<noteq> [] then operationLabel @ '' '' @ modelLabel else operationLabel)))"

definition nodeTitle :: "(string \<rightharpoonup> jsval) \<Rightarrow> panel \<Rightarrow> string" where
  "nodeTitle models p =
     (let n = pn_node p;
          stored = (if ui_title n \<noteq> [] then ui_title n else if ui_type n \<noteq> [] then ui_type n else ''Node Configuration'')
      in if ui_type n = ''record_operation'' \<and> \<not> ui_titleIsCustom n
         then (case computeRecordOperationAutoTitle models p of Some t \<Rightarrow> if t \<noteq> [] then t else stored | None \<Rightarrow> stored)
         else stored)"

definition isAutoTitleNode :: "panel \<Rightarrow> bool" where
  "isAutoTitleNode p = (ui_type (pn_node p) = ''record_operation'')"

definition apply_auto_title :: "(string \<rightharpoonup> jsval) \<Rightarrow> panel \<times> store \<Rightarrow> panel \<times> store" where
  "apply_auto_title models ps =
     (let (p, st) = ps in
      case computeRecordOperationAutoTitle models p of
        Some t \<Rightarrow> if t \<noteq> [] then (p, snd (renameNode (pn_id p) t st)) else ps
      | None \<Rightarrow> ps)"

definition set_title_custom :: "bool \<Rightarrow> panel \<times> store \<Rightarrow> panel \<times> store" where
  "set_title_custom b ps =
     (let (p, st) = ps in (p, snd (store_setNodeMeta (pn_id p) [(''ui'', JObj [(''titleIsCustom'', JBool b)])] st)))"

definition onResetNodeName :: "(string \<rightharpoonup> jsval) \<Rightarrow> panel \<times> store \<Rightarrow> panel \<times> store" where
  "onResetNodeName models ps =
     (let ps1 = set_title_custom False ps
      in if isAutoTitleNode (fst ps1) then apply_auto_title models ps1 else ps1)"

definition onNodeNameChange :: "(string \<rightharpoonup> jsval) \<Rightarrow> string \<Rightarrow> panel \<times> store \<Rightarrow> panel \<times> store" where
  "onNodeNameChange models typed ps =
     (let newLabel = js_trim typed in
      if newLabel = [] then onResetNodeName models ps
      else (let (p, st) = set_title_custom True ps in (p, snd (renameNode (pn_id p) newLabel st))))"

subsection \<open>Edits\<close>

definition showTriggerFields :: "panel \<Rightarrow> bool" where
  "showTriggerFields p =
     (let e = js_prop (JObj (pn_values p)) ''trigger_event'' in e = JStr ''on_create_or_write'' \<or> e = JStr ''on_write'')"

definition set_value :: "string \<Rightarrow> jsval \<Rightarrow> panel \<Rightarrow> panel" where
  "set_value k v p =
     p\<lparr>pn_values := obj_set k v (pn_values p),
       pn_controls := (case List.find (\<lambda>c. ctl_key c = k) (pn_controls p) of
                         None \<Rightarrow> pn_controls p
                       | Some c \<Rightarrow> (let i = length (takeWhile (\<lambda>c. ctl_key c \<noteq> k) (pn_controls p))
                                   in (pn_controls p)[i := obj_set ''value'' v c]))\<rparr>"

definition debouncedLocalSave :: "panel \<times> store \<Rightarrow> panel \<times> store" where
  "debouncedLocalSave ps = (let (p, st) = ps in (p\<lparr>pn_saveTimer := True\<rparr>, st))"

definition after_edit :: "(string \<rightharpoonup> jsval) \<Rightarrow> panel \<times> store \<Rightarrow> panel \<times> store" where
  "after_edit models ps =
     (let ps1 = debouncedLocalSave ps
      in if isAutoTitleNode (fst ps1) \<and> \<not> ui_titleIsCustom (pn_node (fst ps1)) then apply_auto_title models ps1 else ps1)"

definition cleared :: "panel \<Rightarrow> panel" where
  "cleared p = p\<lparr>pn_values := obj_set ''trigger_fields'' (JArr []) (pn_values p)\<rparr>"

definition edited :: "string \<Rightarrow> jsval \<Rightarrow> panel \<times> store \<Rightarrow> panel \<times> store" where
  "edited k v ps =
     (let ps1 = (set_value k v (fst ps), snd ps)
      in case List.find (\<lambda>c. ctl_key c = k) (pn_controls (fst ps)) of
           Some c \<Rightarrow> if js_prop (JObj c) ''type'' = JStr ''keyvalue'' then reconcilePairModes k v ps1 else ps1
         | None \<Rightarrow> ps1)"

text \<open>
  An edit of the model of a record event trigger waits for the fields of that model before it goes on; the rest of the
  handler runs then (\<open>onFieldsLoaded\<close>). The fields themselves are only suggestions.
\<close>

definition onControlChange :: "(string \<rightharpoonup> jsval) \<Rightarrow> string \<Rightarrow> jsval \<Rightarrow> panel \<times> store \<Rightarrow> panel \<times> store" where
  "onControlChange models k v ps =
     (let previous = js_prop (JObj (pn_values (fst ps))) k;
          v' = normalizeControlValue v;
          (p, st) = edited k v' ps;
          isRecordEvent = (ui_type (pn_node p) = ''record_event_trigger'')
      in if isRecordEvent \<and> k = ''model_name'' \<and> v' \<noteq> previous
         then ((cleared p)\<lparr>pn_loading := Suc (pn_loading p)\<rparr>, st)
         else after_edit models
                (if isRecordEvent \<and> k = ''trigger_event'' \<and> \<not> showTriggerFields p then (cleared p, st) else (p, st)))"

definition onFieldsLoaded :: "(string \<rightharpoonup> jsval) \<Rightarrow> panel \<times> store \<Rightarrow> panel \<times> store" where
  "onFieldsLoaded models ps =
     (let (p, st) = ps in
      if pn_loading p = 0 then ps else after_edit models (p\<lparr>pn_loading := pn_loading p - 1\<rparr>, st))"

definition syncToAdapter :: "panel \<times> store \<Rightarrow> panel \<times> store" where
  "syncToAdapter ps = (let (p, st) = ps in (p, snd (store_setNodeConfig (pn_id p) (pn_values p) st)))"

definition onSaveTimer :: "panel \<times> store \<Rightarrow> panel \<times> store" where
  "onSaveTimer ps =
     (if pn_saveTimer (fst ps) then (let (p, st) = syncToAdapter ps in (p\<lparr>pn_saveTimer := False\<rparr>, st)) else ps)"

text \<open>\<open>onSave\<close> and the first half of \<open>onExecute\<close> write the values at once, and the second half runs the node with
  the values of the panel as overrides.\<close>

definition flushValues :: "panel \<times> store \<Rightarrow> panel \<times> store" where
  "flushValues ps = (let (p, st) = ps in syncToAdapter (p\<lparr>pn_saveTimer := False\<rparr>, st))"

definition configOverrides :: "panel \<Rightarrow> (string \<times> jsobj) list" where
  "configOverrides p =
     [(pn_id p, if ui_type (pn_node p) = ''connector_request'' then sanitizeConnectorRequestConfig (JObj (pn_values p))
                else pn_values p)]"

datatype panel_event =
    PEdit string jsval
  | PFieldsLoaded
  | PTimer
  | PFlush
  | PMode string string
  | PPairMode string jsval string string
  | PRename string
  | PResetName

fun panel_step :: "(string \<rightharpoonup> jsval) \<Rightarrow> panel_event \<Rightarrow> panel \<times> store \<Rightarrow> panel \<times> store" where
  "panel_step models (PEdit k v) = onControlChange models k v"
| "panel_step models PFieldsLoaded = onFieldsLoaded models"
| "panel_step models PTimer = onSaveTimer"
| "panel_step models PFlush = flushValues"
| "panel_step models (PMode k m) = onControlModeChange k m"
| "panel_step models (PPairMode k i cell m) = onPairModeChange k i cell m"
| "panel_step models (PRename s) = onNodeNameChange models s"
| "panel_step models PResetName = onResetNodeName models"

subsection \<open>What the panel may change in the store\<close>

definition store_node :: "string \<Rightarrow> store \<Rightarrow> node option" where
  "store_node i st = map_of (nodes (core (graph st))) i"

definition same_node :: "node \<Rightarrow> node \<Rightarrow> bool" where
  "same_node n n' \<longleftrightarrow> node_id n' = node_id n \<and> node_type n' = node_type n \<and> icon n' = icon n \<and> category n' = category n
     \<and> position n' = position n \<and> inputs n' = inputs n \<and> outputs n' = outputs n
     \<and> map_keys (controls n') = map_keys (controls n) \<and> map_keys (hiddenDefaults n') = map_keys (hiddenDefaults n)"

definition panel_frame :: "string \<Rightarrow> store \<Rightarrow> store \<Rightarrow> bool" where
  "panel_frame i st st' \<longleftrightarrow> (\<exists>a. st' = st\<lparr>graph := a\<rparr>) \<and> connections (core (graph st')) = connections (core (graph st))
     \<and> (\<forall>j. j \<noteq> i \<longrightarrow> store_node j st' = store_node j st) \<and> rel_option same_node (store_node i st) (store_node i st')"

lemma graph_same: "\<exists>a. st = st\<lparr>graph := a\<rparr>"
  by (rule exI [of _ "graph st"]) simp

lemma panel_frame_refl [simp]: "panel_frame i st st"
  by (cases "store_node i st") (simp_all add: panel_frame_def same_node_def graph_same)

lemma panel_frame_trans [trans]: "panel_frame i st st' \<Longrightarrow> panel_frame i st' st'' \<Longrightarrow> panel_frame i st st''"
  by (auto simp: panel_frame_def same_node_def rel_option_iff split: option.splits)

lemma core_syncState [simp]: "core (syncState a) = core a"
  by (simp add: syncState_def)

lemma store_node_setNodeConfig:
  "store_node j (snd (store_setNodeConfig i cfg st)) =
     (if j = i then map_option (setConfig cfg) (store_node i st) else store_node j st)"
  by (auto simp: store_node_def store_setNodeConfig_def adapter_setNodeConfig_def editor_getNode_def
      jsm.get_put split: option.splits)

lemma store_node_setNodeMeta:
  "store_node j (snd (store_setNodeMeta i m st)) =
     (if j = i then map_option (\<lambda>n. n\<lparr>meta := merge_meta (meta n) m\<rparr>) (store_node i st) else store_node j st)"
  by (auto simp: store_node_def store_setNodeMeta_def adapter_setNodeMeta_def editor_setNodeMeta_def
      jsm.get_put Let_def split: option.splits)

lemma store_node_renameNode:
  "store_node j (snd (renameNode i l st)) =
     (if j = i then map_option (\<lambda>n. n\<lparr>node_label := l\<rparr>) (store_node i st) else store_node j st)"
  by (auto simp: store_node_def renameNode_def adapter_setNodeLabel_def editor_setNodeLabel_def
      jsm.get_put Let_def split: option.splits prod.splits)

lemmas store_node_ops = store_node_setNodeConfig store_node_setNodeMeta store_node_renameNode

lemma connections_panel_ops:
  "connections (core (graph (snd (store_setNodeConfig i cfg st)))) = connections (core (graph st))"
  "connections (core (graph (snd (store_setNodeMeta i m st)))) = connections (core (graph st))"
  "connections (core (graph (snd (renameNode i l st)))) = connections (core (graph st))"
  by (simp_all add: store_setNodeConfig_def adapter_setNodeConfig_def store_setNodeMeta_def adapter_setNodeMeta_def
      editor_setNodeMeta_def renameNode_def adapter_setNodeLabel_def editor_setNodeLabel_def Let_def split: option.split prod.split)

lemma graph_only_ops:
  "\<exists>a. snd (store_setNodeConfig i cfg st) = st\<lparr>graph := a\<rparr>"
  "\<exists>a. snd (store_setNodeMeta i m st) = st\<lparr>graph := a\<rparr>"
  "\<exists>a. snd (renameNode i l st) = st\<lparr>graph := a\<rparr>"
  by (auto simp: store_setNodeConfig_def store_setNodeMeta_def renameNode_def split: prod.split)

lemma panel_frame_ops [simp]:
  "panel_frame i st (snd (store_setNodeConfig i cfg st))"
  "panel_frame i st (snd (store_setNodeMeta i m st))"
  "panel_frame i st (snd (renameNode i l st))"
  unfolding panel_frame_def connections_panel_ops store_node_ops
  by (cases "store_node i st"; simp add: graph_only_ops same_node_def)+

subsection \<open>No edit is left behind\<close>

text \<open>\<open>quiet\<close>: the controls of every node are as before.\<close>

definition quiet :: "store \<Rightarrow> store \<Rightarrow> bool" where
  "quiet st st' \<longleftrightarrow> (\<forall>j. map_option controls (store_node j st') = map_option controls (store_node j st))"

lemma quiet_refl [simp]: "quiet st st"
  by (simp add: quiet_def)

lemma quiet_ops [simp]: "quiet st (snd (store_setNodeMeta i m st))" "quiet st (snd (renameNode i l st))"
  by (simp_all add: quiet_def store_node_ops option.map_comp comp_def)

lemma quiet_trans: "quiet st st' \<Longrightarrow> quiet st' st'' \<Longrightarrow> quiet st st''"
  by (simp add: quiet_def)

text \<open>The two halves of a handler that only touches modes and titles: the values, the timer and the identity of the
  panel stay, and the store changes quietly and within the frame.\<close>

definition minor :: "panel \<times> store \<Rightarrow> panel \<times> store \<Rightarrow> bool" where
  "minor ps ps' \<longleftrightarrow> pn_node (fst ps') = pn_node (fst ps) \<and> pn_values (fst ps') = pn_values (fst ps)
     \<and> pn_saveTimer (fst ps') = pn_saveTimer (fst ps) \<and> pn_loading (fst ps') = pn_loading (fst ps)
     \<and> quiet (snd ps) (snd ps') \<and> panel_frame (pn_id (fst ps)) (snd ps) (snd ps')"

lemma minor_refl [simp]: "minor ps ps"
  by (simp add: minor_def)

lemma pn_id_cong: "pn_node p' = pn_node p \<Longrightarrow> pn_id p' = pn_id p"
  by (simp add: pn_id_def)

lemma minor_trans: "minor ps ps' \<Longrightarrow> minor ps' ps'' \<Longrightarrow> minor ps ps''"
  unfolding minor_def by (metis quiet_trans panel_frame_trans pn_id_cong)

lemma pn_id_simps [simp]:
  "pn_id (p\<lparr>pn_controlModes := m\<rparr>) = pn_id p" "pn_id (p\<lparr>pn_pairModes := m\<rparr>) = pn_id p"
  "pn_id (p\<lparr>pn_values := v\<rparr>) = pn_id p" "pn_id (p\<lparr>pn_saveTimer := b\<rparr>) = pn_id p"
  "pn_id (p\<lparr>pn_loading := l\<rparr>) = pn_id p" "pn_id (set_value k w p) = pn_id p"
  by (simp_all add: pn_id_def set_value_def)

lemma minor_handlers:
  "minor ps (onControlModeChange k m ps)"
  "minor ps (onPairModeChange k i cell m ps)"
  "minor ps (reconcilePairModes k v ps)"
  "minor ps (apply_auto_title models ps)"
  "minor ps (set_title_custom b ps)"
  by (auto simp: minor_def onControlModeChange_def onPairModeChange_def reconcilePairModes_def apply_auto_title_def
      set_title_custom_def persistUiModes_def Let_def split: prod.split option.split)

lemma minor_titles:
  "minor ps (onResetNodeName models ps)"
  "minor ps (onNodeNameChange models s ps)"
proof -
  show r: "minor ps (onResetNodeName models ps)"
    using minor_trans [OF minor_handlers(5) minor_handlers(4)] minor_handlers(5)
    by (simp add: onResetNodeName_def Let_def)
  have "minor (p, st) (p, snd (renameNode (pn_id p) l st))" for p st l by (simp add: minor_def)
  then show "minor ps (onNodeNameChange models s ps)"
    using r minor_trans [OF minor_handlers(5) [of ps True]] by (auto simp: onNodeNameChange_def Let_def split: prod.split)
qed

definition values_saved :: "panel \<Rightarrow> store \<Rightarrow> bool" where
  "values_saved p st \<longleftrightarrow>
     (\<forall>n k c. store_node (pn_id p) st = Some n \<and> map_of (controls n) k = Some c \<longrightarrow> map_of (pn_values p) k = Some (getValue c))"

definition values_cover :: "panel \<Rightarrow> store \<Rightarrow> bool" where
  "values_cover p st \<longleftrightarrow> distinct (map_keys (pn_values p))
     \<and> (\<forall>n. store_node (pn_id p) st = Some n \<longrightarrow> set (map_keys (controls n)) \<subseteq> set (map_keys (pn_values p)))"

definition panel_inv :: "panel \<times> store \<Rightarrow> bool" where
  "panel_inv ps \<longleftrightarrow> (let (p, st) = ps in
     values_cover p st \<and> (\<not> pn_saveTimer p \<and> pn_loading p = 0 \<longrightarrow> values_saved p st))"

lemma quiet_controls: "quiet st st' \<Longrightarrow> store_node j st' = Some n' \<Longrightarrow> \<exists>n. store_node j st = Some n \<and> controls n' = controls n"
  unfolding quiet_def by (metis (no_types, lifting) map_option_eq_Some)

lemma values_cover_quiet:
  assumes "values_cover p st" and "quiet st st'" and "pn_id p' = pn_id p" and "distinct (map_keys (pn_values p'))"
    and "set (map_keys (pn_values p)) \<subseteq> set (map_keys (pn_values p'))"
  shows "values_cover p' st'"
  unfolding values_cover_def
proof (intro conjI allI impI)
  fix n' assume "store_node (pn_id p') st' = Some n'"
  then obtain n where n: "store_node (pn_id p) st = Some n" "controls n' = controls n"
    using quiet_controls [OF assms(2)] assms(3) by metis
  then have "set (map_keys (controls n')) \<subseteq> set (map_keys (pn_values p))"
    using assms(1) by (simp add: values_cover_def del: set_map)
  then show "set (map_keys (controls n')) \<subseteq> set (map_keys (pn_values p'))" using assms(5) by (rule order_trans)
qed (rule assms(4))

lemma panel_inv_minor: "panel_inv ps \<Longrightarrow> minor ps ps' \<Longrightarrow> panel_inv ps'"
proof -
  assume inv: "panel_inv ps" and m: "minor ps ps'"
  obtain p st p' st' where ps: "ps = (p, st)" "ps' = (p', st')" by (cases ps; cases ps')
  have i: "pn_id p' = pn_id p" using m by (auto simp: ps minor_def intro: pn_id_cong)
  have q: "quiet st st'" and v: "pn_values p' = pn_values p" using m by (auto simp: ps minor_def)
  have "values_cover p' st'" using inv by (intro values_cover_quiet [OF _ q i]) (auto simp: ps panel_inv_def v values_cover_def)
  moreover have "values_saved p' st'" if s: "values_saved p st"
    unfolding values_saved_def
  proof (intro allI impI, elim conjE)
    fix n' k c assume "store_node (pn_id p') st' = Some n'" "map_of (controls n') k = Some c"
    moreover from this obtain n where "store_node (pn_id p) st = Some n" "controls n' = controls n"
      using quiet_controls [OF q] i by metis
    ultimately show "map_of (pn_values p') k = Some (getValue c)" using s by (simp add: values_saved_def v)
  qed
  ultimately show ?thesis using inv m by (auto simp: ps panel_inv_def minor_def)
qed

lemma sync_saves:
  assumes "values_cover p st"
  shows "values_cover p (snd (syncToAdapter (p, st))) \<and> values_saved p (snd (syncToAdapter (p, st)))"
proof -
  let ?st = "snd (store_setNodeConfig (pn_id p) (pn_values p) st)"
  have d: "map_of (rev (pn_values p)) = map_of (pn_values p)"
    using assms by (intro map_of_rev_distinct) (simp add: values_cover_def)
  have node: "\<exists>n. store_node (pn_id p) st = Some n \<and> n' = setConfig (pn_values p) n" if "store_node (pn_id p) ?st = Some n'" for n'
    using that by (auto simp: store_node_setNodeConfig)
  have "values_saved p ?st"
    unfolding values_saved_def
  proof (intro allI impI, elim conjE)
    fix n' k c assume n': "store_node (pn_id p) ?st = Some n'" and c: "map_of (controls n') k = Some c"
    obtain n where n: "store_node (pn_id p) st = Some n" "n' = setConfig (pn_values p) n" using node [OF n'] by blast
    obtain c0 where c0: "map_of (controls n) k = Some c0" using c n(2) by (auto simp: base_map_of_setConfig)
    then have "k \<in> set (map_keys (controls n))" by (metis map_of_eq_None_iff option.distinct(1) set_map)
    then obtain v where "map_of (pn_values p) k = Some v"
      using assms n(1) unfolding values_cover_def by (metis map_of_eq_None_iff not_None_eq set_map subsetD)
    then show "map_of (pn_values p) k = Some (getValue c)"
      using c n(2) c0 by (auto simp: base_map_of_setConfig d setValue_def getValue_def)
  qed
  moreover have "values_cover p ?st"
    unfolding values_cover_def
  proof (intro conjI allI impI)
    fix n' assume "store_node (pn_id p) ?st = Some n'"
    then obtain n where "store_node (pn_id p) st = Some n" "n' = setConfig (pn_values p) n" using node by blast
    then show "set (map_keys (controls n')) \<subseteq> set (map_keys (pn_values p))"
      using assms unfolding values_cover_def by (metis base_keys_setConfig setConfig_fields(10))
  qed (use assms in \<open>simp add: values_cover_def\<close>)
  ultimately show ?thesis by (simp add: syncToAdapter_def)
qed

lemma panel_inv_pending:
  assumes "values_cover p st" and "quiet st st'" and "pn_id p' = pn_id p" and "pn_saveTimer p' \<or> pn_loading p' \<noteq> 0"
    and "distinct (map_keys (pn_values p'))" and "set (map_keys (pn_values p)) \<subseteq> set (map_keys (pn_values p'))"
  shows "panel_inv (p', st')"
  using values_cover_quiet [OF assms(1,2,3,5,6)] assms(4) by (auto simp: panel_inv_def)

lemma panel_inv_sync: "panel_inv ps \<Longrightarrow> panel_inv (onSaveTimer ps)" "panel_inv ps \<Longrightarrow> panel_inv (flushValues ps)"
proof -
  assume inv: "panel_inv ps"
  obtain p st where ps: "ps = (p, st)" by (cases ps)
  have c: "values_cover p st" using inv by (simp add: ps panel_inv_def)
  have keep: "values_cover (p\<lparr>pn_saveTimer := b\<rparr>) s = values_cover p s" "values_saved (p\<lparr>pn_saveTimer := b\<rparr>) s = values_saved p s"
    for b s by (simp_all add: values_cover_def values_saved_def)
  show "panel_inv (onSaveTimer ps)" using inv sync_saves [OF c]
    by (auto simp: ps onSaveTimer_def panel_inv_def syncToAdapter_def keep)
  show "panel_inv (flushValues ps)" using sync_saves [OF c]
    by (auto simp: ps flushValues_def panel_inv_def syncToAdapter_def keep)
qed

lemma after_edit_facts:
  "minor (p\<lparr>pn_saveTimer := True\<rparr>, st) (after_edit models (p, st))"
  using minor_handlers(4) [of "(p\<lparr>pn_saveTimer := True\<rparr>, st)" models]
  by (simp add: after_edit_def debouncedLocalSave_def Let_def)

lemma minor_edited: "minor (set_value k v (fst ps), snd ps) (edited k v ps)"
  by (auto simp: edited_def Let_def minor_handlers split: option.split)

lemma onControlChange_cases:
  "edited k v ps = (p, st) \<Longrightarrow>
     onControlChange models k v ps \<in> {((cleared p)\<lparr>pn_loading := Suc (pn_loading p)\<rparr>, st),
       after_edit models (cleared p, st), after_edit models (p, st)}"
  by (simp add: onControlChange_def normalizeControlValue_def Let_def)

lemma obj_set_keys_mono: "set (map_keys m) \<subseteq> set (map_keys (obj_set k v m))"
  using jso.set_keys_put [of k v m] by auto

lemma edited_values:
  "edited k v (p, st) = (q, s) \<Longrightarrow> pn_values q = obj_set k v (pn_values p) \<and> pn_id q = pn_id p \<and> quiet st s \<and> panel_frame (pn_id p) st s
     \<and> pn_node q = pn_node p"
  using minor_edited [of k v "(p, st)"] by (auto simp: minor_def set_value_def pn_id_def)

lemma panel_inv_edit:
  assumes "panel_inv ps"
  shows "panel_inv (onControlChange models k v ps)"
proof -
  obtain p st where ps: "ps = (p, st)" by (cases ps)
  obtain q s where q: "edited k v (p, st) = (q, s)" by (cases "edited k v (p, st)")
  note e = edited_values [OF q]
  have c: "values_cover p st" using assms by (simp add: ps panel_inv_def)
  have d: "distinct (map_keys (pn_values q))" "set (map_keys (pn_values p)) \<subseteq> set (map_keys (pn_values q))"
    using c e jso.distinct_put [of "pn_values p" k v] obj_set_keys_mono [of "pn_values p" k v] by (simp_all add: values_cover_def del: set_map)
  have d': "distinct (map_keys (pn_values (cleared q)))" "set (map_keys (pn_values p)) \<subseteq> set (map_keys (pn_values (cleared q)))"
    using d jso.distinct_put [OF d(1)] obj_set_keys_mono [of "pn_values q" "''trigger_fields''" "JArr []"]
    by (auto simp add: cleared_def simp del: set_map)
  have i: "pn_id q = pn_id p" "pn_id (cleared q) = pn_id p" using e by (simp_all add: cleared_def)
  have quiet: "quiet st s" using e by simp
  note pend = panel_inv_pending [OF c quiet]
  have m1: "panel_inv (q\<lparr>pn_saveTimer := True\<rparr>, s)" by (rule pend) (use i d in simp_all)
  have m2: "panel_inv ((cleared q)\<lparr>pn_saveTimer := True\<rparr>, s)" by (rule pend) (use i d' in simp_all)
  have m3: "panel_inv ((cleared q)\<lparr>pn_loading := Suc (pn_loading q)\<rparr>, s)" by (rule pend) (use i d' in simp_all)
  show ?thesis
    using onControlChange_cases [OF q, of models] m3 panel_inv_minor [OF m1 after_edit_facts] panel_inv_minor [OF m2 after_edit_facts]
    by (auto simp: ps)
qed

lemma panel_inv_loaded: "panel_inv ps \<Longrightarrow> panel_inv (onFieldsLoaded models ps)"
proof -
  assume inv: "panel_inv ps"
  obtain p st where ps: "ps = (p, st)" by (cases ps)
  have "panel_inv (p\<lparr>pn_loading := pn_loading p - 1, pn_saveTimer := True\<rparr>, st)"
    using inv by (auto simp: ps panel_inv_def values_cover_def)
  then have "panel_inv (after_edit models (p\<lparr>pn_loading := pn_loading p - 1\<rparr>, st))"
    using panel_inv_minor [OF _ after_edit_facts] by simp
  then show ?thesis using inv by (simp add: ps onFieldsLoaded_def)
qed

lemmas panel_minor_steps = minor_handlers(1,2) minor_titles

lemma panel_inv_step: "panel_inv s \<Longrightarrow> panel_inv (panel_step models e s)"
  by (cases e) (simp_all add: panel_inv_edit panel_inv_loaded panel_inv_sync panel_inv_minor [OF _ panel_minor_steps(1)]
      panel_inv_minor [OF _ panel_minor_steps(2)] panel_inv_minor [OF _ panel_minor_steps(3)] panel_inv_minor [OF _ panel_minor_steps(4)])

interpretation pnl: op_system "panel_step models" "\<lambda>_ _. True" panel_inv for models
  by unfold_locales (rule panel_inv_step)

subsection \<open>A panel writes to its own node only\<close>

definition panel_local :: "string \<Rightarrow> store \<Rightarrow> panel \<times> store \<Rightarrow> bool" where
  "panel_local i st0 ps \<longleftrightarrow> pn_id (fst ps) = i \<and> panel_frame i st0 (snd ps)"

lemma panel_local_minor: "panel_local i st0 ps \<Longrightarrow> minor ps ps' \<Longrightarrow> panel_local i st0 ps'"
  unfolding panel_local_def minor_def by (metis pn_id_cong panel_frame_trans)

lemma panel_local_sync: "panel_local i st0 ps \<Longrightarrow> panel_local i st0 (syncToAdapter ps)"
  by (auto simp: panel_local_def syncToAdapter_def split: prod.split intro: panel_frame_trans)

lemma panel_local_after: "panel_local i st0 (p, st) \<Longrightarrow> panel_local i st0 (after_edit models (p, st))"
  by (rule panel_local_minor [OF _ after_edit_facts]) (simp add: panel_local_def)

lemma panel_local_edit: "panel_local i st0 ps \<Longrightarrow> panel_local i st0 (onControlChange models k v ps)"
proof -
  assume l: "panel_local i st0 ps"
  obtain p st where ps: "ps = (p, st)" by (cases ps)
  obtain q s where q: "edited k v (p, st) = (q, s)" by (cases "edited k v (p, st)")
  note e = edited_values [OF q]
  have "panel_local i st0 (q, s)" using l e by (auto simp: ps panel_local_def intro: panel_frame_trans)
  then have "panel_local i st0 (cleared q, s)" "panel_local i st0 (q, s)" "panel_local i st0 ((cleared q)\<lparr>pn_loading := l\<rparr>, s)" for l
    by (simp_all add: panel_local_def cleared_def)
  then show ?thesis using onControlChange_cases [OF q, of models] panel_local_after by (auto simp: ps)
qed

lemma panel_local_step: "panel_local i st0 s \<Longrightarrow> panel_local i st0 (panel_step models e s)"
proof -
  assume l: "panel_local i st0 s"
  have timer: "panel_local i st0 (p\<lparr>pn_saveTimer := b\<rparr>, st) = panel_local i st0 (p, st)" for p st b by (simp add: panel_local_def)
  have sync: "panel_local i st0 (syncToAdapter s)" by (rule panel_local_sync [OF l])
  show ?thesis
  proof (cases e)
    case PTimer
    then show ?thesis using l sync by (auto simp: onSaveTimer_def timer split: prod.split)
  next
    case PFlush
    then show ?thesis using l by (auto simp: flushValues_def timer split: prod.split intro!: panel_local_sync)
  next
    case PFieldsLoaded
    then show ?thesis using l by (auto simp: onFieldsLoaded_def panel_local_def split: prod.split intro!: panel_local_after [unfolded panel_local_def])
  qed (simp_all add: panel_local_edit l panel_local_minor [OF _ panel_minor_steps(1)] panel_local_minor [OF _ panel_minor_steps(2)]
      panel_local_minor [OF _ panel_minor_steps(3)] panel_local_minor [OF _ panel_minor_steps(4)])
qed

interpretation pnf: op_system "panel_step models" "\<lambda>_ _. True" "panel_local i st0" for models i st0
  by unfold_locales (rule panel_local_step)


subsection \<open>The panel holds the last edit\<close>

definition panel_holds :: "string \<Rightarrow> jsval \<Rightarrow> panel \<times> store \<Rightarrow> bool" where
  "panel_holds k v ps \<longleftrightarrow> map_of (pn_values (fst ps)) k = Some v"

definition edits_key :: "string \<Rightarrow> panel_event \<Rightarrow> bool" where
  "edits_key k e \<longleftrightarrow> (case e of PEdit k' _ \<Rightarrow> k' = k | _ \<Rightarrow> False)"

lemma panel_holds_minor: "minor ps ps' \<Longrightarrow> panel_holds k v ps' = panel_holds k v ps"
  by (simp add: panel_holds_def minor_def)

lemma panel_holds_edit:
  assumes "k' \<noteq> ''trigger_fields''"
  shows "panel_holds k' w (onControlChange models k v ps) = (if k = k' then w = v else panel_holds k' w ps)"
proof -
  obtain p st where ps: "ps = (p, st)" by (cases ps)
  obtain q s where q: "edited k v (p, st) = (q, s)" by (cases "edited k v (p, st)")
  have q': "panel_holds k' w (q, s) = (if k = k' then w = v else panel_holds k' w ps)"
    using edited_values [OF q] by (auto simp: panel_holds_def ps jso.get_put)
  have c: "panel_holds k' w (cleared q, s) = panel_holds k' w (q, s)" using assms by (simp add: panel_holds_def cleared_def jso.get_put)
  have l: "panel_holds k' w ((cleared q)\<lparr>pn_loading := n\<rparr>, s) = panel_holds k' w (cleared q, s)" for n
    by (simp add: panel_holds_def)
  have a: "panel_holds k' w (after_edit models (r, s)) = panel_holds k' w (r, s)" for r
    using panel_holds_minor [OF after_edit_facts [of r s models]] by (simp add: panel_holds_def)
  show ?thesis using onControlChange_cases [OF q, of models]
    by (elim insertE emptyE) (simp_all only: ps [symmetric] a l c q')
qed

lemma panel_holds_step:
  assumes "k \<noteq> ''trigger_fields''" and "panel_holds k v s" and "\<not> edits_key k e"
  shows "panel_holds k v (panel_step models e s)"
proof (cases e)
  case PFieldsLoaded
  then show ?thesis using assms(2) panel_holds_minor [OF after_edit_facts]
    by (cases s) (auto simp: onFieldsLoaded_def panel_holds_def)
next
  case PTimer
  then show ?thesis using assms(2) by (auto simp: panel_holds_def onSaveTimer_def syncToAdapter_def split: prod.split)
next
  case PFlush
  then show ?thesis using assms(2) by (auto simp: panel_holds_def flushValues_def syncToAdapter_def split: prod.split)
qed (use assms in \<open>auto simp: panel_holds_edit edits_key_def panel_holds_minor [OF panel_minor_steps(1)]
     panel_holds_minor [OF panel_minor_steps(2)] panel_holds_minor [OF panel_minor_steps(3)] panel_holds_minor [OF panel_minor_steps(4)]\<close>)

lemma panel_holds_run:
  assumes "k \<noteq> ''trigger_fields''" and "panel_holds k v s" and "list_all (\<lambda>e. \<not> edits_key k e) es"
  shows "panel_holds k v (run_ops (panel_step models) es s)"
  using assms(2,3) by (induction es arbitrary: s) (simp_all add: panel_holds_step [OF assms(1)])

subsection \<open>A fresh panel\<close>

lemma control_view_key [simp]: "ctl_key (control_view (k, c)) = k" "js_prop (JObj (control_view (k, c))) ''value'' = getValue c"
  by (simp_all add: ctl_key_def control_view_def Let_def)

lemma fold_values:
  "foldl (\<lambda>m c. obj_set (ctl_key c) (normalizeControlValue (js_prop (JObj c) ''value'')) m) m (map control_view cs)
     = foldl (\<lambda>m (k, v). obj_set k v m) m (map (\<lambda>(k, c). (k, getValue c)) cs)"
  by (induction cs arbitrary: m) (auto simp: normalizeControlValue_def simp del: js_prop.simps)

lemma panel_values_distinct: "distinct (map_keys (panel_values u cs))"
proof -
  have "distinct (map_keys m) \<Longrightarrow>
      distinct (map_keys (foldl (\<lambda>m c. obj_set (ctl_key c) (normalizeControlValue (js_prop (JObj c) ''value'')) m) m cs))" for m
    by (induction cs arbitrary: m) (simp_all add: jso.distinct_put del: js_prop.simps)
  then show ?thesis by (simp add: panel_values_def Let_def jso.distinct_put del: js_prop.simps)
qed

lemma panel_values_get:
  assumes "distinct (map_keys cs)" and "ui_type u = ''record_event_trigger'' \<longrightarrow> k \<noteq> ''trigger_fields''"
  shows "map_of (panel_values u (map control_view cs)) k = map_option getValue (map_of cs k)"
proof -
  let ?vs = "map (\<lambda>(k, c). (k, getValue c)) cs"
  have "map_keys ?vs = map_keys cs" by (simp add: case_prod_beta' comp_def)
  then have "distinct (map_keys ?vs)" using assms(1) by (simp only:)
  then have "map_of (rev ?vs) = map_of ?vs" by (rule map_of_rev_distinct)
  then have "map_of (foldl (\<lambda>m (k, v). obj_set k v m) [] ?vs) k = map_option getValue (map_of cs k)"
    by (simp add: jso.get_put_all map_of_map_snd)
  then show ?thesis using assms(2) by (simp add: panel_values_def Let_def fold_values jso.get_put del: js_prop.simps)
qed

lemma initControlValues_facts:
  assumes node: "store_node i st = Some n" and d: "distinct (map_keys (controls n))" and u: "ui_id u = Some i"
    and tf: "ui_type u = ''record_event_trigger'' \<longrightarrow> ''trigger_fields'' \<notin> set (map_keys (controls n))"
  shows "snd (initControlValues u st) = st" and "pn_id (fst (initControlValues u st)) = i"
    and "pn_node (fst (initControlValues u st)) = u" and "panel_inv (initControlValues u st)"
proof -
  obtain p where p: "initControlValues u st = (p, st)" "pn_node p = u" "pn_values p = panel_values u (panel_controls u i st)"
      "\<not> pn_saveTimer p" "pn_loading p = 0"
    by (simp add: initControlValues_def u normalizeControlValue_def list_ex_iff split_beta Let_def)
  show "snd (initControlValues u st) = st" "pn_node (fst (initControlValues u st)) = u" using p by simp_all
  show i: "pn_id (fst (initControlValues u st)) = i" using p u by (simp add: pn_id_def)
  have get: "map_of (pn_values p) k = Some (getValue c)" if k: "map_of (controls n) k = Some c" for k c
  proof -
    have "panel_controls u i st = map control_view (controls n)"
      using k node by (auto simp: panel_controls_def adapter_getNodeControls_def editor_getNode_def store_node_def Let_def)
    moreover have "ui_type u = ''record_event_trigger'' \<longrightarrow> k \<noteq> ''trigger_fields''"
      using tf k by (metis map_of_eq_None_iff option.distinct(1) set_map)
    ultimately show ?thesis using panel_values_get [OF d] p(3) k by simp
  qed
  have "k \<in> set (map_keys (pn_values p))" if "k \<in> set (map_keys (controls n))" for k
    using get that by (metis map_of_eq_None_iff not_None_eq set_map)
  then have "values_cover p st" using node i p panel_values_distinct by (auto simp: values_cover_def simp del: set_map)
  moreover have "values_saved p st" using get node i p by (simp add: values_saved_def)
  ultimately show "panel_inv (initControlValues u st)" by (simp add: p panel_inv_def)
qed

lemma node_of_view:
  assumes g: "session_good odoo (graph st)" and u: "store_getNode i st = Some u"
  shows "ui_id u = Some i \<and> (\<exists>n. store_node i st = Some n \<and> u = node_to_ui n \<and> distinct (map_keys (controls n)))"
proof -
  obtain n where n: "store_node i st = Some n" "u = node_to_ui n"
    using getNode_mirror [OF session_good_inv [OF g], of i] u by (auto simp: store_node_def map_option_eq_Some eq_commute [of "Some u"])
  have "ui_id u = Some i" using u by (auto simp: store_getNode_def find_Some_iff)
  moreover have "(i, n) \<in> set (nodes (core (graph st)))" using n(1) by (auto simp: store_node_def dest: map_of_SomeD)
  then have "restorable (buildNodeRegistryFromOdoo odoo) (i, n)"
    using g by (auto simp: session_good_def session_inv_def restorable_core_def list_all_iff)
  then have "distinct (map_keys (controls n))" by (auto simp: restorable_def instance_of_def split: option.splits)
  ultimately show ?thesis using n by blast
qed

text \<open>C8: in every session of the panel, whatever is edited, renamed or switched in between and in whatever order the timer
  and the answers of the backend come, once no save is pending the store holds for every control the value the panel
  shows, so the last edit of a control; and the panel has written to no other node, no connection, and nothing of the store but the graph.\<close>

theorem panel_saves_last_edit:
  assumes "session_good odoo (graph st)" and "store_getNode i st = Some u" and "store_node i st = Some n"
    and "ui_type u = ''record_event_trigger'' \<longrightarrow> ''trigger_fields'' \<notin> set (map_keys (controls n))"
    and "k \<in> set (map_keys (controls n))" and "k \<noteq> ''trigger_fields''"
    and "list_all (\<lambda>e. \<not> edits_key k e) es'"
    and "run_ops (panel_step models) (es @ [PEdit k v] @ es') (initControlValues u st) = (p, st')"
    and "\<not> pn_saveTimer p" and "pn_loading p = 0"
  shows "(\<exists>n' c. store_node i st' = Some n' \<and> map_of (controls n') k = Some c \<and> getValue c = v)
    \<and> values_saved p st' \<and> panel_frame i st st'"
proof -
  have u: "ui_id u = Some i" and d: "distinct (map_keys (controls n))" using node_of_view [OF assms(1,2)] assms(3) by auto
  note init = initControlValues_facts [OF assms(3) d u assms(4)]
  have "panel_local i st (p, st')"
    using pnf.run_invar [of i st "initControlValues u st" models] init assms(8) by (metis panel_frame_refl panel_local_def permitted_always)
  moreover have "panel_inv (p, st')" using pnl.run_invar [OF init(4)] assms(8) by (metis permitted_always)
  then have saved: "values_saved p st'" using assms(9,10) by (simp add: panel_inv_def)
  moreover have "panel_holds k v (p, st')"
  proof -
    have split: "run_ops f (xs @ ys) s = run_ops f ys (run_ops f xs s)" for f :: "panel_event \<Rightarrow> panel \<times> store \<Rightarrow> panel \<times> store" and xs ys s
      by (induction xs arbitrary: s) simp_all
    have "panel_holds k v (panel_step models (PEdit k v) s)" for s using assms(6) by (simp add: panel_holds_edit)
    then show ?thesis using panel_holds_run [OF assms(6) _ assms(7)] assms(8) by (simp add: split) (metis run_ops.simps(1))
  qed
  moreover obtain n' where n': "store_node i st' = Some n'" "map_keys (controls n') = map_keys (controls n)"
    using \<open>panel_local i st (p, st')\<close> assms(3) by (auto simp: panel_local_def panel_frame_def rel_option_iff same_node_def split: option.splits)
  moreover from this obtain c where "map_of (controls n') k = Some c"
    using assms(5) by (metis map_of_eq_None_iff not_None_eq set_map)
  ultimately show ?thesis by (auto simp: panel_local_def values_saved_def panel_holds_def)
qed

text \<open>A store with one node of a registered type, for the examples.\<close>

abbreviation one_node :: "(string \<times> node_class) list \<Rightarrow> string \<Rightarrow> store" where
  "one_node odoo type \<equiv> snd (store_addNode odoo type (0, 0) (start_store odoo))"

lemma one_node_facts:
  assumes sound: "registry_sound odoo" and C: "map_of odoo type = Some C" and nl: "type \<noteq> ''loop''"
  defines "n \<equiv> (new_node C)\<lparr>node_id := Some ''n_1'', position := (0, 0)\<rparr>"
  shows "session_good odoo (graph (one_node odoo type))"
    and "store_node ''n_1'' (one_node odoo type) = Some n"
    and "store_getNode ''n_1'' (one_node odoo type) = Some (node_to_ui n)"
    and "ui_type (node_to_ui n) = type" and "\<not> ui_titleIsCustom (node_to_ui n)" and "ui_id (node_to_ui n) = Some ''n_1''"
proof -
  let ?start = "start_store odoo" and ?st = "one_node odoo type"
  have v0: "shape_view (graph ?start) = (Map.empty, {})" and n0: "nodes (core (graph ?start)) = []" "idCounter (core (graph ?start)) = 0"
    by (simp_all add: shape_view_def start_store_def new_WorkflowAdapter_def new_WorkflowEditor_def editor_on_def fun_eq_iff)
  have g0: "session_good odoo (graph ?start)" by (rule sh.line_good [OF start_store_line [OF sound]])
  show g: "session_good odoo (graph ?st)" by (rule store_addNode_shape(3) [OF g0 v0 C nl refl])
  have one: "show_nat (Suc 0) = ''1''" by code_simp
  have ok: "class_ok C" and cls: "class_sound (type, C)"
    using sound C registry_class_ok by (auto simp: registry_sound_def list_all_iff dest!: map_of_SomeD)
  have "nodes (core (snd (adapter_addNode odoo type (0, 0) (graph ?start)))) = map_set ''n_1'' n []"
    using C ok n0 one by (auto simp: adapter_addNode_def adapter_getNodeClass_def editor_addNode_def split_beta Let_def core_addNode_class n_def)
  then show n: "store_node ''n_1'' ?st = Some n"
    using nl by (auto simp: store_addNode_def add_and_record_def clearExecution_def store_node_def split: prod.splits option.splits)
  show "store_getNode ''n_1'' ?st = Some (node_to_ui n)"
    using n getNode_mirror [OF session_good_inv [OF g], of "''n_1''"] by (simp add: store_node_def)
  show "ui_type (node_to_ui n) = type" "\<not> ui_titleIsCustom (node_to_ui n)" "ui_id (node_to_ui n) = Some ''n_1''"
    using cls by (simp_all add: n_def node_to_ui_def class_sound_def base_meta_def Let_def)
qed

abbreviation if_store :: store where
  "if_store \<equiv> one_node builtin_classes ''if''"

lemma if_store_facts:
  shows "session_good builtin_classes (graph if_store)"
    and "\<exists>u n. store_getNode ''n_1'' if_store = Some u \<and> store_node ''n_1'' if_store = Some n
      \<and> ui_type u = ''if'' \<and> ''leftOperand'' \<in> set (map_keys (controls n))"
proof -
  have C: "map_of builtin_classes ''if'' = Some IfNode" by (simp add: builtin_classes_def class_defs)
  have nl: "''if'' \<noteq> ''loop''" by simp
  note facts = one_node_facts [OF builtin_sound C nl]
  show "session_good builtin_classes (graph if_store)" by (rule facts(1))
  have "''leftOperand'' \<in> set (map_keys (controls (new_node IfNode)))"
    by (simp add: IfNode_def new_node_def new_BaseNode_def addControl_def addInput_def addOutput_def jso.set_keys_put Let_def del: set_map)
  then show "\<exists>u n. store_getNode ''n_1'' if_store = Some u \<and> store_node ''n_1'' if_store = Some n
      \<and> ui_type u = ''if'' \<and> ''leftOperand'' \<in> set (map_keys (controls n))"
    using facts(2,3,4) by (intro exI conjI) (assumption | simp)+
qed

lemma edit_then_timer:
  assumes "ui_type (pn_node p) \<noteq> ''record_event_trigger''" and "pn_loading p = 0"
    and "onSaveTimer (onControlChange models k v (p, st)) = (p', st')"
  shows "\<not> pn_saveTimer p' \<and> pn_loading p' = 0"
proof -
  obtain q s where q: "edited k v (p, st) = (q, s)" by (cases "edited k v (p, st)")
  have "pn_node q = pn_node p" "pn_loading q = 0"
    using minor_edited [of k v "(p, st)"] assms(2) by (auto simp: q minor_def set_value_def)
  then have "onControlChange models k v (p, st) = after_edit models (q, s)"
    using assms(1) by (simp add: onControlChange_def normalizeControlValue_def q)
  moreover have "pn_loading (fst (after_edit models (q, s))) = 0" using after_edit_facts [of q s models] \<open>pn_loading q = 0\<close>
    by (simp add: minor_def)
  ultimately show ?thesis using assms(3)
    by (auto simp: onSaveTimer_def syncToAdapter_def split: if_splits prod.splits)
qed

theorem panel_saves_last_edit_witness:
  "\<exists>u p st' n' c. store_getNode ''n_1'' if_store = Some u
     \<and> run_ops (panel_step Map.empty) [PEdit ''leftOperand'' (JStr ''x''), PTimer] (initControlValues u if_store) = (p, st')
     \<and> store_node ''n_1'' st' = Some n' \<and> map_of (controls n') ''leftOperand'' = Some c \<and> getValue c = JStr ''x''"
proof -
  obtain u n where un: "store_getNode ''n_1'' if_store = Some u" "store_node ''n_1'' if_store = Some n"
    "ui_type u = ''if''" "''leftOperand'' \<in> set (map_keys (controls n))" using if_store_facts(2) by blast
  obtain p st' where run: "run_ops (panel_step Map.empty) ([] @ [PEdit ''leftOperand'' (JStr ''x'')] @ [PTimer]) (initControlValues u if_store) = (p, st')"
    by fastforce
  have d: "ui_id u = Some ''n_1''" "distinct (map_keys (controls n))" using node_of_view [OF if_store_facts(1) un(1)] un(2) by auto
  obtain p0 where p0: "initControlValues u if_store = (p0, if_store)" "pn_node p0 = u" "pn_loading p0 = 0"
    by (simp add: initControlValues_def d(1) normalizeControlValue_def list_ex_iff split_beta Let_def)
  have "\<not> pn_saveTimer p \<and> pn_loading p = 0"
    using run by (intro edit_then_timer [of p0]) (simp_all add: p0 un(3))
  then have "(\<exists>n' c. store_node ''n_1'' st' = Some n' \<and> map_of (controls n') ''leftOperand'' = Some c \<and> getValue c = JStr ''x'')"
    using panel_saves_last_edit [OF if_store_facts(1) un(1,2) _ un(4) _ _ run] un(3) by (simp add: edits_key_def)
  then show ?thesis using un(1) run by auto
qed

subsection \<open>Two losses\<close>

text \<open>C34: the fields a record event trigger is to watch are chosen in the panel and written with the other values, but
  a node whose class has no control and no hidden value of that name never stores them: no session of the panel gives
  its configuration a \<open>trigger_fields\<close> entry.\<close>

theorem trigger_fields_not_stored:
  assumes "session_good odoo (graph st)" and "store_getNode i st = Some u" and "store_node i st = Some n"
    and "''trigger_fields'' \<notin> set (map_keys (controls n))" and "''trigger_fields'' \<notin> set (map_keys (hiddenDefaults n))"
    and "run_ops (panel_step models) es (initControlValues u st) = (p, st')"
  shows "\<exists>n'. store_node i st' = Some n' \<and> map_of (getConfig n') ''trigger_fields'' = None"
proof -
  have u: "ui_id u = Some i" and d: "distinct (map_keys (controls n))" using node_of_view [OF assms(1,2)] assms(3) by auto
  note init = initControlValues_facts [OF assms(3) d u impI, OF assms(4)]
  have "panel_local i st (p, st')"
    using pnf.run_invar [of i st "initControlValues u st" models] init assms(6) by (metis panel_frame_refl panel_local_def permitted_always)
  then obtain n' where n': "store_node i st' = Some n'" "map_keys (controls n') = map_keys (controls n)"
      "map_keys (hiddenDefaults n') = map_keys (hiddenDefaults n)"
    using assms(3) by (auto simp: panel_local_def panel_frame_def rel_option_iff same_node_def split: option.splits)
  have "map_of (controls n') ''trigger_fields'' = None" "map_of (hiddenDefaults n') ''trigger_fields'' = None"
    using n'(2,3) assms(4,5) by (metis map_of_eq_None_iff set_map)+
  moreover have "distinct (map_keys (controls n'))" using n'(2) d by simp
  ultimately show ?thesis
    using n'(1) by (simp add: map_of_getConfig base_map_of_getConfig)
qed

text \<open>The record event trigger of data/workflow_type_data.xml.\<close>

abbreviation record_event_type :: jsval where
  "record_event_type \<equiv> JObj
     [(''node_type'', JStr ''record_event_trigger''), (''name'', JStr ''Record Event Trigger''), (''category'', JStr ''trigger''),
      (''config_schema'', JObj
        [(''model_name'', JObj [(''type'', JStr ''model_select''), (''label'', JStr ''Model'')]),
         (''trigger_event'', JObj [(''type'', JStr ''select''), (''label'', JStr ''Trigger Event'')]),
         (''filter_domain'', JObj [(''type'', JStr ''domain''), (''label'', JStr ''Filter Domain'')])])]"

abbreviation record_event_classes :: "(string \<times> node_class) list" where
  "record_event_classes \<equiv> [(''record_event_trigger'', createDynamicNodeClass Map.empty record_event_type)]"

theorem trigger_fields_not_stored_witness:
  "\<exists>u p st' n'. store_getNode ''n_1'' (one_node record_event_classes ''record_event_trigger'') = Some u
     \<and> ui_type u = ''record_event_trigger''
     \<and> run_ops (panel_step Map.empty) [PEdit ''trigger_fields'' (JArr [JStr ''name'']), PTimer]
          (initControlValues u (one_node record_event_classes ''record_event_trigger'')) = (p, st')
     \<and> store_node ''n_1'' st' = Some n' \<and> map_of (getConfig n') ''trigger_fields'' = None"
proof -
  let ?C = "createDynamicNodeClass Map.empty record_event_type" and ?R = record_event_classes
  have key: "getNodeTypeKey record_event_type = ''record_event_trigger''"
    by (simp add: getNodeTypeKey_def js_or_def js_trim_def is_space_def)
  have td: "describes_type Map.empty record_event_type"
    by (simp add: describes_type_def normalizeSchema_def nonempty_or_def)
  have sound: "registry_sound ?R" using dynamic_class_sound [OF td] unfolding key by (simp add: registry_sound_def)
  have ks: "map_keys (normalizeSchema Map.empty (js_prop record_event_type ''config_schema'')) = [''model_name'', ''trigger_event'', ''filter_domain'']"
    by (simp add: normalizeSchema_def)
  have "config_split (set [''model_name'', ''trigger_event'', ''filter_domain'']) (new_node ?C)"
    using dynamic_class_split [OF td] unfolding ks .
  then have no: "''trigger_fields'' \<notin> set (map_keys (controls (new_node ?C)))" "''trigger_fields'' \<notin> set (map_keys (hiddenDefaults (new_node ?C)))"
    unfolding config_split_def by auto
  have C: "map_of ?R ''record_event_trigger'' = Some ?C" and nl: "''record_event_trigger'' \<noteq> ''loop''" by simp_all
  obtain u n where un: "store_getNode ''n_1'' (one_node ?R ''record_event_trigger'') = Some u"
      "store_node ''n_1'' (one_node ?R ''record_event_trigger'') = Some n" "ui_type u = ''record_event_trigger''"
      "''trigger_fields'' \<notin> set (map_keys (controls n))" "''trigger_fields'' \<notin> set (map_keys (hiddenDefaults n))"
    using one_node_facts(2,3,4) [OF sound C nl] no by (intro that) (assumption | simp)+
  obtain p st' where run: "run_ops (panel_step Map.empty) [PEdit ''trigger_fields'' (JArr [JStr ''name'']), PTimer]
      (initControlValues u (one_node ?R ''record_event_trigger'')) = (p, st')" by fastforce
  from trigger_fields_not_stored [OF one_node_facts(1) [OF sound C nl] un(1,2,4,5) run] un(1,3) run show ?thesis by blast
qed

definition meta_titled :: "jsobj \<Rightarrow> bool" where
  "meta_titled m \<longleftrightarrow> (\<exists>ps. js_prop (JObj m) ''ui'' = JObj ps \<and> map_of ps ''titleIsCustom'' = Some (JBool True))"

lemma merge_modes_other: "k' \<noteq> k \<Longrightarrow> map_of (merge_modes k prevUi patchUi w) k' = map_of w k'"
  by (simp add: merge_modes_def jso.get_put)

lemma merge_meta_ui:
  assumes "k \<noteq> ''controlModes''" and "k \<noteq> ''pairModes''"
  shows "\<exists>ps. js_prop (JObj (merge_meta m [(''ui'', JObj pu)])) ''ui'' = JObj ps
    \<and> map_of ps k = (map_of (own_props (js_or (js_prop (JObj m) ''ui'') (JObj []))) ++ map_of (rev pu)) k"
  using assms by (simp add: merge_meta_def Let_def jso.get_put merge_modes_other spread2_def obj_assign_def jso.get_put_all del: map_add_dom_app_simps)

lemma meta_titled_merge:
  "meta_titled (merge_meta m [(''ui'', JObj [(''titleIsCustom'', JBool True)])])"
  "meta_titled m \<Longrightarrow> meta_titled (merge_meta m [(''ui'', JObj [(''controlModes'', a), (''pairModes'', b)])])"
  using merge_meta_ui [of "''titleIsCustom''" m "[(''titleIsCustom'', JBool True)]"]
    merge_meta_ui [of "''titleIsCustom''" m "[(''controlModes'', a), (''pairModes'', b)]"]
  by (auto simp: meta_titled_def js_or_def)

lemma edited_node:
  assumes "edited k v (p, st) = (q, s)" and "store_node (pn_id p) st = Some n" and "meta_titled (meta n)"
  shows "\<exists>n'. store_node (pn_id p) s = Some n' \<and> meta_titled (meta n')"
proof -
  have "s = st \<or> (\<exists>a b. s = snd (store_setNodeMeta (pn_id p) [(''ui'', JObj [(''controlModes'', a), (''pairModes'', b)])] st))"
    using assms(1) by (auto simp: edited_def reconcilePairModes_def persistUiModes_def Let_def split: option.splits if_splits)
  then show ?thesis using assms(2,3) by (auto simp: store_node_setNodeMeta meta_titled_merge(2))
qed

text \<open>A node that derives its title from its configuration keeps a name the user has just given only until the next
  edit in the same panel: the panel still sees the node as it was when it was opened, so the edit renames it to the
  derived title, although the node is marked as having a name of its own.\<close>

theorem custom_title_overwritten:
  assumes "ui_type (pn_node p) = ''record_operation''" and "\<not> ui_titleIsCustom (pn_node p)"
    and "store_node (pn_id p) st = Some n" and "js_trim name \<noteq> []"
    and "onControlChange models k v (onNodeNameChange models name (p, st)) = (p', st')"
  shows "\<exists>n'. store_node (pn_id p) st' = Some n' \<and> computeRecordOperationAutoTitle models p' = Some (node_label n')
    \<and> truthy (js_prop (js_prop (JObj (meta n')) ''ui'') ''titleIsCustom'')"
proof -
  let ?i = "pn_id p"
  obtain st1 where st1: "onNodeNameChange models name (p, st) = (p, st1)"
      "\<exists>n1. store_node ?i st1 = Some n1 \<and> meta_titled (meta n1)"
    using assms(3,4) by (auto simp: onNodeNameChange_def set_title_custom_def Let_def store_node_renameNode store_node_setNodeMeta meta_titled_merge(1))
  obtain q s where q: "edited k v (p, st1) = (q, s)" by (cases "edited k v (p, st1)")
  note e = edited_values [OF q]
  obtain n2 where n2: "store_node ?i s = Some n2" "meta_titled (meta n2)" using edited_node [OF q] st1(2) by blast
  have "onControlChange models k v (p, st1) = after_edit models (q, s)"
    using assms(1) e by (simp add: onControlChange_def normalizeControlValue_def q)
  then have ps': "(p', st') = apply_auto_title models (q\<lparr>pn_saveTimer := True\<rparr>, s)"
    using assms(1,2,5) e st1(1) by (simp add: after_edit_def debouncedLocalSave_def isAutoTitleNode_def)
  obtain t where t: "computeRecordOperationAutoTitle models (q\<lparr>pn_saveTimer := True\<rparr>) = Some t" "t \<noteq> []"
    using assms(1) e by (auto simp: computeRecordOperationAutoTitle_def recordOperationLabel_def Let_def)
  then have "p' = q\<lparr>pn_saveTimer := True\<rparr>" "st' = snd (renameNode ?i t s)"
    using ps' e by (simp_all add: apply_auto_title_def)
  then show ?thesis using n2 t by (auto simp: store_node_renameNode meta_titled_def)
qed

abbreviation record_operation_type :: jsval where
  "record_operation_type \<equiv> JObj
     [(''node_type'', JStr ''record_operation''), (''name'', JStr ''Record Operation''), (''category'', JStr ''odoo''),
      (''config_schema'', JObj [(''operation'', JObj [(''type'', JStr ''select'')]), (''model'', JObj [(''type'', JStr ''model_select'')])])]"

abbreviation record_operation_classes :: "(string \<times> node_class) list" where
  "record_operation_classes \<equiv> [(''record_operation'', createDynamicNodeClass Map.empty record_operation_type)]"

theorem custom_title_overwritten_witness:
  "\<exists>u p st' n'. store_getNode ''n_1'' (one_node record_operation_classes ''record_operation'') = Some u
     \<and> onControlChange Map.empty ''model'' (JStr ''res.partner'') (onNodeNameChange Map.empty ''Mine''
          (initControlValues u (one_node record_operation_classes ''record_operation''))) = (p, st')
     \<and> store_node ''n_1'' st' = Some n' \<and> computeRecordOperationAutoTitle Map.empty p = Some (node_label n')"
proof -
  let ?C = "createDynamicNodeClass Map.empty record_operation_type" and ?R = record_operation_classes
  let ?st = "one_node ?R ''record_operation''"
  have key: "getNodeTypeKey record_operation_type = ''record_operation''"
    by (simp add: getNodeTypeKey_def js_or_def js_trim_def is_space_def)
  have td: "describes_type Map.empty record_operation_type"
    by (simp add: describes_type_def normalizeSchema_def nonempty_or_def)
  have sound: "registry_sound ?R" using dynamic_class_sound [OF td] unfolding key by (simp add: registry_sound_def)
  have C: "map_of ?R ''record_operation'' = Some ?C" and nl: "''record_operation'' \<noteq> ''loop''" by simp_all
  note facts = one_node_facts [OF sound C nl]
  obtain u where u: "store_getNode ''n_1'' ?st = Some u" "ui_type u = ''record_operation''" "\<not> ui_titleIsCustom u" "ui_id u = Some ''n_1''"
    using facts(3-6) by blast
  obtain p where p: "initControlValues u ?st = (p, ?st)" "pn_node p = u"
    by (simp add: initControlValues_def u(4) normalizeControlValue_def list_ex_iff split_beta Let_def)
  then have i: "pn_id p = ''n_1''" using u(4) by (simp add: pn_id_def)
  obtain p' st' where run: "onControlChange Map.empty ''model'' (JStr ''res.partner'') (onNodeNameChange Map.empty ''Mine'' (p, ?st)) = (p', st')"
    by fastforce
  have "js_trim ''Mine'' \<noteq> []" by code_simp
  from custom_title_overwritten [of p ?st, OF _ _ _ this run] u p(2) i facts(2)
  obtain n' where "store_node ''n_1'' st' = Some n'" "computeRecordOperationAutoTitle Map.empty p' = Some (node_label n')" by auto
  then show ?thesis using u(1) p(1) run by auto
qed

subsection \<open>Modes of pairs\<close>

lemma digits_no_space: "\<forall>c \<in> set s. is_digit c \<Longrightarrow> js_trim s = s"
proof -
  assume d: "\<forall>c \<in> set s. is_digit c"
  have "dropWhile is_space t = t" if "\<forall>c \<in> set t. is_digit c" for t
    using that by (cases t) (auto simp: is_digit_def is_space_def)
  then show ?thesis using d by (simp add: js_trim_def)
qed

lemma js_Number_show_nat: "js_Number (show_nat m) = Some (of_nat m)"
proof -
  have d: "\<forall>c \<in> set (show_nat m). is_digit c" by (rule show_nat_digits)
  have "\<not> is_digit (CHR ''-'')" "\<not> is_digit (CHR ''.'')" by (simp_all add: is_digit_def)
  then have "CHR ''.'' \<notin> set (show_nat m)" "hd (show_nat m) \<noteq> CHR ''-''" using d hd_in_set [OF show_nat_nonempty [of m]] by metis+
  then show ?thesis using d digits_no_space [OF d] by (simp add: js_Number_def js_split_no_sep list_all_iff)
qed

lemma js_string_nat: "js_string (JNum (of_nat m)) = show_nat m"
  by (simp add: show_num_def show_int_def)

lemma map_of_filter_key: "map_of (filter (\<lambda>(k, _). P k) m) k = (if P k then map_of m k else None)"
  by (induction m) auto

lemma fixed_pairs_fold:
  "map_of (foldl (\<lambda>m i. if truthy (js_prop (JObj m) (js_string i)) then m else obj_set (js_string i) fixed_pair m) m ids) k
     = (if k \<in> js_string ` set ids \<and> \<not> truthy (js_prop (JObj m) k) then Some fixed_pair else map_of m k)"
proof (induction ids arbitrary: m)
  case (Cons i ids)
  have t: "truthy fixed_pair" by (simp add: fixed_pair_def)
  show ?case
  proof (cases "truthy (js_prop (JObj m) (js_string i))")
    case True
    then show ?thesis by (auto simp: Cons.IH simp del: js_prop.simps)
  next
    case False
    have put: "js_prop (JObj (obj_set (js_string i) fixed_pair m)) k = (if k = js_string i then fixed_pair else js_prop (JObj m) k)"
      by (simp add: jso.get_put)
    show ?thesis using False t by (auto simp: Cons.IH put jso.get_put simp del: js_prop.simps)
  qed
qed simp

lemma fixed_pairs_distinct:
  "distinct (map_keys m) \<Longrightarrow>
     distinct (map_keys (foldl (\<lambda>m i. if truthy (js_prop (JObj m) (js_string i)) then m else obj_set (js_string i) fixed_pair m) m ids))"
  by (induction ids arbitrary: m) (simp_all add: jso.distinct_put del: js_prop.simps)

text \<open>after the pairs of a key-value control changed, the table of their modes has exactly one entry for each pair: a pair
  that is gone has lost its modes, a new one starts with fixed modes, and the modes of the others are kept.\<close>

theorem reconcile_follows_pairs:
  assumes "\<forall>i \<in> set ids. (\<exists>s. i = JStr s) \<or> (\<exists>m. i = JNum (of_nat m))"
    and "\<forall>k \<in> set (map_keys existing). \<forall>q. js_Number k = Some q \<longrightarrow> k = show_num q"
    and "distinct (map_keys existing)" and "next = reconciled_pairs ids existing"
  shows "set (map_keys next) = js_string ` set ids \<and> distinct (map_keys next)
    \<and> (\<forall>i \<in> set ids. map_of next (js_string i) =
         (let old = js_prop (JObj existing) (js_string i) in Some (if truthy old then old else fixed_pair)))"
proof -
  let ?all = "foldl (\<lambda>m i. if truthy (js_prop (JObj m) (js_string i)) then m else obj_set (js_string i) fixed_pair m) existing ids"
  have nx: "map_of next k = (if names_pair ids k then map_of ?all k else None)" for k
    unfolding assms(4) reconciled_pairs_def by (rule map_of_filter_key)
  have names: "names_pair ids (js_string i)" if i: "i \<in> set ids" for i
  proof -
    from assms(1) i consider s where "i = JStr s" | m where "i = JNum (of_nat m)" by blast
    then show ?thesis
    proof cases
      case (2 m)
      then show ?thesis using i unfolding names_pair_def by (simp only: js_string_nat js_Number_show_nat) simp
    qed (use i in \<open>simp add: names_pair_def\<close>)
  qed
  have get: "map_of next (js_string i) = (let old = js_prop (JObj existing) (js_string i) in Some (if truthy old then old else fixed_pair))"
    if "i \<in> set ids" for i
    using that names [OF that] by (auto simp: nx fixed_pairs_fold Let_def split: option.splits simp del: js_prop.simps)
      (simp split: option.splits)
  have only: "k \<in> js_string ` set ids" if "map_of next k \<noteq> None" for k
  proof (rule ccontr)
    assume no: "k \<notin> js_string ` set ids"
    then have "names_pair ids k" and "map_of existing k \<noteq> None" using that by (auto simp: nx fixed_pairs_fold split: if_splits simp del: js_prop.simps)
    then have "\<forall>q. js_Number k = Some q \<longrightarrow> k = show_num q" using assms(2) by (metis map_of_eq_None_iff set_map)
    with \<open>names_pair ids k\<close> have "\<exists>i \<in> set ids. k = js_string i"
      unfolding names_pair_def by (auto split: option.splits intro: bexI [of _ "JStr k"] bexI [of _ "JNum q" for q])
    with no show False by blast
  qed
  have "set (map_keys next) = js_string ` set ids"
  proof (rule set_eqI)
    fix k
    have "k \<in> set (map_keys next) \<longleftrightarrow> map_of next k \<noteq> None" by (simp add: map_of_eq_None_iff)
    then show "k \<in> set (map_keys next) \<longleftrightarrow> k \<in> js_string ` set ids" using only get by (auto simp: Let_def simp del: set_map)
  qed
  moreover have "distinct (map_keys next)"
    unfolding assms(4) reconciled_pairs_def using fixed_pairs_distinct [OF assms(3)] by (rule distinct_map_filter)
  ultimately show ?thesis using get by blast
qed

theorem reconcile_follows_pairs_witness:
  "map_of (reconciled_pairs [JNum 2, JNum 3] [(''1'', fixed_pair), (''2'', JObj [(''key'', JStr ''expression'')])]) ''2''
     = Some (JObj [(''key'', JStr ''expression'')])"
proof -
  have n: "js_Number ''1'' = Some 1" "js_Number ''2'' = Some 2" "show_num 1 = ''1''" "show_num 2 = ''2''" by code_simp+
  have "\<forall>i \<in> set [JNum 2, JNum 3]. (\<exists>s. i = JStr s) \<or> (\<exists>m. i = JNum (of_nat m))"
    by (auto intro: exI [of _ "2::nat"] exI [of _ "3::nat"])
  from reconcile_follows_pairs [OF this _ _ refl, of "[(''1'', fixed_pair), (''2'', JObj [(''key'', JStr ''expression'')])]"]
  show ?thesis by (simp add: n)
qed

end
