(* ===== verification/Panel_Execution.thy ===== *)
theory Panel_Execution
  imports Panel_Controls Graph_Utils
begin

section \<open>The data columns of the configuration panel (components/node_config_panel.js)\<close>

text \<open>
  What the panel shows of a run: the events of its node by output socket and iteration, the outputs of the nodes before
  it, the context in which its expressions are previewed (built by \<open>_createExecutionContextBuilder\<close> of
  components/editor_canvas.js), and the pinning of an output. An execution, an event and a workflow are JavaScript
  values; replies of the server are arguments.
\<close>

subsection \<open>The events of the node\<close>

record exec_view =
  xv_execution :: jsval
  xv_socket :: "string option"
  xv_version :: "int option"

definition shown_events :: "jsval \<Rightarrow> jsval" where
  "shown_events ex =
     (let ev = js_prop ex ''executionEvents''
      in if is_array ev \<and> arr_items ev \<noteq> [] then ev else js_prop ex ''nodeResults'')"

definition nodeExecutionEvents :: "string \<Rightarrow> jsval \<Rightarrow> jsval list" where
  "nodeExecutionEvents nodeId ex =
     (if \<not> truthy ex \<or> \<not> is_array (shown_events ex) then []
      else filter (\<lambda>e. truthy e \<and> js_prop e ''node_id'' = JStr nodeId) (arr_items (shown_events ex)))"

definition hasNodeExecutionData :: "jsval \<Rightarrow> string \<Rightarrow> bool" where
  "hasNodeExecutionData ex nodeId \<longleftrightarrow>
     truthy ex \<and> nodeId \<noteq> [] \<and> is_array (shown_events ex)
     \<and> list_ex (\<lambda>e. truthy e \<and> js_prop e ''node_id'' = JStr nodeId) (arr_items (shown_events ex))"

definition event_socket :: "jsval \<Rightarrow> string" where
  "event_socket e = js_string (js_or (js_prop e ''output_socket'') (JStr ''_default''))"

definition outputSocketGroups :: "jsval list \<Rightarrow> (string, jsval list) js_map" where
  "outputSocketGroups events = foldl (\<lambda>m e. push_at (event_socket e) e m) [] events"

record socket_tab =
  tab_id :: string
  tab_label :: string
  tab_rawLabel :: string
  tab_count :: nat

definition socket_tab_of :: "(string \<times> string option) list \<Rightarrow> string \<times> jsval list \<Rightarrow> socket_tab" where
  "socket_tab_of outs g =
     (let key = fst g;
          label = (if key = ''_default'' then []
                   else case map_of outs key of
                          Some (Some l) \<Rightarrow> if l \<noteq> [] then l else key
                        | _ \<Rightarrow> key)
      in \<lparr>tab_id = key, tab_label = label @ '' ('' @ show_nat (length (snd g)) @ '')'', tab_rawLabel = label,
          tab_count = length (snd g)\<rparr>)"

definition outputSocketTabs :: "(string \<times> string option) list \<Rightarrow> jsval list \<Rightarrow> socket_tab list" where
  "outputSocketTabs outs events =
     (let groups = outputSocketGroups events
      in if length groups \<le> 1 \<and> ''_default'' \<in> set (map_keys groups) then [] else map (socket_tab_of outs) groups)"

definition activeOutputSocket :: "(string \<times> string option) list \<Rightarrow> string option \<Rightarrow> jsval list \<Rightarrow> string" where
  "activeOutputSocket outs selected events =
     (case outputSocketTabs outs events of
        [] \<Rightarrow> ''_default''
      | t # ts \<Rightarrow>
          (case selected of
             Some s \<Rightarrow> if s \<noteq> [] \<and> s \<in> tab_id ` set (t # ts) then s else tab_id t
           | None \<Rightarrow> tab_id t))"

definition activeSocketEvents :: "(string \<times> string option) list \<Rightarrow> string option \<Rightarrow> jsval list \<Rightarrow> jsval list" where
  "activeSocketEvents outs selected events = entry (outputSocketGroups events) (activeOutputSocket outs selected events)"

definition versionOptions :: "jsval list \<Rightarrow> (nat \<times> string \<times> jsval) list" where
  "versionOptions events =
     (if length events \<le> 1 then []
      else map (\<lambda>i. (i, show_nat (Suc i) @ '' of '' @ show_nat (length events), events ! i)) [0..<length events])"

definition activeVersionIndex :: "int option \<Rightarrow> jsval list \<Rightarrow> int" where
  "activeVersionIndex selected events =
     (if events = [] then -1
      else case selected of
             Some i \<Rightarrow> if 0 \<le> i \<and> i < int (length events) then i else int (length events) - 1
           | None \<Rightarrow> int (length events) - 1)"

definition selectedExecutionEvent :: "ui_node \<Rightarrow> exec_view \<Rightarrow> jsval option" where
  "selectedExecutionEvent n xv =
     (let events = activeSocketEvents (ui_outputs n) (xv_socket xv)
                     (nodeExecutionEvents (case ui_id n of Some i \<Rightarrow> i | None \<Rightarrow> ''undefined'') (xv_execution xv));
          idx = activeVersionIndex (xv_version xv) events
      in if idx < 0 \<or> idx \<ge> int (length events) then None else Some (events ! nat idx))"

definition onOutputSocketClick :: "string \<Rightarrow> exec_view \<Rightarrow> exec_view" where
  "onOutputSocketClick socketKey xv = xv\<lparr>xv_socket := Some socketKey, xv_version := None\<rparr>"

definition onVersionChange :: "string \<Rightarrow> exec_view \<Rightarrow> exec_view" where
  "onVersionChange typed xv = xv\<lparr>xv_version := js_parseInt typed\<rparr>"

subsection \<open>Status and result\<close>

definition executionStatus :: "ui_node \<Rightarrow> exec_view \<Rightarrow> string" where
  "executionStatus n xv =
     (if truthy (xv_execution xv) \<and> js_prop (xv_execution xv) ''status'' = JStr ''failed'' then ''error''
      else case selectedExecutionEvent n xv of
             None \<Rightarrow> ''idle''
           | Some e \<Rightarrow> if truthy (js_prop e ''error_message'') then ''error'' else ''success'')"

definition executionStatusLabel :: "ui_node \<Rightarrow> exec_view \<Rightarrow> string" where
  "executionStatusLabel n xv =
     (if truthy (xv_execution xv) \<and> js_prop (xv_execution xv) ''status'' = JStr ''failed''
      then ''Error: '' @ js_string (js_or (js_prop (xv_execution xv) ''error'') (JStr ''Execution failed''))
      else case selectedExecutionEvent n xv of
             None \<Rightarrow> []
           | Some e \<Rightarrow> if truthy (js_prop e ''error_message'') then ''Error: '' @ js_string (js_prop e ''error_message'') else [])"

text \<open>The error or the output.\<close>

definition executionDisplayResult :: "jsval option \<Rightarrow> (jsval + jsval) option" where
  "executionDisplayResult selected =
     map_option (\<lambda>e. if truthy (js_prop e ''error_message'') then Inl (js_prop e ''error_message'')
                     else Inr (if js_prop e ''output_data'' = JUndef then JNull else js_prop e ''output_data'')) selected"

definition outputItemCount :: "jsval option \<Rightarrow> nat option" where
  "outputItemCount selected =
     (case executionDisplayResult selected of
        Some (Inr (JArr xs)) \<Rightarrow> Some (length xs)
      | Some (Inr (JObj ps)) \<Rightarrow> Some (length ps)
      | _ \<Rightarrow> None)"

subsection \<open>Which columns are shown\<close>

definition shouldShowInputByDefault :: "jsval \<Rightarrow> ui_node \<Rightarrow> jsval \<Rightarrow> bool" where
  "shouldShowInputByDefault ex n workflow =
     (let preds = getStructuralPredecessorIds workflow (case ui_id n of Some i \<Rightarrow> JStr i | None \<Rightarrow> JUndef)
      in if ui_type n \<in> set TRIGGER_NODE_TYPES then False
         else if \<not> truthy workflow \<or> preds = [] then True
         else if \<not> truthy ex \<or> \<not> is_array (shown_events ex) \<or> arr_items (shown_events ex) = [] then False
         else getLatestNodeResultsByNodeIds (shown_events ex) (JArr (map JStr preds)) \<noteq> [])"

definition shouldShowOutputByDefault :: "jsval \<Rightarrow> ui_node \<Rightarrow> string \<Rightarrow> bool" where
  "shouldShowOutputByDefault ex n viewMode =
     (ui_type n \<in> set TRIGGER_NODE_TYPES \<or> viewMode = ''execution''
      \<or> hasNodeExecutionData ex (case ui_id n of Some i \<Rightarrow> i | None \<Rightarrow> []))"

record columns =
  col_trigger :: bool
  col_execution :: bool
  col_input :: bool
  col_output :: bool

definition showInputColumn :: "columns \<Rightarrow> bool" where
  "showInputColumn c = (\<not> col_trigger c \<and> (col_execution c \<or> col_input c))"

definition showOutputColumn :: "columns \<Rightarrow> bool" where
  "showOutputColumn c = (col_trigger c \<or> col_execution c \<or> col_output c)"

definition inputRailVisible :: "columns \<Rightarrow> bool" where
  "inputRailVisible c = (\<not> col_trigger c \<and> \<not> col_execution c \<and> \<not> col_input c)"

definition outputRailVisible :: "columns \<Rightarrow> bool" where
  "outputRailVisible c = (\<not> col_trigger c \<and> \<not> col_execution c \<and> \<not> col_output c)"

definition toggleSidePanel :: "string \<Rightarrow> columns \<Rightarrow> columns" where
  "toggleSidePanel panelKey c =
     (if panelKey = ''input'' then c\<lparr>col_input := \<not> col_input c\<rparr>
      else if panelKey = ''output'' then c\<lparr>col_output := \<not> col_output c\<rparr> else c)"

definition collapsePanel :: "string \<Rightarrow> columns \<Rightarrow> columns" where
  "collapsePanel panelKey c = (if col_execution c then c else toggleSidePanel panelKey c)"

subsection \<open>The context of expressions\<close>

definition normalizeItems :: "jsval \<Rightarrow> jsval list" where
  "normalizeItems v = (case v of JArr xs \<Rightarrow> xs | _ \<Rightarrow> if nullish v then [] else [v])"

definition first_item :: "jsval \<Rightarrow> jsval" where
  "first_item v = (case normalizeItems v of [] \<Rightarrow> v | x # _ \<Rightarrow> x)"

definition input_context :: "jsval \<Rightarrow> jsval \<Rightarrow> jsobj" where
  "input_context item v =
     (let ctx = [(''item'', item), (''json'', v), (''items'', JArr (normalizeItems v))]
      in case v of JObj ps \<Rightarrow> obj_assign ps ctx | _ \<Rightarrow> ctx)"

text \<open>The canvas and the panel each have a function that builds \<open>_input\<close>; they choose the first item differently.\<close>

definition canvas_buildInputContext :: "jsval \<Rightarrow> jsobj" where
  "canvas_buildInputContext v =
     input_context (js_or (case normalizeItems v of [] \<Rightarrow> JUndef | x # _ \<Rightarrow> x) v) v"

definition buildInputContextFromValue :: "jsval \<Rightarrow> jsobj" where
  "buildInputContextFromValue v = input_context (first_item v) v"

definition buildNodeOutputView :: "jsval \<Rightarrow> jsval" where
  "buildNodeOutputView v = JObj [(''json'', v), (''item'', first_item v), (''items'', JArr (normalizeItems v))]"

record preview_context =
  pc_vars :: jsval
  pc_node :: jsobj
  pc_json :: jsval
  pc_loop :: jsval
  pc_input :: jsobj
  pc_execution :: jsval
  pc_workflow :: jsval
  pc_now :: jsval
  pc_today :: jsval

definition emptyContext :: preview_context where
  "emptyContext =
     \<lparr>pc_vars = JObj [], pc_node = [], pc_json = JObj [], pc_loop = JNull, pc_input = canvas_buildInputContext JNull,
      pc_execution = JNull, pc_workflow = JNull, pc_now = JNull, pc_today = JNull\<rparr>"

record context_options =
  co_execution :: jsval
  co_nodeId :: string
  co_nodeResults :: jsval

definition wrapped_nodes :: "jsval \<Rightarrow> string \<Rightarrow> string list \<Rightarrow> jsval \<Rightarrow> jsobj" where
  "wrapped_nodes nodeResults nodeId preds snapshot =
     (if is_array nodeResults \<and> arr_items nodeResults \<noteq> []
      then foldl (\<lambda>m r. obj_set (js_string (js_prop r ''node_id'')) (buildNodeOutputView (js_prop r ''output_data'')) m) []
             (if nodeId \<noteq> [] then getLatestNodeResultsByNodeIds nodeResults (JArr (map JStr preds)) else arr_items nodeResults)
      else foldl (\<lambda>m (k, out). if nodeId \<noteq> [] \<and> k \<notin> set preds then m else obj_set k (buildNodeOutputView out) m) []
             (own_props (js_or (js_prop snapshot ''node'') (JObj []))))"

definition preview_json :: "jsval \<Rightarrow> string \<Rightarrow> string list \<Rightarrow> jsval \<Rightarrow> jsval" where
  "preview_json nodeResults nodeId parents snapshot =
     (let json = js_or (js_prop snapshot ''json'') (JObj []);
          nodes = own_props (js_or (js_prop snapshot ''node'') (JObj []))
      in if nodeId \<noteq> [] \<and> is_array nodeResults \<and> arr_items nodeResults \<noteq> []
         then (case getLatestNodeResultForNodeIds nodeResults (JArr (map JStr parents)) of
                 Some r \<Rightarrow> if js_prop r ''output_data'' \<noteq> JUndef then js_prop r ''output_data'' else json
               | None \<Rightarrow> json)
         else if nodeId \<noteq> []
         then (case List.find (\<lambda>p. p \<in> set (map_keys nodes)) (rev parents) of
                 Some p \<Rightarrow> js_prop (JObj nodes) p
               | None \<Rightarrow> json)
         else json)"

definition buildExecutionContext :: "jsval \<Rightarrow> jsval \<Rightarrow> context_options option \<Rightarrow> preview_context" where
  "buildExecutionContext workflow executionState options =
     (let ex = (case options of Some o' \<Rightarrow> js_or (co_execution o') executionState | None \<Rightarrow> executionState);
          snapshot = js_prop ex ''contextSnapshot'';
          results = js_or (js_prop ex ''nodeResults'') (JArr []);
          nodeResults = (case options of Some o' \<Rightarrow> js_or (co_nodeResults o') results | None \<Rightarrow> results);
          nodeId = (case options of Some o' \<Rightarrow> co_nodeId o' | None \<Rightarrow> []);
          json = preview_json nodeResults nodeId (getStructuralParentIds workflow (JStr nodeId)) snapshot
      in if \<not> truthy ex \<or> \<not> truthy snapshot then emptyContext
         else \<lparr>pc_vars = js_or (js_prop snapshot ''vars'') (JObj []),
               pc_node = wrapped_nodes nodeResults nodeId (getStructuralPredecessorIds workflow (JStr nodeId)) snapshot,
               pc_json = json, pc_loop = JNull, pc_input = canvas_buildInputContext json,
               pc_execution = js_or (js_prop snapshot ''execution'') JNull, pc_workflow = js_or (js_prop snapshot ''workflow'') JNull,
               pc_now = js_or (js_prop snapshot ''now'') JNull, pc_today = js_or (js_prop snapshot ''today'') JNull\<rparr>)"

definition inputData :: "jsval \<Rightarrow> jsval \<Rightarrow> ui_node \<Rightarrow> exec_view \<Rightarrow> jsval" where
  "inputData workflow executionState n xv =
     (let fallback =
            (if truthy (xv_execution xv)
             then pc_json (buildExecutionContext workflow executionState
                    (Some \<lparr>co_execution = xv_execution xv, co_nodeId = (case ui_id n of Some i \<Rightarrow> i | None \<Rightarrow> []),
                           co_nodeResults = js_or (js_prop (xv_execution xv) ''nodeResults'') (JArr [])\<rparr>))
             else JUndef)
      in case selectedExecutionEvent n xv of
           Some e \<Rightarrow> if js_prop e ''input_data'' \<noteq> JUndef then js_prop e ''input_data''
                     else if fallback \<noteq> JUndef then fallback else if truthy workflow then JObj [] else JNull
         | None \<Rightarrow> if fallback \<noteq> JUndef then fallback else if truthy workflow then JObj [] else JNull)"

text \<open>The panel shows what a node received in the selected iteration in place of the output of its parent. Without
  results the context the canvas passes for a node (\<open>buildContextForNode\<close>) is empty.\<close>

definition expressionPreviewContext :: "jsval \<Rightarrow> jsval \<Rightarrow> ui_node \<Rightarrow> exec_view \<Rightarrow> preview_context" where
  "expressionPreviewContext workflow executionState n xv =
     (let results = js_prop (xv_execution xv) ''nodeResults'' in
      if truthy (xv_execution xv) \<and> is_array results \<and> arr_items results \<noteq> []
      then (let base = buildExecutionContext workflow executionState
                         (Some \<lparr>co_execution = xv_execution xv,
                                co_nodeId = (case ui_id n of Some i \<Rightarrow> i | None \<Rightarrow> []), co_nodeResults = results\<rparr>)
            in case selectedExecutionEvent n xv of
                 Some e \<Rightarrow>
                   if js_prop e ''input_data'' \<noteq> JUndef
                   then base\<lparr>pc_json := js_prop e ''input_data'',
                             pc_input := buildInputContextFromValue (js_prop e ''input_data'')\<rparr>
                   else base
               | None \<Rightarrow> base)
      else (let base = buildExecutionContext workflow executionState None;
                json = (if truthy workflow then JObj [] else js_or (inputData workflow executionState n xv) (JObj []))
            in base\<lparr>pc_node := (if truthy workflow then [] else pc_node base), pc_json := json,
                    pc_input := buildInputContextFromValue json\<rparr>))"

subsection \<open>The data of the nodes before\<close>

definition filterPredecessorResults :: "jsval \<Rightarrow> jsval \<Rightarrow> string \<Rightarrow> jsval list" where
  "filterPredecessorResults workflow results nodeId =
     (if \<not> truthy workflow \<or> \<not> truthy (js_prop workflow ''connections'')
      then filter (\<lambda>r. js_prop r ''node_id'' \<noteq> JStr nodeId) (arr_items results)
      else getLatestNodeResultsByNodeIds results (JArr (map JStr (getStructuralPredecessorIds workflow (JStr nodeId)))))"

record left_row =
  lr_nodeId :: string
  lr_json :: jsval
  lr_title :: jsval
  lr_isInput :: bool

text \<open>Without results there is nothing to show: the context the canvas passes to the panel names no node.\<close>

definition leftPanelData :: "jsval \<Rightarrow> ui_node \<Rightarrow> exec_view \<Rightarrow> left_row list" where
  "leftPanelData workflow n xv =
     (let results = js_prop (xv_execution xv) ''nodeResults'';
          rs = filterPredecessorResults workflow results (case ui_id n of Some i \<Rightarrow> i | None \<Rightarrow> ''undefined'');
          input = (case selectedExecutionEvent n xv of
                     Some e \<Rightarrow> if js_prop e ''input_data'' \<noteq> JUndef then js_prop e ''input_data'' else JNull
                   | None \<Rightarrow> JNull)
      in if \<not> (truthy (xv_execution xv) \<and> is_array results \<and> arr_items results \<noteq> []) then []
         else map (\<lambda>i. let r = rs ! i; isInput = (Suc i = length rs) in
                \<lparr>lr_nodeId = js_string (js_prop r ''node_id''),
                 lr_json = (if isInput \<and> input \<noteq> JNull then input else js_prop r ''output_data''),
                 lr_title = js_or (js_prop r ''title'') (js_or (js_prop r ''node_label'')
                              (js_or (js_prop r ''node_type'') (js_prop r ''node_id''))),
                 lr_isInput = isInput\<rparr>) [0..<length rs])"

definition initAncestorCollapseState :: "left_row list \<Rightarrow> (string \<times> bool) list \<Rightarrow> (string \<times> bool) list" where
  "initAncestorCollapseState rows collapsed =
     foldl (\<lambda>m (k, v). obj_set k v m)
       (foldl (\<lambda>m r. obj_set (lr_nodeId r) (\<not> lr_isInput r) m) [(''_context'', True)] rows) collapsed"

definition isSectionCollapsed :: "string \<Rightarrow> (string \<times> bool) list \<Rightarrow> bool" where
  "isSectionCollapsed nodeId collapsed = (map_of collapsed nodeId = Some True)"

definition toggleAncestorSection :: "string \<Rightarrow> (string \<times> bool) list \<Rightarrow> (string \<times> bool) list" where
  "toggleAncestorSection nodeId collapsed = obj_set nodeId (\<not> isSectionCollapsed nodeId collapsed) collapsed"

subsection \<open>Pinning\<close>

definition canTogglePin :: "bool \<Rightarrow> jsval option \<Rightarrow> bool" where
  "canTogglePin pinned selected =
     (pinned \<or> (case selected of
        None \<Rightarrow> False
      | Some e \<Rightarrow> \<not> truthy (js_prop e ''error_message'')
                  \<and> (truthy (js_prop e ''node_run_id'') \<or> \<not> nullish (js_prop e ''output_data''))))"

definition inline_pin :: "jsval \<Rightarrow> jsval" where
  "inline_pin e = JObj [(''output_data'', js_prop e ''output_data''), (''input_data'', js_prop e ''input_data''),
     (''node_type'', js_prop e ''node_type''), (''node_label'', js_or (js_prop e ''node_label'') (js_prop e ''title'')),
     (''output_socket'', js_prop e ''output_socket'')]"

definition pin_and_save :: "string \<Rightarrow> jsval \<Rightarrow> jsval + jsval \<Rightarrow> store \<Rightarrow> store" where
  "pin_and_save nodeId v saved st =
     (case pinNodeData nodeId v st of
        (None, st') \<Rightarrow> snd (saveWorkflow saved st')
      | (Some e, st') \<Rightarrow> st')"

text \<open>\<open>run\<close> is the reply with the details of the run, \<open>saved\<close> the reply to saving; what is thrown is caught.\<close>

definition onTogglePin :: "bool \<Rightarrow> string \<Rightarrow> jsval option \<Rightarrow> jsval + jsval \<Rightarrow> jsval + jsval \<Rightarrow> store \<Rightarrow> store" where
  "onTogglePin busy nodeId selected run saved st =
     (if busy then st
      else if isNodePinned nodeId st then snd (saveWorkflow saved (unpinNodeData nodeId st))
      else case selected of
             None \<Rightarrow> st
           | Some e \<Rightarrow>
               if truthy (js_prop e ''error_message'') then st
               else if truthy (js_prop e ''node_run_id'')
               then (case run of
                       Inl _ \<Rightarrow> st
                     | Inr r \<Rightarrow>
                         if \<not> truthy r \<or> truthy (js_prop r ''error'') then st
                         else (case replaceExecutionNodeResult r st of
                                 (Some err, st1) \<Rightarrow> st1
                               | (None, st1) \<Rightarrow>
                                   pin_and_save nodeId (js_or (js_prop r ''node_run_id'') (js_prop e ''node_run_id'')) saved st1))
               else pin_and_save nodeId (inline_pin e) saved st)"


subsection \<open>The shown event\<close>

lemma entry_groups: "entry (outputSocketGroups events) k = filter (\<lambda>e. event_socket e = k) events"
  unfolding outputSocketGroups_def by (subst entry_foldl_push) (simp add: entry_def)

lemma keys_groups: "set (map_keys (outputSocketGroups events)) = event_socket ` set events"
proof -
  have "set (map_keys (foldl (\<lambda>m e. push_at (event_socket e) e m) m es)) = set (map_keys m) \<union> event_socket ` set es" for m es
    by (induction es arbitrary: m) (auto simp: push_at_def jsm.set_keys_put simp del: set_map)
  from this [of "[]" events] show ?thesis by (simp add: outputSocketGroups_def)
qed

lemma tab_ids: "tab_id ` set (map (socket_tab_of outs) groups) = set (map_keys groups)"
  by (auto simp: socket_tab_of_def Let_def image_comp comp_def)

lemma active_socket:
  assumes "events \<noteq> []"
  shows "activeOutputSocket outs selected events \<in> event_socket ` set events"
    and "selected = Some s \<Longrightarrow> s \<noteq> [] \<Longrightarrow> s \<in> event_socket ` set events \<Longrightarrow> activeOutputSocket outs selected events = s"
proof -
  let ?g = "outputSocketGroups events"
  have g: "?g \<noteq> []" using keys_groups [of events] assms by auto
  note ids = tab_ids [of outs ?g, unfolded keys_groups]
  show "activeOutputSocket outs selected events \<in> event_socket ` set events"
  proof (cases "outputSocketTabs outs events")
    case Nil
    then have "''_default'' \<in> set (map_keys ?g)" using g by (auto simp: outputSocketTabs_def Let_def split: if_splits)
    then show ?thesis using Nil keys_groups by (simp add: activeOutputSocket_def)
  next
    case (Cons t ts)
    then have "map (socket_tab_of outs) ?g = t # ts" by (auto simp: outputSocketTabs_def Let_def split: if_splits)
    then show ?thesis using ids Cons by (auto simp: activeOutputSocket_def split: option.splits)
  qed
  show "activeOutputSocket outs selected events = s" if s: "selected = Some s" "s \<noteq> []" "s \<in> event_socket ` set events"
  proof (cases "outputSocketTabs outs events")
    case Nil
    then have "''_default'' \<in> set (map_keys ?g)" "length ?g \<le> 1" using g by (auto simp: outputSocketTabs_def Let_def split: if_splits)
    then have "set (map_keys ?g) = {''_default''}" by (cases ?g) auto
    then show ?thesis using Nil s keys_groups by (auto simp: activeOutputSocket_def)
  next
    case (Cons t ts)
    then have "map (socket_tab_of outs) ?g = t # ts" by (auto simp: outputSocketTabs_def Let_def split: if_splits)
    then show ?thesis using ids Cons s by (auto simp: activeOutputSocket_def)
  qed
qed


abbreviation demo_event :: "string \<Rightarrow> rat \<Rightarrow> jsval" where
  "demo_event socket v \<equiv> JObj [(''node_id'', JStr ''n_1''), (''output_socket'', JStr socket), (''output_data'', JNum v)]"

abbreviation demo_view :: "string option \<Rightarrow> exec_view" where
  "demo_view socket \<equiv>
     \<lparr>xv_execution = JObj [(''executionEvents'', JArr [demo_event ''loop'' 1, demo_event ''loop'' 2, demo_event ''done'' 3])],
      xv_socket = socket, xv_version = None\<rparr>"


subsection \<open>Previews see only what ran before\<close>

lemma latest_allowed:
  assumes "r \<in> set (getLatestNodeResultsByNodeIds results (JArr (map JStr ids)))"
  shows "js_string (js_prop r ''node_id'') \<in> set ids"
proof -
  let ?k = "\<lambda>r. js_string (js_prop r ''node_id'')"
  have allowed: "allowed_ids (JArr (map JStr ids)) = ids" by (simp add: allowed_ids_def js_or_def comp_def)
  let ?f = "\<lambda>m r. if has_node_id r \<and> ?k r \<in> set ids then map_set (?k r) r (map_del (?k r) m) else m"
  have "\<forall>p \<in> set (foldl ?f [] rs). ?k (snd p) \<in> set ids" for rs
    by (induction rs rule: rev_induct) (auto simp: map_set_del set_map_del simp del: js_prop.simps)
  from this [of "arr_items results"] show ?thesis
    using assms by (auto simp: getLatestNodeResultsByNodeIds_def allowed split: if_splits simp del: js_prop.simps)
qed

lemma wrapped_keys:
  assumes "nodeId \<noteq> []"
  shows "set (map_keys (wrapped_nodes nodeResults nodeId preds snapshot)) \<subseteq> set preds"
proof -
  have A: "set (map_keys (foldl (\<lambda>m r. obj_set (js_string (js_prop r ''node_id'')) (f r) m) [] rs)) \<subseteq> set preds"
    if "\<forall>r \<in> set rs. js_string (js_prop r ''node_id'') \<in> set preds" for rs f
    using that by (induction rs rule: rev_induct) (simp_all add: jso.set_keys_put del: js_prop.simps set_map)
  have B: "set (map_keys (foldl (\<lambda>m (k, out). if k \<notin> set preds then m else obj_set k (g out) m) [] xs)) \<subseteq> set preds" for xs g
    by (induction xs rule: rev_induct) (auto simp: jso.set_keys_put simp del: set_map split: if_splits)
  have C: "\<forall>r \<in> set (getLatestNodeResultsByNodeIds nodeResults (JArr (map JStr preds))). js_string (js_prop r ''node_id'') \<in> set preds"
    using latest_allowed by blast
  show ?thesis using A [OF C, of "\<lambda>r. buildNodeOutputView (js_prop r ''output_data'')"] B [of buildNodeOutputView] assms
    by (simp add: wrapped_nodes_def del: js_prop.simps set_map)
qed

text \<open>C35: the context in which the expressions of a node are previewed names only nodes from which a structural path leads to
  that node, whatever the run or its snapshot holds: neither the node itself nor a node after it, nor a node of the loop
  it is in that runs later.\<close>

theorem preview_sees_only_ancestors:
  assumes "co_nodeId opts \<noteq> []" and "(k, v) \<in> set (pc_node (buildExecutionContext workflow executionState (Some opts)))"
  shows "(k, co_nodeId opts) \<in> (conn_rel (getStructuralConnections (js_prop workflow ''connections'')))\<^sup>+ \<and> k \<noteq> co_nodeId opts"
proof -
  let ?R = "conn_rel (getStructuralConnections (js_prop workflow ''connections''))"
  have "k \<in> set (map_keys (pc_node (buildExecutionContext workflow executionState (Some opts))))" using assms(2) by force
  then have k: "k \<in> set (getStructuralPredecessorIds workflow (JStr (co_nodeId opts)))"
    using wrapped_keys [OF assms(1)] by (auto simp: buildExecutionContext_def emptyContext_def Let_def split: if_splits simp del: js_prop.simps set_map)
  then have "truthy workflow" by (auto simp: getStructuralPredecessorIds_def split: if_splits)
  then have "(k, co_nodeId opts) \<in> ?R\<^sup>+" using predecessors_correct [of workflow "JStr (co_nodeId opts)"] k assms(1) by auto
  then show ?thesis using structural_acyclic [of "js_prop workflow ''connections''"] by (auto simp: acyclic_def)
qed

theorem preview_sees_only_ancestors_witness:
  "\<exists>v. (''n_1'', v) \<in> set (pc_node (buildExecutionContext (JObj [(''connections'', JArr [demo_conn ''1'' ''n_1'' ''n_2''])]) JNull
       (Some \<lparr>co_execution = JObj [(''contextSnapshot'', JObj [(''json'', JNull)])], co_nodeId = ''n_2'',
              co_nodeResults = JArr [demo_event ''main'' 1]\<rparr>)))
     \<and> (''n_1'', ''n_2'') \<in> (conn_rel (getStructuralConnections (JArr [demo_conn ''1'' ''n_1'' ''n_2''])))\<^sup>+"
proof -
  let ?wf = "JObj [(''connections'', JArr [demo_conn ''1'' ''n_1'' ''n_2''])]"
  let ?opts = "\<lparr>co_execution = JObj [(''contextSnapshot'', JObj [(''json'', JNull)])], co_nodeId = ''n_2'',
              co_nodeResults = JArr [demo_event ''main'' 1]\<rparr>"
  have p: "getStructuralPredecessorIds ?wf (JStr ''n_2'') = [''n_1'']" by code_simp
  have "(''n_1'', buildNodeOutputView (JNum 1)) \<in> set (pc_node (buildExecutionContext ?wf JNull (Some ?opts)))"
    by (simp add: buildExecutionContext_def Let_def js_or_def p wrapped_nodes_def getLatestNodeResultsByNodeIds_def allowed_ids_def has_node_id_def
        map_set_def map_del_def obj_set_def)
  with preview_sees_only_ancestors [of ?opts "''n_1''" "buildNodeOutputView (JNum 1)" ?wf JNull] show ?thesis by auto
qed

text \<open>The context of the canvas takes the whole value in place of a first item that is falsy, the panel takes the item.\<close>

theorem input_item_differs:
  "map_of (canvas_buildInputContext (JArr (x # xs))) ''item'' = Some (if truthy x then x else JArr (x # xs))
   \<and> map_of (buildInputContextFromValue (JArr (x # xs))) ''item'' = Some x"
  by (simp add: canvas_buildInputContext_def buildInputContextFromValue_def input_context_def normalizeItems_def first_item_def js_or_def)

subsection \<open>Pinning twice\<close>

lemma saveWorkflow_pins: "pinData (snd (saveWorkflow r st)) = pinData st"
  by (simp add: saveWorkflow_def bus_trigger_def split: sum.split)

lemma pinNodeData_pins:
  "nodeId \<noteq> [] \<Longrightarrow> \<exists>st'. pinNodeData nodeId (JObj ps) st = (None, st') \<and> pinData st' = obj_set nodeId (JObj ps) (pinData st)"
  by (simp add: pinNodeData_def stored_pin_def pin_event_def bus_trigger_def Let_def)

text \<open>Pinning the output of a preview run and toggling the pin again leaves the pinned data as they were; in between
  the node is pinned to what the panel showed.\<close>

theorem pin_toggle_twice:
  assumes "nodeId \<noteq> []" and "\<not> isNodePinned nodeId st" and "\<not> truthy (js_prop e ''error_message'')" and "\<not> truthy (js_prop e ''node_run_id'')"
    and "st1 = onTogglePin False nodeId (Some e) run saved st" and "st2 = onTogglePin False nodeId sel run' saved' st1"
  shows "map_of (pinData st1) nodeId = Some (inline_pin e) \<and> map_of (pinData st2) = map_of (pinData st)"
proof -
  obtain st' where st': "pinNodeData nodeId (inline_pin e) st = (None, st')" "pinData st' = obj_set nodeId (inline_pin e) (pinData st)"
    using pinNodeData_pins [OF assms(1)] unfolding inline_pin_def by metis
  then have p1: "pinData st1 = obj_set nodeId (inline_pin e) (pinData st)"
    using assms(2-5) by (simp add: onTogglePin_def pin_and_save_def saveWorkflow_pins del: js_prop.simps)
  then have "isNodePinned nodeId st1" by (simp add: isNodePinned_def jso.set_keys_put del: set_map)
  then have "pinData st2 = obj_del nodeId (pinData st1)"
    using assms(6) by (simp add: onTogglePin_def saveWorkflow_pins unpinNodeData_def pin_event_def bus_trigger_def Let_def)
  moreover have "map_of (pinData st) nodeId = None" using assms(2) by (simp add: isNodePinned_def map_of_eq_None_iff)
  ultimately show ?thesis using p1 by (simp add: jso.get_remove jso.get_put fun_upd_idem)
qed

end
