(* ===== verification/Panel_Navigation.thy ===== *)
theory Panel_Navigation
  imports Graph_Utils "HOL-Library.Sorting_Algorithms"
begin

section \<open>Navigation between panels (components/config_panel_dialog.js)\<close>

text \<open>
  The links from the panel of a node to the panels of its neighbours, and the two menus that show them when there are
  several (components/node_config_panel.js). \<open>localeCompare\<close> of the host is the parameter \<open>locale_cmp\<close>, a comparator: a
  total preorder, as its specification demands.
\<close>

subsection \<open>Options\<close>

definition getNodeDisplayName :: "jsval \<Rightarrow> string" where
  "getNodeDisplayName node =
     (if \<not> truthy node then ''Unknown node''
      else js_string (js_or (js_prop node ''title'') (js_or (js_prop node ''label'') (js_or (js_prop node ''type'')
             (JStr (''Node '' @ js_string (js_prop node ''id'')))))))"

text \<open>The arrow between the two handles, in UTF-8.\<close>

definition ARROW :: string where
  "ARROW = [CHR 0x20, CHR 0xE2, CHR 0x86, CHR 0x92, CHR 0x20]"

definition handle_of :: "string \<Rightarrow> string \<Rightarrow> string \<Rightarrow> jsval \<Rightarrow> string" where
  "handle_of a b c conn = js_string (js_or (js_prop conn a) (js_or (js_prop conn b) (js_or (js_prop conn c) (JStr []))))"

definition getSocketLabel :: "jsval \<Rightarrow> string" where
  "getSocketLabel conn =
     (let s = handle_of ''sourceHandle'' ''source_socket'' ''sourceSocket'' conn;
          t = handle_of ''targetHandle'' ''target_socket'' ''targetSocket'' conn
      in if s \<noteq> [] \<and> t \<noteq> [] then s @ ARROW @ t else if s \<noteq> [] then s else t)"

record nav_option =
  no_key :: string
  no_nodeId :: jsval
  no_title :: string
  no_socketLabel :: string

definition node_map :: "jsval \<Rightarrow> (string, jsval) js_map" where
  "node_map workflow =
     foldl (\<lambda>m n. map_set (js_string (js_prop n ''id'')) n m) [] (arr_items (js_prop workflow ''nodes''))"

definition neighbor_id :: "bool \<Rightarrow> jsval \<Rightarrow> string" where
  "neighbor_id next conn = (if next then gc_target conn else gc_source conn)"

definition own_end :: "bool \<Rightarrow> jsval \<Rightarrow> string" where
  "own_end next conn = (if next then gc_source conn else gc_target conn)"

definition nav_option_of :: "bool \<Rightarrow> (string, jsval) js_map \<Rightarrow> jsval \<Rightarrow> nav_option option" where
  "nav_option_of next nodes conn =
     map_option (\<lambda>n.
       \<lparr>no_key = js_string (js_or (js_prop conn ''id'')
          (JStr ((if next then ''next'' else ''previous'') @ '':'' @ neighbor_id next conn @ '':'' @ getSocketLabel conn))),
        no_nodeId = js_prop n ''id'', no_title = getNodeDisplayName n, no_socketLabel = getSocketLabel conn\<rparr>)
       (map_of nodes (neighbor_id next conn))"

definition unsorted_options :: "bool \<Rightarrow> jsval \<Rightarrow> jsval \<Rightarrow> nav_option list" where
  "unsorted_options next workflow node =
     (if \<not> truthy workflow \<or> \<not> truthy node then []
      else List.map_filter (nav_option_of next (node_map workflow))
             (filter (\<lambda>c. own_end next c = js_string (js_prop node ''id''))
                (getStructuralConnections (js_or (js_prop workflow ''connections'') (JArr [])))))"

definition getNavigationOptions :: "string comparator \<Rightarrow> bool \<Rightarrow> jsval \<Rightarrow> jsval \<Rightarrow> nav_option list" where
  "getNavigationOptions locale_cmp next workflow node =
     Sorting_Algorithms.sort (key (\<lambda>opt. (no_title opt, no_socketLabel opt)) (prod_lex locale_cmp locale_cmp))
       (unsorted_options next workflow node)"

record nav_model =
  nv_heading :: string
  nv_hasMultiple :: bool
  nv_hasOptions :: bool
  nv_primary :: "nav_option option"
  nv_options :: "nav_option list"
  nv_summaryTitle :: string
  nv_summaryMeta :: string

definition nav_model_of :: "bool \<Rightarrow> nav_option list \<Rightarrow> nav_model" where
  "nav_model_of next options =
     (let primary = (case options of [x] \<Rightarrow> Some x | _ \<Rightarrow> None); several = (length options > 1)
      in \<lparr>nv_heading = (if next then ''Next'' else ''Previous''), nv_hasMultiple = several, nv_hasOptions = (options \<noteq> []),
          nv_primary = primary, nv_options = options,
          nv_summaryTitle = (case primary of
              Some x \<Rightarrow> no_title x
            | None \<Rightarrow> (if several then ''Choose '' else ''No '') @ (if next then ''next'' else ''previous'') @ '' node''),
          nv_summaryMeta = (case primary of
              Some x \<Rightarrow> no_socketLabel x
            | None \<Rightarrow> if several then show_nat (length options) @ '' direct connections''
                      else if next then ''This node has no outgoing connections'' else ''This node has no incoming connections'')\<rparr>)"

definition getNavigationModel :: "string comparator \<Rightarrow> bool \<Rightarrow> jsval \<Rightarrow> jsval \<Rightarrow> nav_model" where
  "getNavigationModel locale_cmp next workflow node = nav_model_of next (getNavigationOptions locale_cmp next workflow node)"

definition getPrimaryNavigationOption :: "nav_model \<Rightarrow> nav_option option" where
  "getPrimaryNavigationOption nav =
     (case nv_primary nav of
        Some x \<Rightarrow> Some x
      | None \<Rightarrow> (case nv_options nav of [] \<Rightarrow> None | x # _ \<Rightarrow> Some x))"

subsection \<open>The menus\<close>

record nav_menu =
  nm_open :: bool
  nm_closeTimer :: bool
  nm_active :: "string option"
  nm_width :: int

type_synonym nav_menus = "bool \<Rightarrow> nav_menu"

definition closed_menus :: nav_menus where
  "closed_menus = (\<lambda>_. \<lparr>nm_open = False, nm_closeTimer = False, nm_active = None, nm_width = 0\<rparr>)"

definition clearNavMenuCloseTimer :: "bool \<Rightarrow> nav_menus \<Rightarrow> nav_menus" where
  "clearNavMenuCloseTimer d m = m(d := (m d)\<lparr>nm_closeTimer := False\<rparr>)"

definition scheduleNavMenuClose :: "bool \<Rightarrow> nav_menus \<Rightarrow> nav_menus" where
  "scheduleNavMenuClose d m = (clearNavMenuCloseTimer d m)(d := (m d)\<lparr>nm_closeTimer := True\<rparr>)"

definition runNavMenuClose :: "bool \<Rightarrow> nav_menus \<Rightarrow> nav_menus" where
  "runNavMenuClose d m = (if nm_closeTimer (m d) then m(d := (m d)\<lparr>nm_open := False, nm_closeTimer := False\<rparr>) else m)"

definition primeNavActiveOption :: "(bool \<Rightarrow> nav_model) \<Rightarrow> bool \<Rightarrow> nav_menus \<Rightarrow> nav_menus" where
  "primeNavActiveOption nav d m = m(d := (m d)\<lparr>nm_active := map_option no_key (getPrimaryNavigationOption (nav d))\<rparr>)"

definition captureNavTriggerMetrics :: "bool \<Rightarrow> rat \<Rightarrow> nav_menus \<Rightarrow> nav_menus" where
  "captureNavTriggerMetrics d width m = m(d := (m d)\<lparr>nm_width := \<lceil>width\<rceil>\<rparr>)"

definition menu_open :: "bool \<Rightarrow> bool \<Rightarrow> nav_menus \<Rightarrow> nav_menus" where
  "menu_open d b m = m(d := (m d)\<lparr>nm_open := b\<rparr>)"

definition onNavTriggerMouseEnter :: "(bool \<Rightarrow> nav_model) \<Rightarrow> bool \<Rightarrow> rat \<Rightarrow> nav_menus \<Rightarrow> nav_menus" where
  "onNavTriggerMouseEnter nav d width m =
     (if \<not> nv_hasMultiple (nav d) then m
      else menu_open d True (menu_open (\<not> d) False (clearNavMenuCloseTimer (\<not> d)
             (primeNavActiveOption nav d (clearNavMenuCloseTimer d (captureNavTriggerMetrics d width m))))))"

definition onNavMenuMouseEnter :: "(bool \<Rightarrow> nav_model) \<Rightarrow> bool \<Rightarrow> nav_menus \<Rightarrow> nav_menus" where
  "onNavMenuMouseEnter nav d m = primeNavActiveOption nav d (clearNavMenuCloseTimer d m)"

definition onNavMenuMouseOver :: "bool \<Rightarrow> string option \<Rightarrow> nav_menus \<Rightarrow> nav_menus" where
  "onNavMenuMouseOver d item m =
     (case item of
        Some k \<Rightarrow> if k = [] then m else m(d := (m d)\<lparr>nm_active := Some k\<rparr>)
      | None \<Rightarrow> m)"

definition getNavMenuStyle :: "bool \<Rightarrow> nav_menus \<Rightarrow> int" where
  "getNavMenuStyle d m = max 220 (nm_width (m d))"

text \<open>Following a link closes both menus and opens the panel of the other node, whose id is the result.\<close>

definition panel_onNavigateToNode :: "jsval \<Rightarrow> nav_menus \<Rightarrow> jsval option \<times> nav_menus" where
  "panel_onNavigateToNode nodeId m =
     (if \<not> truthy nodeId then (None, m)
      else (Some nodeId, menu_open True False (menu_open False False
              (clearNavMenuCloseTimer True (clearNavMenuCloseTimer False m)))))"

definition onPrimaryNavClick :: "(bool \<Rightarrow> nav_model) \<Rightarrow> bool \<Rightarrow> rat \<Rightarrow> nav_menus \<Rightarrow> jsval option \<times> nav_menus" where
  "onPrimaryNavClick nav d width m =
     (case getPrimaryNavigationOption (nav d) of
        None \<Rightarrow> (None, m)
      | Some x \<Rightarrow> panel_onNavigateToNode (no_nodeId x)
                   (menu_open d False (primeNavActiveOption nav d (captureNavTriggerMetrics d width m))))"

definition onNavOptionSelected :: "bool \<Rightarrow> nav_option \<Rightarrow> nav_menus \<Rightarrow> jsval option \<times> nav_menus" where
  "onNavOptionSelected d opt m = panel_onNavigateToNode (no_nodeId opt) (m(d := (m d)\<lparr>nm_active := Some (no_key opt)\<rparr>))"

datatype nav_event =
    NTriggerEnter bool rat
  | NTriggerLeave bool
  | NMenuEnter bool
  | NMenuOver bool "string option"
  | NMenuLeave bool
  | NOpened bool
  | NTimer bool
  | NPrimary bool rat
  | NOption bool nav_option

fun nav_step :: "(bool \<Rightarrow> nav_model) \<Rightarrow> nav_event \<Rightarrow> nav_menus \<Rightarrow> nav_menus" where
  "nav_step nav (NTriggerEnter d w) m = onNavTriggerMouseEnter nav d w m"
| "nav_step nav (NTriggerLeave d) m = scheduleNavMenuClose d m"
| "nav_step nav (NMenuEnter d) m = onNavMenuMouseEnter nav d m"
| "nav_step nav (NMenuOver d k) m = onNavMenuMouseOver d k m"
| "nav_step nav (NMenuLeave d) m = scheduleNavMenuClose d m"
| "nav_step nav (NOpened d) m = primeNavActiveOption nav d m"
| "nav_step nav (NTimer d) m = runNavMenuClose d m"
| "nav_step nav (NPrimary d w) m = snd (onPrimaryNavClick nav d w m)"
| "nav_step nav (NOption d opt) m = snd (onNavOptionSelected d opt m)"

subsection \<open>Options are neighbours\<close>

lemma node_map_get:
  "map_of (node_map workflow) k = Some n \<Longrightarrow> n \<in> set (arr_items (js_prop workflow ''nodes'')) \<and> js_string (js_prop n ''id'') = k"
proof -
  have "map_of (foldl (\<lambda>m n. map_set (js_string (js_prop n ''id'')) n m) [] ns) k = Some n \<Longrightarrow> n \<in> set ns \<and> js_string (js_prop n ''id'') = k" for ns
    by (induction ns rule: rev_induct) (auto simp: jsm.get_put simp del: js_prop.simps split: if_splits)
  then show "map_of (node_map workflow) k = Some n \<Longrightarrow> n \<in> set (arr_items (js_prop workflow ''nodes'')) \<and> js_string (js_prop n ''id'') = k"
    unfolding node_map_def by blast
qed

lemma node_map_defined:
  "n \<in> set (arr_items (js_prop workflow ''nodes'')) \<Longrightarrow> \<exists>n'. map_of (node_map workflow) (js_string (js_prop n ''id'')) = Some n'"
proof -
  have "n \<in> set ns \<Longrightarrow> \<exists>n'. map_of (foldl (\<lambda>m n. map_set (js_string (js_prop n ''id'')) n m) [] ns) (js_string (js_prop n ''id'')) = Some n'" for ns
    by (induction ns rule: rev_induct) (auto simp: jsm.get_put simp del: js_prop.simps)
  then show "n \<in> set (arr_items (js_prop workflow ''nodes'')) \<Longrightarrow> \<exists>n'. map_of (node_map workflow) (js_string (js_prop n ''id'')) = Some n'"
    unfolding node_map_def by blast
qed

lemma set_map_filter: "set (List.map_filter f xs) = {y. \<exists>x \<in> set xs. f x = Some y}"
  by (force simp: List.map_filter_def)

lemma structural_irrefl: "c \<in> set (getStructuralConnections cs) \<Longrightarrow> gc_source c \<noteq> gc_target c"
  using structural_acyclic [of cs] by (force simp: acyclic_def conn_rel_def)

lemma navigation_facts:
  assumes "truthy workflow" and "truthy node" and "cs = getStructuralConnections (js_or (js_prop workflow ''connections'') (JArr []))"
    and "opts = getNavigationOptions cmp next workflow node"
  shows "(\<lambda>x. js_string (no_nodeId x)) ` set opts =
      {neighbor_id next c | c. c \<in> set cs \<and> own_end next c = js_string (js_prop node ''id'')
         \<and> neighbor_id next c \<in> (\<lambda>n. js_string (js_prop n ''id'')) ` set (arr_items (js_prop workflow ''nodes''))}"
    (is "?L = ?R")
    and "js_string (js_prop node ''id'') \<notin> (\<lambda>x. js_string (no_nodeId x)) ` set opts"
    and "Sorting_Algorithms.sorted (key (\<lambda>x. (no_title x, no_socketLabel x)) (prod_lex cmp cmp)) opts"
    and "nv_primary (getNavigationModel cmp next workflow node) = (if length opts = 1 then Some (hd opts) else None)"
proof -
  let ?id = "js_string (js_prop node ''id'')"
  have set: "set opts = {x. \<exists>c \<in> set cs. own_end next c = ?id \<and> nav_option_of next (node_map workflow) c = Some x}"
    using assms by (auto simp: getNavigationOptions_def unsorted_options_def set_map_filter simp del: js_prop.simps)
  have opt: "js_string (no_nodeId x) = neighbor_id next c \<and> neighbor_id next c \<in> (\<lambda>n. js_string (js_prop n ''id'')) ` set (arr_items (js_prop workflow ''nodes''))"
    if "nav_option_of next (node_map workflow) c = Some x" for c x
    using that node_map_get [of workflow "neighbor_id next c"] by (force simp: nav_option_of_def simp del: js_prop.simps)
  have some: "\<exists>x. nav_option_of next (node_map workflow) c = Some x"
    if "neighbor_id next c \<in> (\<lambda>n. js_string (js_prop n ''id'')) ` set (arr_items (js_prop workflow ''nodes''))" for c
    using that node_map_defined by (auto simp: nav_option_of_def simp del: js_prop.simps)
  show LR: "?L = ?R"
  proof
    show "?L \<subseteq> ?R"
    proof
      fix k assume "k \<in> ?L"
      then obtain c x where c: "c \<in> set cs" "own_end next c = ?id" "nav_option_of next (node_map workflow) c = Some x" "k = js_string (no_nodeId x)"
        unfolding set by blast
      then show "k \<in> ?R" using opt [OF c(3)] by auto
    qed
    show "?R \<subseteq> ?L"
    proof
      fix k assume "k \<in> ?R"
      then obtain c where c: "c \<in> set cs" "own_end next c = ?id" "k = neighbor_id next c"
          "neighbor_id next c \<in> (\<lambda>n. js_string (js_prop n ''id'')) ` set (arr_items (js_prop workflow ''nodes''))"
        by (elim CollectE exE conjE)
      obtain x where x: "nav_option_of next (node_map workflow) c = Some x" using some [OF c(4)] by blast
      then have "x \<in> set opts" unfolding set using c by blast
      then show "k \<in> ?L" using opt [OF x] c(3) by (intro image_eqI [of _ _ x]) simp_all
    qed
  qed
  have irrefl: "neighbor_id next c \<noteq> own_end next c" if "c \<in> set cs" for c
    using structural_irrefl that unfolding assms(3) neighbor_id_def own_end_def by (cases "next") metis+
  show "?id \<notin> ?L"
  proof
    assume "?id \<in> ?L"
    then have "?id \<in> ?R" by (simp only: LR)
    then obtain c where c: "?id = neighbor_id next c" "c \<in> set cs" "own_end next c = ?id"
      by (elim CollectE exE conjE)
    then show False using irrefl [OF c(2)] by (elim notE) (rule trans [OF c(1) [symmetric] c(3) [symmetric]])
  qed
  show "Sorting_Algorithms.sorted (key (\<lambda>x. (no_title x, no_socketLabel x)) (prod_lex cmp cmp)) opts"
    by (simp add: assms(4) getNavigationOptions_def)
  show "nv_primary (getNavigationModel cmp next workflow node) = (if length opts = 1 then Some (hd opts) else None)"
    by (auto simp: getNavigationModel_def nav_model_of_def Let_def assms(4) [symmetric] length_Suc_conv split: list.split)
qed

text \<open>C37: the panel of a node links to exactly the nodes of the workflow one structural connection away in the given direction,
  never to the node itself, in the order of their titles and sockets; a single neighbour is followed at once, several
  are offered in a menu.\<close>

theorem navigation_to_neighbours:
  assumes "truthy workflow" and "truthy node" and "cs = getStructuralConnections (js_or (js_prop workflow ''connections'') (JArr []))"
    and "opts = getNavigationOptions cmp next workflow node"
  shows "(\<lambda>x. js_string (no_nodeId x)) ` set opts =
      {neighbor_id next c | c. c \<in> set cs \<and> own_end next c = js_string (js_prop node ''id'')
         \<and> neighbor_id next c \<in> (\<lambda>n. js_string (js_prop n ''id'')) ` set (arr_items (js_prop workflow ''nodes''))}
    \<and> js_string (js_prop node ''id'') \<notin> (\<lambda>x. js_string (no_nodeId x)) ` set opts
    \<and> Sorting_Algorithms.sorted (key (\<lambda>x. (no_title x, no_socketLabel x)) (prod_lex cmp cmp)) opts
    \<and> nv_primary (getNavigationModel cmp next workflow node) = (if length opts = 1 then Some (hd opts) else None)"
  using navigation_facts [OF assms] by blast

abbreviation nav_workflow :: jsval where
  "nav_workflow \<equiv> JObj [(''nodes'', JArr [JObj [(''id'', JStr ''a'')], JObj [(''id'', JStr ''b''), (''title'', JStr ''B'')]]),
     (''connections'', JArr [demo_conn ''1'' ''a'' ''b''])]"

theorem navigation_to_neighbours_witness:
  "(\<lambda>x. js_string (no_nodeId x)) ` set (getNavigationOptions flat True nav_workflow (JObj [(''id'', JStr ''a'')])) = {''b''}"
proof -
  have cs: "getStructuralConnections (JArr [demo_conn ''1'' ''a'' ''b'']) = [demo_conn ''1'' ''a'' ''b'']" by code_simp
  show ?thesis
    using conjunct1 [OF navigation_to_neighbours [of nav_workflow "JObj [(''id'', JStr ''a'')]", OF _ _ refl refl, of flat True]]
    by (simp add: js_or_def cs own_end_def neighbor_id_def)
qed

subsection \<open>The menus\<close>

definition one_open :: "nav_menus \<Rightarrow> bool" where
  "one_open m \<longleftrightarrow> \<not> (nm_open (m True) \<and> nm_open (m False))"

lemmas nav_defs = onNavTriggerMouseEnter_def scheduleNavMenuClose_def onNavMenuMouseEnter_def onNavMenuMouseOver_def
  primeNavActiveOption_def runNavMenuClose_def onPrimaryNavClick_def onNavOptionSelected_def panel_onNavigateToNode_def
  menu_open_def clearNavMenuCloseTimer_def captureNavTriggerMetrics_def

lemma one_open_step: "one_open m \<Longrightarrow> one_open (nav_step nav e m)"
  by (cases e) (auto simp: one_open_def nav_defs split: option.split)

interpretation nvm: op_system "nav_step nav" "\<lambda>_ _. True" one_open for nav
  by unfold_locales (rule one_open_step)

text \<open>The events that take the pointer away from the menu of direction \<open>d\<close>, or follow a link.\<close>

definition leaves_menu :: "(bool \<Rightarrow> nav_model) \<Rightarrow> bool \<Rightarrow> nav_event \<Rightarrow> bool" where
  "leaves_menu nav d e \<longleftrightarrow>
     (case e of
        NTriggerLeave d' \<Rightarrow> d' = d | NMenuLeave d' \<Rightarrow> d' = d | NTriggerEnter d' _ \<Rightarrow> d' \<noteq> d
      | NPrimary _ _ \<Rightarrow> True | NOption _ _ \<Rightarrow> True | _ \<Rightarrow> False)"

definition held_open :: "bool \<Rightarrow> nav_menus \<Rightarrow> bool" where
  "held_open d m \<longleftrightarrow> nm_open (m d) \<and> \<not> nm_closeTimer (m d)"

interpretation nvh: op_system "nav_step nav" "\<lambda>e _. \<not> leaves_menu nav d e" "held_open d" for nav d
proof
  fix m and e :: nav_event
  assume "held_open d m" and "\<not> leaves_menu nav d e"
  then show "held_open d (nav_step nav e m)"
    by (cases e) (auto simp: held_open_def leaves_menu_def nav_defs split: option.split)
qed

lemma enter_holds: "nv_hasMultiple (nav d) \<Longrightarrow> held_open d (onNavTriggerMouseEnter nav d w m)"
  by (simp add: held_open_def nav_defs)

lemma permitted_list_all: "list_all (\<lambda>e. \<not> leaves_menu nav d e) es \<Longrightarrow> permitted (nav_step nav) (\<lambda>e _. \<not> leaves_menu nav d e) es m"
  by (induction es arbitrary: m) auto

lemma run_ops_append: "run_ops f (xs @ ys) s = run_ops f ys (run_ops f xs s)"
  by (induction xs arbitrary: s) auto


abbreviation two_links :: "bool \<Rightarrow> nav_model" where
  "two_links \<equiv> (\<lambda>d. nav_model_of d
     [\<lparr>no_key = ''1'', no_nodeId = JStr ''a'', no_title = ''A'', no_socketLabel = []\<rparr>,
      \<lparr>no_key = ''2'', no_nodeId = JStr ''b'', no_title = ''B'', no_socketLabel = []\<rparr>])"


end
