(* ===== verification/Suggestions.thy ===== *)
theory Suggestions
  imports Js_Prelude "HOL-Library.Sublist"
begin

section \<open>Suggestions of input fields (utils/input_suggestion_utils.js)\<close>

text \<open>
  The suggestions an input offers: normalising what a schema or a context gives, merging lists, filtering by what was
  typed, and the expressions that can be written over a context.
\<close>

record suggestion =
  sg_value :: string
  sg_label :: string
  sg_description :: string

definition suggestion_js :: "suggestion \<Rightarrow> jsval" where
  "suggestion_js s = JObj [(''value'', JStr (sg_value s)), (''label'', JStr (sg_label s)), (''description'', JStr (sg_description s))]"

definition normalize_item :: "jsval \<Rightarrow> suggestion option" where
  "normalize_item item =
     (case item of
        JStr s \<Rightarrow> if js_trim s = [] then None else Some \<lparr>sg_value = js_trim s, sg_label = js_trim s, sg_description = []\<rparr>
      | JObj ps \<Rightarrow>
          (let raw = (if ''value'' \<in> set (map_keys ps) then js_prop item ''value'' else js_prop item ''label'');
               v = js_trim (js_string raw);
               l = js_prop item ''label''; d = js_prop item ''description''
           in if nullish raw \<or> v = [] then None
              else Some \<lparr>sg_value = v, sg_label = (if nullish l then v else js_string l),
                         sg_description = (if nullish d then [] else js_string d)\<rparr>)
      | _ \<Rightarrow> None)"

definition normalizeSuggestions :: "jsval \<Rightarrow> suggestion list" where
  "normalizeSuggestions raw = List.map_filter normalize_item (arr_items raw)"

definition suggestion_key :: "suggestion \<Rightarrow> string" where
  "suggestion_key s = js_lower (sg_value s)"

fun merge_unique :: "string list \<Rightarrow> suggestion list \<Rightarrow> suggestion list" where
  "merge_unique seen [] = []"
| "merge_unique seen (s # ss) =
     (if suggestion_key s \<in> set seen then merge_unique seen ss
      else s # merge_unique (suggestion_key s # seen) ss)"

definition mergeUniqueSuggestions :: "jsval list \<Rightarrow> suggestion list" where
  "mergeUniqueSuggestions raws = merge_unique [] (concat (map normalizeSuggestions raws))"

definition suggestion_matches :: "string \<Rightarrow> suggestion \<Rightarrow> bool" where
  "suggestion_matches q s =
     (js_includes (js_lower (sg_value s)) q \<or> js_includes (js_lower (sg_label s)) q \<or> js_includes (js_lower (sg_description s)) q)"

definition filterSuggestions :: "suggestion list \<Rightarrow> string \<Rightarrow> nat \<Rightarrow> suggestion list" where
  "filterSuggestions items query limit =
     (let q = js_lower (js_trim query)
      in take limit (if q = [] then items else filter (suggestion_matches q) items))"

definition plain_suggestion :: "string \<Rightarrow> string \<Rightarrow> suggestion" where
  "plain_suggestion v d = \<lparr>sg_value = v, sg_label = v, sg_description = d\<rparr>"

fun object_props :: "jsval \<Rightarrow> jsobj" where
  "object_props (JObj ps) = ps"
| "object_props _ = []"

definition addNamespaceSuggestions :: "jsval \<Rightarrow> string \<Rightarrow> string \<Rightarrow> suggestion list" where
  "addNamespaceSuggestions context namespace detail =
     plain_suggestion namespace detail
     # concat (map (\<lambda>(key, child).
           plain_suggestion (namespace @ ''.'' @ key) (namespace @ '' key'')
           # map (\<lambda>(childKey, _). plain_suggestion (namespace @ ''.'' @ key @ ''.'' @ childKey) (namespace @ '' nested key''))
               (take 10 (object_props child)))
         (take 30 (object_props (js_prop context namespace))))"

definition addNodeSuggestions :: "jsval \<Rightarrow> suggestion list" where
  "addNodeSuggestions nodeContext =
     plain_suggestion ''_node'' ''Other node outputs''
     # concat (map (\<lambda>(nodeId, nodeData).
           let nodeBase = ''_node['' @ [CHR 34] @ nodeId @ [CHR 34] @ '']'' in
           [plain_suggestion nodeBase ''Node output object'', plain_suggestion (nodeBase @ ''.json'') ''Node JSON output'']
           @ map (\<lambda>(jsonKey, _). plain_suggestion (nodeBase @ ''.json.'' @ jsonKey) ''Node JSON key'')
               (take 10 (object_props (js_prop (JObj (object_props nodeData)) ''json''))))
         (take 20 (object_props nodeContext)))"

definition context_suggestions :: "jsval \<Rightarrow> suggestion list" where
  "context_suggestions ctx =
     addNamespaceSuggestions ctx ''_json'' ''Input data from previous node''
     @ addNamespaceSuggestions ctx ''_input'' ''Input alias object''
     @ addNamespaceSuggestions ctx ''_vars'' ''Workflow variables''
     @ addNamespaceSuggestions ctx ''_execution'' ''Execution metadata''
     @ addNamespaceSuggestions ctx ''_workflow'' ''Workflow metadata''
     @ [plain_suggestion ''_loop'' ''Loop context'', plain_suggestion ''_now'' ''Current datetime'',
        plain_suggestion ''_today'' ''Current date'']
     @ addNodeSuggestions (js_prop ctx ''_node'')"

definition buildContextExpressionSuggestions :: "jsval \<Rightarrow> suggestion list" where
  "buildContextExpressionSuggestions context =
     mergeUniqueSuggestions
       [JArr (map suggestion_js (context_suggestions (if truthy context \<and> typeof_object context then context else JObj [])))]"

definition getSuggestionsByKey :: "jsval \<Rightarrow> jsval \<Rightarrow> suggestion list" where
  "getSuggestionsByKey suggestionsByKey key =
     (let k = js_trim (js_string (js_or key (JStr []))); ps = object_props suggestionsByKey
      in if k = [] then []
         else case map_of ps k of
                Some v \<Rightarrow> normalizeSuggestions v
              | None \<Rightarrow>
                  (case List.find (\<lambda>(mapKey, _). js_lower mapKey = js_lower k) ps of
                     Some (_, v) \<Rightarrow> normalizeSuggestions v
                   | None \<Rightarrow> []))"

subsection \<open>Merging\<close>

lemma merge_unique_keys:
  "set (map suggestion_key (merge_unique seen ss)) = suggestion_key ` set ss - set seen
   \<and> distinct (map suggestion_key (merge_unique seen ss)) \<and> subseq (merge_unique seen ss) ss"
  by (induction seen ss rule: merge_unique.induct) auto

lemma merge_unique_first:
  "s \<in> set (merge_unique seen ss) \<longleftrightarrow> suggestion_key s \<notin> set seen \<and> List.find (\<lambda>t. suggestion_key t = suggestion_key s) ss = Some s"
  by (induction seen ss rule: merge_unique.induct) auto

lemma normalize_item_js:
  "js_trim (sg_value s) = sg_value s \<Longrightarrow> sg_value s \<noteq> [] \<Longrightarrow> normalize_item (suggestion_js s) = Some s"
  by (simp add: normalize_item_def suggestion_js_def Let_def)

text \<open>C39: merging lists of suggestions keeps, of the suggestions whose values differ only in case, exactly the first one, in
  the order in which they came, and invents none.\<close>

theorem merge_keeps_first:
  assumes "ss = concat (map normalizeSuggestions raws)" and "ms = mergeUniqueSuggestions raws"
  shows "subseq ms ss \<and> distinct (map suggestion_key ms) \<and> suggestion_key ` set ms = suggestion_key ` set ss
    \<and> (\<forall>s. s \<in> set ms \<longleftrightarrow> List.find (\<lambda>t. suggestion_key t = suggestion_key s) ss = Some s)"
  using merge_unique_keys [of "[]" ss] merge_unique_first [of _ "[]" ss] by (simp add: assms mergeUniqueSuggestions_def)

theorem merge_keeps_first_witness:
  "suggestion_key ` set (mergeUniqueSuggestions [JArr [JStr ''GET'', JStr ''get''], JArr [JStr '' Put '']]) = {''get'', ''put''}"
proof -
  have "suggestion_key ` set (concat (map normalizeSuggestions [JArr [JStr ''GET'', JStr ''get''], JArr [JStr '' Put '']])) = {''get'', ''put''}"
    by code_simp
  then show ?thesis using merge_keeps_first [OF refl refl, of "[JArr [JStr ''GET'', JStr ''get''], JArr [JStr '' Put '']]"] by simp
qed

subsection \<open>Bounds\<close>

lemma sum_list_bounded: "(\<And>x. x \<in> set xs \<Longrightarrow> f x \<le> (c::nat)) \<Longrightarrow> sum_list (map f xs) \<le> c * length xs"
  by (induction xs) (auto simp: add_mono)

lemma concat_bounded:
  assumes "\<And>x. x \<in> set xs \<Longrightarrow> length (f x) \<le> c" shows "length (concat (map f xs)) \<le> c * length xs"
  using sum_list_bounded [of xs "\<lambda>x. length (f x)" c] assms by (simp add: length_concat comp_def)

lemma namespace_bounded: "length (addNamespaceSuggestions ctx ns d) \<le> 331"
proof -
  let ?f = "\<lambda>(key, child). plain_suggestion (ns @ ''.'' @ key) (ns @ '' key'')
           # map (\<lambda>(childKey, _). plain_suggestion (ns @ ''.'' @ key @ ''.'' @ childKey) (ns @ '' nested key''))
               (take 10 (object_props child))"
  let ?xs = "take 30 (object_props (js_prop ctx ns))"
  have "length (concat (map ?f ?xs)) \<le> 11 * length ?xs" by (rule concat_bounded) auto
  moreover have "length ?xs \<le> 30" by simp
  ultimately have "length (concat (map ?f ?xs)) \<le> 330" by linarith
  then show ?thesis by (simp add: addNamespaceSuggestions_def)
qed

lemma nodes_bounded: "length (addNodeSuggestions ctx) \<le> 241"
proof -
  let ?f = "\<lambda>(nodeId, nodeData).
           let nodeBase = ''_node['' @ [CHR 34] @ nodeId @ [CHR 34] @ '']'' in
           [plain_suggestion nodeBase ''Node output object'', plain_suggestion (nodeBase @ ''.json'') ''Node JSON output'']
           @ map (\<lambda>(jsonKey, _). plain_suggestion (nodeBase @ ''.json.'' @ jsonKey) ''Node JSON key'')
               (take 10 (object_props (js_prop (JObj (object_props nodeData)) ''json'')))"
  let ?xs = "take 20 (object_props ctx)"
  have "length (concat (map ?f ?xs)) \<le> 12 * length ?xs" by (rule concat_bounded) (auto simp: Let_def)
  moreover have "length ?xs \<le> 20" by simp
  ultimately have "length (concat (map ?f ?xs)) \<le> 240" by linarith
  then show ?thesis by (simp add: addNodeSuggestions_def)
qed

lemma merge_unique_length: "length (merge_unique seen ss) \<le> length ss"
  by (induction seen ss rule: merge_unique.induct) auto

lemma normalize_length: "length (normalizeSuggestions (JArr xs)) \<le> length xs"
  by (induction xs) (auto simp: normalizeSuggestions_def map_filter_simps split: option.splits)

lemma normalize_js:
  assumes "s \<in> set xs" and "js_trim (sg_value s) = sg_value s" and "sg_value s \<noteq> []"
  shows "s \<in> set (normalizeSuggestions (JArr (map suggestion_js xs)))"
  using assms(1) normalize_item_js [OF assms(2,3)]
  by (force simp: normalizeSuggestions_def List.map_filter_def image_iff)

lemma suggestion_offered:
  assumes "plain_suggestion v d \<in> set (context_suggestions (if truthy ctx \<and> typeof_object ctx then ctx else JObj []))"
    and "js_trim v = v" and "v \<noteq> []" and "js_lower v = v"
  shows "v \<in> suggestion_key ` set (buildContextExpressionSuggestions ctx)"
proof -
  let ?xs = "context_suggestions (if truthy ctx \<and> typeof_object ctx then ctx else JObj [])"
  have "plain_suggestion v d \<in> set (normalizeSuggestions (JArr (map suggestion_js ?xs)))"
    by (rule normalize_js [OF assms(1)]) (use assms(2,3) in \<open>simp_all add: plain_suggestion_def\<close>)
  moreover have "suggestion_key (plain_suggestion v d) = v" using assms(4) by (simp add: suggestion_key_def plain_suggestion_def)
  ultimately have "v \<in> suggestion_key ` set (normalizeSuggestions (JArr (map suggestion_js ?xs)))" by force
  moreover have "suggestion_key ` set (buildContextExpressionSuggestions ctx) = suggestion_key ` set (normalizeSuggestions (JArr (map suggestion_js ?xs)))"
    using merge_unique_keys [of "[]" "normalizeSuggestions (JArr (map suggestion_js ?xs))"]
    unfolding buildContextExpressionSuggestions_def mergeUniqueSuggestions_def by simp
  ultimately show ?thesis by simp
qed

definition CONTEXT_NAMES :: "string list" where
  "CONTEXT_NAMES = [''_json'', ''_input'', ''_vars'', ''_execution'', ''_workflow'', ''_loop'', ''_now'', ''_today'', ''_node'']"

lemma context_names:
  assumes "v \<in> set CONTEXT_NAMES"
  shows "(\<exists>d. plain_suggestion v d \<in> set (context_suggestions ctx)) \<and> js_trim v = v \<and> v \<noteq> [] \<and> js_lower v = v"
proof -
  have "list_all (\<lambda>v. js_trim v = v \<and> v \<noteq> [] \<and> js_lower v = v) CONTEXT_NAMES" by code_simp
  moreover have "\<exists>d. plain_suggestion v d \<in> set (context_suggestions ctx)"
    using assms by (auto simp: CONTEXT_NAMES_def context_suggestions_def addNamespaceSuggestions_def addNodeSuggestions_def)
  ultimately show ?thesis using assms unfolding list_all_iff by blast
qed

lemma filter_suggestions:
  "length (filterSuggestions items query limit) \<le> limit
   \<and> set (filterSuggestions items query limit) \<subseteq> {s \<in> set items. js_trim query = [] \<or> suggestion_matches (js_lower (js_trim query)) s}"
proof -
  let ?q = "js_lower (js_trim query)"
  have empty: "(?q = []) = (js_trim query = [])" by (simp add: js_lower_def)
  have "set (filterSuggestions items query limit) \<subseteq> set (if ?q = [] then items else filter (suggestion_matches ?q) items)"
    unfolding filterSuggestions_def Let_def by (rule set_take_subset)
  then show ?thesis unfolding empty by (auto simp: filterSuggestions_def Let_def split: if_splits)
qed

text \<open>However large the context is, at most 1899 expressions are suggested, the names of the context are always among
  them, and filtering suggestions gives at most the asked number, each of them one of the given and matching what was
  typed.\<close>

theorem context_suggestions_bounded:
  "length (buildContextExpressionSuggestions ctx) \<le> 1899
   \<and> set CONTEXT_NAMES \<subseteq> suggestion_key ` set (buildContextExpressionSuggestions ctx)
   \<and> length (filterSuggestions items query limit) \<le> limit
   \<and> set (filterSuggestions items query limit)
       \<subseteq> {s \<in> set items. js_trim query = [] \<or> suggestion_matches (js_lower (js_trim query)) s}"
proof -
  let ?c = "if truthy ctx \<and> typeof_object ctx then ctx else JObj []"
  have "length (buildContextExpressionSuggestions ctx) \<le> length (normalizeSuggestions (JArr (map suggestion_js (context_suggestions ?c))))"
    unfolding buildContextExpressionSuggestions_def mergeUniqueSuggestions_def using merge_unique_length by (simp del: if_split)
  also have "\<dots> \<le> length (context_suggestions ?c)" using normalize_length by (metis length_map)
  also have "\<dots> \<le> 1899"
    using namespace_bounded [of ?c "''_json''" "''Input data from previous node''"] namespace_bounded [of ?c "''_input''" "''Input alias object''"]
      namespace_bounded [of ?c "''_vars''" "''Workflow variables''"] namespace_bounded [of ?c "''_execution''" "''Execution metadata''"]
      namespace_bounded [of ?c "''_workflow''" "''Workflow metadata''"] nodes_bounded [of "js_prop ?c ''_node''"]
    unfolding context_suggestions_def length_append by simp
  finally have "length (buildContextExpressionSuggestions ctx) \<le> 1899" .
  moreover have "v \<in> suggestion_key ` set (buildContextExpressionSuggestions ctx)" if "v \<in> set CONTEXT_NAMES" for v
    using context_names [OF that, of ?c] suggestion_offered by blast
  ultimately show ?thesis using filter_suggestions by blast
qed

text \<open>Keys that differ only in case are different fields, but only one of them is suggested.\<close>

theorem case_variants_hidden:
  "map sg_value (filter (\<lambda>s. suggestion_key s = ''_json.name'')
     (buildContextExpressionSuggestions (JObj [(''_json'', JObj [(''Name'', JNum 1), (''name'', JNum 2)])]))) = [''_json.Name'']"
  by code_simp

text \<open>Value suggestions are looked up by the exact key first, and otherwise by the first key that differs from it only
  in case.\<close>

theorem suggestions_by_key:
  assumes "js_trim k = k" and "k \<noteq> []"
  shows "getSuggestionsByKey (JObj ps) (JStr k) =
    (case map_of ps k of
       Some v \<Rightarrow> normalizeSuggestions v
     | None \<Rightarrow> (case filter (\<lambda>p. js_lower (fst p) = js_lower k) ps of [] \<Rightarrow> [] | p # _ \<Rightarrow> normalizeSuggestions (snd p)))"
proof -
  have "List.find (\<lambda>(mapKey, _). js_lower mapKey = js_lower k) qs
      = (case filter (\<lambda>p. js_lower (fst p) = js_lower k) qs of [] \<Rightarrow> None | p # _ \<Rightarrow> Some p)" for qs :: jsobj
    by (induction qs) auto
  then show ?thesis using assms by (simp add: getSuggestionsByKey_def js_or_def Let_def split: option.split list.split)
qed

end
