(* ===== verification/Canvas_Session.thy ===== *)
theory Canvas_Session
  imports Canvas_Actions
begin

section \<open>Sessions on the canvas\<close>

text \<open>
  The canvas as one system: the hooks of Gestures, Drag and Canvas_Commands, the handlers of Canvas_Actions
  and their timers and animation frames, over one store. Events come in any order, as the browser
  delivers them; while nodes are dragged, only pointer events, frames and timers of the selection are
  considered, and the read-only switch.
\<close>

record canvas =
  cv_hooks :: hooks
  cv_deferred :: deferred
  cv_store :: store

datatype canvas_event =
    MouseDown hit nat point
  | PointerMove point
  | MoveFrame
  | MouseUp bool point
  | Click bool
  | SelectionTimer
  | DragStart string point
  | DragFrame
  | ScrollFrame
  | SocketDown string string socket_side point
  | SocketUp string string socket_side
  | ReadonlyProp bool
  | Command command
  | TidyUp "string option" "rat option" string
  | SelectNode string bool
  | SelectConnection string
  | DeleteNode string
  | ToggleDisabled string
  | DropNode string point
  | ContextMenu bool point
  | QuickAdd string string
  | MenuSelect string jsval
  | MenuClose
  | InsertTimer
  | ConnectTimer
  | OpenConfig string
  | SaveConfig
  | RemoveConnection string
  | UndoButton
  | RedoButton

definition on_hooks :: "hooks \<times> store \<Rightarrow> canvas \<Rightarrow> canvas" where
  "on_hooks ws c = c\<lparr>cv_hooks := fst ws, cv_store := snd ws\<rparr>"

definition on_drag :: "drag_state \<times> store \<Rightarrow> canvas \<Rightarrow> canvas" where
  "on_drag ds c = c\<lparr>cv_hooks := (cv_hooks c)\<lparr>drag_hook := fst ds\<rparr>, cv_store := snd ds\<rparr>"

definition on_draw :: "drawing \<times> store \<Rightarrow> canvas \<Rightarrow> canvas" where
  "on_draw ds c = c\<lparr>cv_hooks := (cv_hooks c)\<lparr>draw_hook := fst ds\<rparr>, cv_store := snd ds\<rparr>"

definition on_deferred :: "deferred \<times> store \<Rightarrow> canvas \<Rightarrow> canvas" where
  "on_deferred ts c = c\<lparr>cv_deferred := fst ts, cv_store := snd ts\<rparr>"

definition on_store :: "(store \<Rightarrow> store) \<Rightarrow> canvas \<Rightarrow> canvas" where
  "on_store f c = c\<lparr>cv_store := f (cv_store c)\<rparr>"

fun canvas_step ::
    "(string \<times> node_class) list \<Rightarrow> 'g graphlib \<Rightarrow> dimension_config \<Rightarrow> rect \<Rightarrow> canvas_event \<Rightarrow> canvas \<Rightarrow> canvas" where
  "canvas_step odoo L dims r (MouseDown h b p) c =
     (case gesture_mouseDown r h b p (gest (cv_hooks c)) (cv_store c) of
        (g, st) \<Rightarrow> on_hooks ((cv_hooks c)\<lparr>gest := g\<rparr>, st) c)"
| "canvas_step odoo L dims r (PointerMove p) c = c\<lparr>cv_hooks := onDocumentMouseMove p (cv_hooks c) (cv_store c)\<rparr>"
| "canvas_step odoo L dims r MoveFrame c = on_hooks (runMouseMoveFrame dims r (cv_hooks c) (cv_store c)) c"
| "canvas_step odoo L dims r (MouseUp onInput p) c = on_hooks (onDocumentMouseUp dims r onInput p (cv_hooks c) (cv_store c)) c"
| "canvas_step odoo L dims r (Click bg) c = on_store (onCanvasClick bg (cv_hooks c)) c"
| "canvas_step odoo L dims r SelectionTimer c = c\<lparr>cv_hooks := selection_timer (cv_hooks c)\<rparr>"
| "canvas_step odoo L dims r (DragStart i p) c =
     on_drag (onNodeDragStart (isReadonly (cv_store c)) i p (drag_hook (cv_hooks c)) (cv_store c), cv_store c) c"
| "canvas_step odoo L dims r DragFrame c = on_drag (runDragFrame (drag_hook (cv_hooks c)) (cv_store c)) c"
| "canvas_step odoo L dims r ScrollFrame c =
     on_drag (autoScrollStep (Some (root_of r)) (drag_hook (cv_hooks c)) (cv_store c)) c"
| "canvas_step odoo L dims r (SocketDown i k side p) c =
     on_draw (onSocketMouseDown (isReadonly (cv_store c)) i k side p (draw_hook (cv_hooks c)), cv_store c) c"
| "canvas_step odoo L dims r (SocketUp i k side) c =
     on_draw (onSocketMouseUp (isReadonly (cv_store c)) i k side (draw_hook (cv_hooks c)) (cv_store c)) c"
| "canvas_step odoo L dims r (ReadonlyProp v) c = on_hooks (canvas_setReadonly dims v (cv_hooks c) (cv_store c)) c"
| "canvas_step odoo L dims r (Command cmd) c = on_store (\<lambda>st. run_command odoo (isReadonly st) cmd st) c"
| "canvas_step odoo L dims r (TidyUp orient sep label) c = on_store (tidyUp L orient sep label) c"
| "canvas_step odoo L dims r (SelectNode i ctrl) c = on_store (onNodeSelect i ctrl) c"
| "canvas_step odoo L dims r (SelectConnection k) c = on_store (onConnectionSelect k) c"
| "canvas_step odoo L dims r (DeleteNode i) c = on_store (onNodeDelete odoo i) c"
| "canvas_step odoo L dims r (ToggleDisabled i) c = on_store (onNodeToggleDisable i) c"
| "canvas_step odoo L dims r (DropNode type p) c = on_store (onDrop odoo r type p) c"
| "canvas_step odoo L dims r (ContextMenu bg p) c = on_store (onCanvasContextMenu r bg p) c"
| "canvas_step odoo L dims r (QuickAdd i k) c = on_store (onSocketQuickAdd dims i k) c"
| "canvas_step odoo L dims r (MenuSelect type ctx) c =
     on_deferred (onNodeMenuSelect odoo dims type ctx (cv_deferred c) (cv_store c)) c"
| "canvas_step odoo L dims r MenuClose c = on_hooks (onNodeMenuClose (cv_hooks c) (cv_store c)) c"
| "canvas_step odoo L dims r InsertTimer c = on_deferred (runDeferredInsert (cv_deferred c) (cv_store c)) c"
| "canvas_step odoo L dims r ConnectTimer c = on_deferred (runDeferredConnect (cv_deferred c) (cv_store c)) c"
| "canvas_step odoo L dims r (OpenConfig i) c = on_store (onNodeOpenConfig i) c"
| "canvas_step odoo L dims r SaveConfig c = on_store onConfigPanelSave c"
| "canvas_step odoo L dims r (RemoveConnection k) c = on_store (removeConnectionById k) c"
| "canvas_step odoo L dims r UndoButton c = on_store onUndo c"
| "canvas_step odoo L dims r RedoButton c = on_store onRedo c"

definition dragging :: "canvas \<Rightarrow> bool" where
  "dragging c = isDragging (drag_hook (cv_hooks c))"

text \<open>The events that may come while nodes are dragged.\<close>

definition while_dragging :: "canvas_event \<Rightarrow> bool" where
  "while_dragging ev \<longleftrightarrow>
     (case ev of MouseDown _ _ _ \<Rightarrow> True | PointerMove _ \<Rightarrow> True | MoveFrame \<Rightarrow> True | MouseUp _ _ \<Rightarrow> True | Click _ \<Rightarrow> True
      | SelectionTimer \<Rightarrow> True | DragFrame \<Rightarrow> True | ScrollFrame \<Rightarrow> True | ReadonlyProp _ \<Rightarrow> True | _ \<Rightarrow> False)"

definition canvas_ok :: "canvas_event \<Rightarrow> canvas \<Rightarrow> bool" where
  "canvas_ok ev c \<longleftrightarrow> (dragging c \<longrightarrow> while_dragging ev)"

definition start_canvas :: "(string \<times> node_class) list \<Rightarrow> canvas" where
  "start_canvas odoo = \<lparr>cv_hooks = new_hooks, cv_deferred = no_deferred, cv_store = start_store odoo\<rparr>"

subsection \<open>What the actions keep of the store\<close>

text \<open>On the line of the history, outside a batch or in one, with a selection that lists nothing twice.\<close>

definition kept :: "(string \<times> node_class) list \<Rightarrow> bool \<Rightarrow> store \<Rightarrow> bool" where
  "kept odoo idle st \<longleftrightarrow> on_line odoo st \<and> (currentBatch (hist st) = None) = idle
     \<and> distinct (sel_nodeIds (selection (ui st)))"

lemma kept_good: "kept odoo b st \<Longrightarrow> session_good odoo (graph st)"
  by (auto simp: kept_def intro: sh.line_good)

lemma kept_step: "kept odoo b st \<Longrightarrow> recorded_step odoo st st' \<Longrightarrow> ui st' = ui st \<Longrightarrow> kept odoo b st'"
  using recorded_step_line [of odoo st st']
  by (auto simp: kept_def recorded_step_def hist_push_def hist_notify_def Let_def split: option.splits if_splits)

lemma kept_frame:
  "kept odoo b st \<Longrightarrow> hist st' = hist st \<Longrightarrow> graph st' = graph st
    \<Longrightarrow> distinct (sel_nodeIds (selection (ui st'))) \<Longrightarrow> kept odoo b st'"
  by (simp add: kept_def)

lemma ops_ui:
  "ui (snd (store_removeNode odoo i st)) = ui st" "ui (snd (store_removeConnection j st)) = ui st"
  "ui (store_moveNode i p st) = ui st" "ui (snd (store_setNodeConfig i cfg st)) = ui st"
  "ui (snd (store_undo st)) = ui st" "ui (snd (store_redo st)) = ui st" "ui (toggleDisable i st) = ui st"
  "ui (beginBatch st) = ui st" "ui (endBatch d st) = ui st" "ui (recordMoveNodes ms st) = ui st"
  by (auto simp: store_removeNode_def store_removeConnection_def store_moveNode_def store_setNodeConfig_def store_undo_def
      store_redo_def toggleDisable_def bus_trigger_def beginBatch_def endBatch_def recordMoveNodes_def clearExecution_def Let_def
      split: option.splits prod.splits)

lemma kept_single:
  assumes "kept odoo b st"
  shows "kept odoo b (snd (store_removeNode odoo i st))" and "kept odoo b (snd (store_removeConnection j st))"
    and "kept odoo b (store_moveNode i p st)" and "kept odoo b (snd (store_addConnection s h t g st))"
  by (rule kept_step [OF assms], rule single_steps [OF kept_good [OF assms]], simp add: ops_ui addConnection_ui)+

lemma push_open: "(currentBatch (hist_push a h) = None) = (currentBatch h = None)"
  by (auto simp: hist_push_def hist_notify_def Let_def split: option.splits)

lemma batch_open:
  "(currentBatch (hist (snd (add_and_record odoo type p st))) = None) = (currentBatch (hist st) = None)"
  "(currentBatch (hist (snd (connect_and_record s k t l st))) = None) = (currentBatch (hist st) = None)"
  "hist (clearExecution st) = hist st"
  by (auto simp: add_and_record_def connect_and_record_def push_open clearExecution_def split: prod.splits option.splits)

lemma kept_addNode:
  assumes k: "kept odoo b st" shows "kept odoo b (snd (store_addNode odoo type p st))"
proof -
  obtain r st1 where 1: "add_and_record odoo type p st = (r, st1)" by fastforce
  obtain q st2 where 2: "add_and_record odoo ''noop'' (fst p + 80, snd p + 160) (clearExecution st1) = (q, st2)" by fastforce
  have "(currentBatch (hist st1) = None) = (currentBatch (hist st) = None)" "(currentBatch (hist st2) = None) = (currentBatch (hist st1) = None)"
    using batch_open(1) [of odoo type p st] batch_open(1) [of odoo "''noop''" "(fst p + 80, snd p + 160)" "clearExecution st1"]
    by (simp_all add: 1 2 batch_open(3))
  then have "(currentBatch (hist (snd (store_addNode odoo type p st))) = None) = (currentBatch (hist st) = None)"
    by (cases r; cases q) (simp_all add: store_addNode_def 1 2 Let_def batch_open)
  with k store_addNode_line show ?thesis by (simp add: kept_def addNode_ui)
qed

lemma kept_config: "kept odoo b st \<Longrightarrow> kept odoo b (snd (store_setNodeConfig i cfg st))"
  using in_place_line(1) [of odoo st i cfg] by (simp add: kept_def ops_ui) (simp add: store_setNodeConfig_def split_beta)

lemma kept_toggle: "kept odoo b st \<Longrightarrow> kept odoo b (toggleDisable i st)"
  using in_place_line(5) [of odoo st i] by (simp add: kept_def ops_ui) (simp add: toggleDisable_def Let_def)

lemma kept_batch:
  "kept odoo True st \<Longrightarrow> kept odoo False (beginBatch st)" "kept odoo b st \<Longrightarrow> kept odoo True (endBatch d st)"
  using sh.line_begin [of odoo "hist st" "graph st"] sh.line_commit [of odoo "hist st" "graph st" d]
  by (auto simp: kept_def ops_ui beginBatch_def endBatch_def startBatch_def commitBatch_def hist_push_def hist_notify_def Let_def
      split: option.splits if_splits)

lemma kept_undo: "kept odoo True st \<Longrightarrow> kept odoo True (snd (store_undo st)) \<and> kept odoo True (snd (store_redo st))"
  using store_undo_line [of odoo st]
  by (auto simp: kept_def ops_ui store_undo_def store_redo_def hist_undo_def hist_redo_def hist_notify_def Let_def
      split: prod.splits if_splits option.splits)

lemma kept_fold: "(\<And>st x. kept odoo b st \<Longrightarrow> kept odoo b (f st x)) \<Longrightarrow> kept odoo b st \<Longrightarrow> kept odoo b (foldl f st xs)"
  by (induction xs arbitrary: st) auto

lemma kept_select: "kept odoo b st \<Longrightarrow> kept odoo b (store_select ns cs st)"
  by (rule kept_frame) simp_all

lemma kept_ui:
  assumes "kept odoo b st"
  shows "kept odoo b (setViewport p z st)" and "kept odoo b (setReadonly v st)" and "kept odoo b (closeNodeMenu st)"
    and "kept odoo b (openNodeMenu x y cx cy var ctx st)" and "kept odoo b (openPanel pt n st)" and "kept odoo b (closePanel pt st)"
    and "kept odoo b (setHoveredConnection i mp cp st)" and "kept odoo b (bus_trigger ev pl st)"
  using assms by (simp_all add: kept_def setViewport_def setReadonly_def closeNodeMenu_def openNodeMenu_def openPanel_def
      closePanel_def setHoveredConnection_def bus_trigger_def)

subsection \<open>The commands and handlers\<close>

lemma kept_paste:
  assumes "kept odoo b st" shows "kept odoo b (paste_data odoo data st)"
proof -
  have nodes: "kept odoo b st \<Longrightarrow> kept odoo b (snd (paste_nodes odoo ns m st))" for ns m st
  proof (induction odoo ns m st rule: paste_nodes.induct)
    case (2 odoo n ns m st)
    obtain r st1 where 1: "store_addNode odoo (cl_type n) (fst (cl_at n) + 50, snd (cl_at n) + 50) st = (r, st1)" by fastforce
    have "kept odoo b st1" using kept_addNode [OF "2.prems"] 1 by (metis snd_conv)
    with 2 1 kept_config show ?case by (cases r) (auto split: option.splits)
  qed simp
  have "kept odoo b st \<Longrightarrow> kept odoo b (paste_connections m cs st)" for m cs st
    by (induction cs arbitrary: st) (auto intro: kept_single split: option.splits)
  then show ?thesis using nodes [OF assms, of "cl_nodes data" "[]"] by (auto simp: paste_data_def split_beta)
qed

lemma kept_command:
  assumes k: "kept odoo True st" shows "kept odoo True (run_command odoo ro cmd st)"
proof -
  have rem: "kept odoo v (remove_nodes odoo ids s)" "kept odoo v (remove_connections ids s)" if "kept odoo v s" for v s ids
    using that unfolding remove_nodes_def remove_connections_def by (auto intro!: kept_fold kept_single)
  have batches: "kept odoo True (endBatch d (remove_nodes odoo ids (beginBatch s)))"
    "kept odoo True (endBatch d (remove_connections ids (beginBatch s)))" if "kept odoo True s" for d ids s
    using that by (blast intro: kept_batch rem)+
  have "kept odoo True (deleteSelection odoo st)"
    using k by (simp add: deleteSelection_def Let_def batches rem kept_select)
  moreover have "kept odoo True (moveSelection dx dy large st)" for dx dy large
  proof -
    have "kept odoo v s \<Longrightarrow> kept odoo v (move_selected mx my ns ids s)" for v mx my ns ids s
      unfolding move_selected_def by (auto intro!: kept_fold kept_single split: option.split)
    with k kept_batch show ?thesis by (simp add: moveSelection_def Let_def) blast
  qed
  moreover have "kept odoo True (pasteNodes odoo ro clip st)" for clip
    using k kept_batch(2) [OF kept_paste [OF kept_batch(1) [OF k]]] kept_batch(2) [OF k]
    by (simp add: pasteNodes_def split: clip_text.split)
  ultimately show ?thesis using k kept_undo [OF k]
    by (cases cmd) (auto simp: run_command_def selectAll_def intro: kept_select)
qed

lemma kept_tidy:
  assumes k: "kept odoo True st" shows "kept odoo True (tidyUp L orient sep label st)"
proof -
  have "kept odoo False (apply_positions ps ns (beginBatch st))" for ps ns
    unfolding apply_positions_def by (rule kept_fold [OF _ kept_batch(1) [OF k]]) (auto intro: kept_single split: option.split)
  with k kept_batch(2) show ?thesis unfolding tidyUp_def Let_def by (simp split: option.split) blast
qed

lemma kept_bridges: "kept odoo b st \<Longrightarrow> kept odoo b (bridge_connections is os st)"
  unfolding bridge_connections_def by (rule kept_fold) (auto intro: kept_single)

lemma kept_delete: "kept odoo b st \<Longrightarrow> kept odoo b (onNodeDelete odoo i st)"
  by (auto simp: onNodeDelete_def Let_def intro!: kept_bridges kept_select kept_single)

lemma kept_insert:
  assumes k: "kept odoo b st"
  shows "kept odoo b (snd (insertNodeIntoConnection odoo type ci p t st))"
    and "kept odoo b (snd (onNodeMenuSelect odoo dims type ctx t st))"
    and "kept odoo b (snd (runDeferredInsert t st))" and "kept odoo b (snd (runDeferredConnect t st))"
proof -
  show ins: "kept odoo b (snd (insertNodeIntoConnection odoo type ci p t st))" for ci p
    using k kept_addNode [OF k, of type p]
    by (auto simp: insertNodeIntoConnection_def intro!: kept_single split: option.splits prod.splits)
  show "kept odoo b (snd (onNodeMenuSelect odoo dims type ctx t st))"
    unfolding onNodeMenuSelect_def Let_def using k ins kept_addNode [OF k, of type]
    by (auto split: option.splits prod.splits) (metis snd_conv)+
  show "kept odoo b (snd (runDeferredInsert t st))" "kept odoo b (snd (runDeferredConnect t st))"
    using k by (auto simp: runDeferredInsert_def runDeferredConnect_def Let_def intro!: kept_single split: option.splits)
qed

lemma kept_drawing:
  assumes "kept odoo b st"
  shows "kept odoo b (snd (onSocketMouseUp ro i k side w st))"
    and "kept odoo b (snd (snd (handleCanvasMouseUp ro onInput s p w st)))"
  using assms by (auto simp: onSocketMouseUp_def handleCanvasMouseUp_def intro!: kept_single kept_ui split: option.splits socket_side.splits)

subsection \<open>While nodes are dragged\<close>

text \<open>The store is then where a drag that began on the line of the history has taken it.\<close>

definition mid_drag :: "(string \<times> node_class) list \<Rightarrow> drag_state \<Rightarrow> store \<Rightarrow> bool" where
  "mid_drag odoo d st \<longleftrightarrow> (\<exists>st0 c0. kept odoo True st0 \<and> drag_inv odoo st0 c0 (d, st))
     \<and> distinct (sel_nodeIds (selection (ui st)))"

lemma mid_dragI: "kept odoo True st0 \<Longrightarrow> drag_inv odoo st0 c0 (d, st) \<Longrightarrow> distinct (sel_nodeIds (selection (ui st))) \<Longrightarrow> mid_drag odoo d st"
  unfolding mid_drag_def by blast

lemma mid_dragE:
  assumes "mid_drag odoo d st"
  obtains st0 c0 where "kept odoo True st0" and "drag_inv odoo st0 c0 (d, st)" and "distinct (sel_nodeIds (selection (ui st)))"
  using assms unfolding mid_drag_def by blast

lemma mid_drag_frame:
  assumes "mid_drag odoo d st" and "graph st' = graph st" and "hist st' = hist st"
    and "distinct (sel_nodeIds (selection (ui st')))"
  shows "mid_drag odoo d st'"
proof -
  from assms(1) obtain st0 c0 where s: "kept odoo True st0" "drag_inv odoo st0 c0 (d, st)" by (rule mid_dragE)
  have "kept odoo True (st0\<lparr>ui := ui st'\<rparr>)" using s(1) assms(4) by (simp add: kept_def)
  moreover have "drag_inv odoo (st0\<lparr>ui := ui st'\<rparr>) (startAt d) (d, st')" using s(2) assms(2,3) by (simp add: drag_inv_def)
  ultimately show ?thesis using assms(4) by (rule mid_dragI)
qed

lemma mid_drag_dragging: "mid_drag odoo d st \<Longrightarrow> isDragging d"
  by (erule mid_dragE) (simp add: drag_inv_def drag_maps_ok_def)

lemma mid_drag_start:
  assumes "kept odoo True st" shows "mid_drag odoo (onNodeDragStart False i p d st) st"
  using assms by (intro mid_dragI [OF assms drag_start_inv [OF kept_good [OF assms]]]) (simp_all add: kept_def)

lemma mid_drag_move: "mid_drag odoo d st \<Longrightarrow> mid_drag odoo (snd (drag_mouseMove ro r client d)) st"
  by (erule mid_dragE, rule mid_dragI) (auto simp: drag_mouseMove_def Let_def drag_inv_frames)

lemma moves_ui: "ui (snd (move_entries es st)) = ui st"
  by (induction es st rule: move_entries.induct) (auto simp: split_beta Let_def split: option.split)

lemma apply_ui: "selection (ui (snd (applyDrag c d st))) = selection (ui st)"
  by (simp add: applyDrag_def Let_def moveNodesTransient_def moves_ui)

lemma drag_frame_sel:
  "selection (ui (snd (runDragFrame d st))) = selection (ui st)"
  "selection (ui (snd (autoScrollStep r d st))) = selection (ui st)"
proof -
  have "selection (ui (setViewport p z st)) = selection (ui st)" for p z by (simp add: setViewport_def)
  then show "selection (ui (snd (runDragFrame d st))) = selection (ui st)"
    "selection (ui (snd (autoScrollStep r d st))) = selection (ui st)"
    by (simp_all add: runDragFrame_def autoScrollStep_def Let_def apply_ui split_beta split: option.split)
qed

lemma mid_drag_frames:
  assumes "mid_drag odoo d st"
  shows "mid_drag odoo (fst (runDragFrame d st)) (snd (runDragFrame d st))"
    and "mid_drag odoo (fst (autoScrollStep r d st)) (snd (autoScrollStep r d st))"
proof -
  from assms obtain st0 c0 where s: "kept odoo True st0" "drag_inv odoo st0 c0 (d, st)" by (rule mid_dragE)
  show "mid_drag odoo (fst (autoScrollStep r d st)) (snd (autoScrollStep r d st))"
    using autoScroll_inv [OF s(2), of r] assms by (intro mid_dragI [OF s(1)]) (auto simp: mid_drag_def drag_frame_sel)
  have "drag_inv odoo st0 c0 (d\<lparr>dragFrame := None\<rparr>, st)" using s(2) by (simp add: drag_inv_frames)
  from applyDrag_inv [OF this] s(2) have "drag_inv odoo st0 c0 (runDragFrame d st)"
    by (auto simp: runDragFrame_def Let_def drag_inv_frames split: option.splits)
  then show "mid_drag odoo (fst (runDragFrame d st)) (snd (runDragFrame d st))"
    using assms by (intro mid_dragI [OF s(1)]) (auto simp: mid_drag_def drag_frame_sel)
qed

lemma mid_drag_up:
  assumes m: "mid_drag odoo d st" and up: "drag_mouseUp False d st = (b, d', st')"
  shows "b \<and> \<not> isDragging d' \<and> kept odoo True st'"
proof -
  from m obtain st0 c0 where s: "kept odoo True st0" "drag_inv odoo st0 c0 (d, st)" by (rule mid_dragE)
  let ?st0 = "st0\<lparr>ui := ui st'\<rparr>"
  have u: "ui st' = ui st" using up by (auto simp: drag_mouseUp_def Let_def ops_ui split: if_splits)
  have "kept odoo True ?st0" using s(1) m u by (simp add: kept_def mid_drag_def)
  moreover have "recorded_step odoo ?st0 st'" using drag_recorded [OF s(2) up] by (simp add: recorded_step_def)
  ultimately have "kept odoo True st'" by (rule kept_step) simp
  with up mid_drag_dragging [OF m] show ?thesis by (auto simp: drag_mouseUp_def Let_def)
qed

subsection \<open>The invariant of a session\<close>

definition canvas_inv :: "(string \<times> node_class) list \<Rightarrow> canvas \<Rightarrow> bool" where
  "canvas_inv odoo c \<longleftrightarrow>
     (if dragging c then mid_drag odoo (drag_hook (cv_hooks c)) (cv_store c) else kept odoo True (cv_store c))"

lemma inv_frame:
  assumes "canvas_inv odoo c" and "drag_hook w = drag_hook (cv_hooks c)"
    and "graph st = graph (cv_store c)" and "hist st = hist (cv_store c)" and "distinct (sel_nodeIds (selection (ui st)))"
  shows "canvas_inv odoo (c\<lparr>cv_hooks := w, cv_store := st\<rparr>)"
  using assms mid_drag_frame [of odoo "drag_hook (cv_hooks c)" "cv_store c" st] kept_frame [of odoo True "cv_store c" st]
  by (auto simp: canvas_inv_def dragging_def)

lemma inv_hooks: "canvas_inv odoo c \<Longrightarrow> drag_hook w = drag_hook (cv_hooks c) \<Longrightarrow> canvas_inv odoo (c\<lparr>cv_hooks := w\<rparr>)"
  by (simp add: canvas_inv_def dragging_def)

lemma inv_sel: "canvas_inv odoo c \<Longrightarrow> distinct (sel_nodeIds (selection (ui (cv_store c))))"
  by (auto simp: canvas_inv_def mid_drag_def kept_def split: if_splits)

lemma gesture_frames:
  "graph (snd (gesture_mouseDown r h b p g st)) = graph st" "hist (snd (gesture_mouseDown r h b p g st)) = hist st"
  "graph (snd (snd (gesture_mouseMove r p g st))) = graph st" "hist (snd (snd (gesture_mouseMove r p g st))) = hist st"
  "graph (snd (snd (gesture_mouseUp dims g st))) = graph st" "hist (snd (snd (gesture_mouseUp dims g st))) = hist st"
  by (auto simp: gesture_mouseDown_def gesture_mouseMove_def gesture_mouseUp_def completeSelection_def Let_def setViewport_fields
      split: option.splits prod.splits bool.splits)

lemma gesture_sel:
  assumes "distinct (sel_nodeIds (selection (ui st)))"
  shows "distinct (sel_nodeIds (selection (ui (snd (gesture_mouseDown r h b p g st)))))"
    and "distinct (sel_nodeIds (selection (ui (snd (snd (gesture_mouseMove r p g st))))))"
    and "distinct (sel_nodeIds (selection (ui (snd (snd (gesture_mouseUp dims g st))))))"
  using assms by (auto simp: gesture_mouseDown_def gesture_mouseMove_def gesture_mouseUp_def completeSelection_def Let_def
      setViewport_def split: option.splits prod.splits bool.splits)

lemma inv_idle: "\<not> dragging c \<Longrightarrow> canvas_inv odoo c = kept odoo True (cv_store c)"
  by (simp add: canvas_inv_def)

lemma inv_mouseDown: "canvas_inv odoo c \<Longrightarrow> canvas_inv odoo (canvas_step odoo L dims r (MouseDown h b p) c)"
  using inv_frame [of odoo c _ "snd (gesture_mouseDown r h b p (gest (cv_hooks c)) (cv_store c))"] inv_sel [of odoo c]
  by (simp add: on_hooks_def split_beta gesture_frames gesture_sel)

lemma inv_moveFrame:
  assumes inv: "canvas_inv odoo c"
  shows "canvas_inv odoo (canvas_step odoo L dims r MoveFrame c)"
proof (cases "mouseMoveFrame (cv_hooks c)")
  case None
  with inv show ?thesis by (simp add: runMouseMoveFrame_def on_hooks_def)
next
  case (Some q)
  obtain b g st1 where g: "gesture_mouseMove r q (gest (cv_hooks c)) (cv_store c) = (b, g, st1)" by (metis prod_cases3)
  obtain m d where d: "drag_mouseMove (isReadonly (cv_store c)) (Some (root_of r)) q (drag_hook (cv_hooks c)) = (m, d)" by fastforce
  show ?thesis
  proof (cases "b \<or> \<not> m")
    case True
    then show ?thesis
      using Some g d inv_frame [OF inv] gesture_frames(3,4) [of r q "gest (cv_hooks c)" "cv_store c"] inv_sel [OF inv]
        gesture_sel(2) [OF inv_sel [OF inv], of r q "gest (cv_hooks c)"]
      by (cases b) (simp_all add: runMouseMoveFrame_def on_hooks_def inv_hooks [OF inv])
  next
    case False
    then have "dragging c" using d by (auto simp: drag_mouseMove_def dragging_def split: if_splits)
    then have "mid_drag odoo (drag_hook (cv_hooks c)) (cv_store c)" using inv by (simp add: canvas_inv_def)
    from mid_drag_move [OF this, of "isReadonly (cv_store c)" "Some (root_of r)" q] mid_drag_dragging
    show ?thesis using Some g d False by (auto simp: runMouseMoveFrame_def on_hooks_def canvas_inv_def dragging_def)
  qed
qed

lemma inv_mouseUp:
  assumes inv: "canvas_inv odoo c"
  shows "canvas_inv odoo (canvas_step odoo L dims r (MouseUp onInput q) c)"
proof (cases "isReadonly (cv_store c)")
  case True
  with inv show ?thesis by (simp add: onDocumentMouseUp_def on_hooks_def)
next
  case ro: False
  obtain t g st1 where g: "gesture_mouseUp dims (gest (cv_hooks c)) (cv_store c) = (t, g, st1)" by (metis prod_cases3)
  obtain b d st2 where d: "drag_mouseUp False (drag_hook (cv_hooks c)) (cv_store c) = (b, d, st2)" by (metis prod_cases3)
  show ?thesis
  proof (cases "t = None")
    case False
    then show ?thesis
      using ro g inv_frame [OF inv] gesture_frames(5,6) [of dims "gest (cv_hooks c)" "cv_store c"]
        gesture_sel(3) [OF inv_sel [OF inv], of dims "gest (cv_hooks c)"]
      by (auto simp: onDocumentMouseUp_def on_hooks_def)
  next
    case t: True
    show ?thesis
    proof (cases "dragging c")
      case True
      with inv have "b \<and> \<not> isDragging d \<and> kept odoo True st2" by (intro mid_drag_up [OF _ d]) (simp add: canvas_inv_def)
      with t ro g d show ?thesis by (simp add: onDocumentMouseUp_def on_hooks_def canvas_inv_def dragging_def)
    next
      case False
      then have "b = False" "kept odoo True (cv_store c)" using inv d by (auto simp: canvas_inv_def dragging_def drag_mouseUp_def)
      with False t ro g d kept_drawing(2) show ?thesis
        by (simp add: onDocumentMouseUp_def on_hooks_def canvas_inv_def dragging_def split_beta)
    qed
  qed
qed

lemma inv_readonly:
  assumes inv: "canvas_inv odoo c"
  shows "canvas_inv odoo (canvas_step odoo L dims r (ReadonlyProp v) c)"
proof (cases "isReadonly (cv_store c) = v \<or> \<not> v")
  case True
  with inv inv_frame [OF inv, of "cv_hooks c" "setReadonly v (cv_store c)"] inv_sel [OF inv] show ?thesis
    by (auto simp: canvas_setReadonly_def on_hooks_def setReadonly_def)
next
  case False
  obtain b d st1 where d: "drag_mouseUp False (drag_hook (cv_hooks c)) (cv_store c) = (b, d, st1)" by (metis prod_cases3)
  obtain t g st2 where g: "gesture_mouseUp dims (gest (cv_hooks c)) st1 = (t, g, st2)" by (metis prod_cases3)
  have "\<not> isDragging d \<and> kept odoo True st1"
  proof (cases "dragging c")
    case True
    with inv have "b \<and> \<not> isDragging d \<and> kept odoo True st1" by (intro mid_drag_up [OF _ d]) (simp add: canvas_inv_def)
    then show ?thesis by simp
  next
    case False
    with inv d show ?thesis by (auto simp: canvas_inv_def dragging_def drag_mouseUp_def)
  qed
  moreover from this have "kept odoo True st2"
    using gesture_frames(5,6) [of dims "gest (cv_hooks c)" st1] gesture_sel(3) [of st1 dims "gest (cv_hooks c)"] g
    by (auto simp: kept_def)
  ultimately show ?thesis using False d g kept_ui(2) by (auto simp: canvas_setReadonly_def on_hooks_def canvas_inv_def dragging_def)
qed

lemma inv_mid: "mid_drag odoo (fst ds) (snd ds) \<Longrightarrow> canvas_inv odoo (on_drag ds c)"
  by (simp add: on_drag_def canvas_inv_def dragging_def mid_drag_dragging)

lemma inv_dragging_events:
  assumes inv: "canvas_inv odoo c" and ok: "canvas_ok ev c"
    and ev: "while_dragging ev \<or> (\<exists>i p. ev = DragStart i p)"
  shows "canvas_inv odoo (canvas_step odoo L dims r ev c)"
proof (cases ev)
  case (PointerMove p)
  then show ?thesis using inv_frame [OF inv refl] inv inv_sel [OF inv]
    by (auto simp: onDocumentMouseMove_def canvas_inv_def dragging_def)
next
  case (Click bg)
  have "graph (onCanvasClick bg w st) = graph st" "hist (onCanvasClick bg w st) = hist st"
    "distinct (sel_nodeIds (selection (ui st))) \<Longrightarrow> distinct (sel_nodeIds (selection (ui (onCanvasClick bg w st))))" for w st
    by (simp_all add: onCanvasClick_def clearSelection_def)
  with Click show ?thesis using inv_frame [OF inv refl] inv_sel [OF inv] by (simp add: on_store_def)
next
  case SelectionTimer
  with inv show ?thesis by (simp add: selection_timer_def canvas_inv_def dragging_def)
next
  case (DragStart i p)
  then have "\<not> dragging c" using ok by (simp add: canvas_ok_def while_dragging_def)
  with inv have k: "kept odoo True (cv_store c)" by (simp add: inv_idle)
  show ?thesis
  proof (cases "isReadonly (cv_store c)")
    case True
    with DragStart inv show ?thesis by (simp add: onNodeDragStart_def on_drag_def)
  next
    case False
    with DragStart inv_mid [of odoo "(onNodeDragStart False i p (drag_hook (cv_hooks c)) (cv_store c), cv_store c)"] mid_drag_start [OF k]
    show ?thesis by simp
  qed
next
  case DragFrame
  show ?thesis
  proof (cases "dragging c")
    case True
    with inv have "mid_drag odoo (drag_hook (cv_hooks c)) (cv_store c)" by (simp add: canvas_inv_def)
    from inv_mid [OF mid_drag_frames(1) [OF this]] DragFrame show ?thesis by simp
  next
    case False
    with inv DragFrame show ?thesis
      by (auto simp: canvas_inv_def on_drag_def dragging_def runDragFrame_def Let_def split: option.splits)
  qed
next
  case ScrollFrame
  show ?thesis
  proof (cases "dragging c")
    case True
    with inv have "mid_drag odoo (drag_hook (cv_hooks c)) (cv_store c)" by (simp add: canvas_inv_def)
    from inv_mid [OF mid_drag_frames(2) [OF this]] ScrollFrame show ?thesis by simp
  next
    case False
    with inv ScrollFrame show ?thesis
      by (auto simp: canvas_inv_def on_drag_def dragging_def autoScrollStep_def Let_def split: option.splits)
  qed
qed (use inv ev inv_mouseDown inv_moveFrame inv_mouseUp inv_readonly in \<open>auto simp: while_dragging_def\<close>)

lemma kept_handlers:
  assumes k: "kept odoo b st"
  shows "kept odoo b (onNodeSelect i ctrl st)" and "kept odoo b (onConnectionSelect j st)" and "kept odoo b (onNodeToggleDisable i st)"
    and "kept odoo b (onDrop odoo r type p st)" and "kept odoo b (onCanvasContextMenu r bg p st)" and "kept odoo b (onSocketQuickAdd dims i h st)"
    and "kept odoo b (onNodeOpenConfig i st)" and "kept odoo b (onConfigPanelSave st)" and "kept odoo b (removeConnectionById j st)"
    and "kept odoo b (snd (onNodeMenuClose w st))"
  using k kept_ui(6) [OF k, of "''config''"]
  by (auto simp: onNodeSelect_def onConnectionSelect_def onNodeToggleDisable_def onDrop_def onCanvasContextMenu_def onSocketQuickAdd_def
      onNodeOpenConfig_def onConfigPanelSave_def onConfigPanelClose_def removeConnectionById_def onNodeMenuClose_def Let_def
      intro: kept_select kept_toggle kept_addNode kept_ui kept_single split: option.split)

lemma drag_kept_by: "dragging (on_store f c) = dragging c" "dragging (on_deferred ts c) = dragging c" "dragging (on_draw ds c) = dragging c"
  by (simp_all add: dragging_def on_store_def on_deferred_def on_draw_def)

lemma inv_other_events:
  assumes inv: "canvas_inv odoo c" and idle: "\<not> dragging c"
    and ev: "\<not> while_dragging ev" "\<forall>i p. ev \<noteq> DragStart i p"
  shows "canvas_inv odoo (canvas_step odoo L dims r ev c)"
proof -
  have k: "kept odoo True (cv_store c)" using inv idle by (simp add: inv_idle)
  have st: "kept odoo True (f (cv_store c)) \<Longrightarrow> canvas_inv odoo (on_store f c)" for f
    using idle by (simp add: inv_idle drag_kept_by) (simp add: on_store_def)
  have de: "kept odoo True (snd ts) \<Longrightarrow> canvas_inv odoo (on_deferred ts c)" for ts
    using idle by (simp add: inv_idle drag_kept_by) (simp add: on_deferred_def)
  have dr: "kept odoo True (snd ds) \<Longrightarrow> canvas_inv odoo (on_draw ds c)" for ds
    using idle by (simp add: inv_idle drag_kept_by) (simp add: on_draw_def)
  have close: "canvas_inv odoo (canvas_step odoo L dims r MenuClose c)"
    using kept_handlers(10) [OF k, of "cv_hooks c"] idle by (simp add: on_hooks_def canvas_inv_def dragging_def onNodeMenuClose_def)
  have undo: "kept odoo True (onUndo (cv_store c))" "kept odoo True (onRedo (cv_store c))"
    using kept_undo [OF k] k by (simp_all add: onUndo_def onRedo_def)
  show ?thesis
    using ev close
    by (cases ev)
       (simp_all add: while_dragging_def st de dr undo k kept_command [OF k] kept_tidy [OF k] kept_delete [OF k] kept_insert [OF k]
          kept_drawing [OF k] kept_handlers [OF k])
qed

interpretation cvs: op_system "canvas_step odoo L dims r" canvas_ok "canvas_inv odoo" for odoo L dims r
proof unfold_locales
  fix c ev assume "canvas_inv odoo c" "canvas_ok ev c"
  then show "canvas_inv odoo (canvas_step odoo L dims r ev c)"
    using inv_dragging_events [of odoo c ev L dims r] inv_other_events [of odoo c ev L dims r] by (auto simp: canvas_ok_def)
qed

lemma start_canvas_inv: "registry_sound odoo \<Longrightarrow> canvas_inv odoo (start_canvas odoo)"
  using start_store_line [of odoo]
  by (simp add: canvas_inv_def dragging_def start_canvas_def new_hooks_def new_drag_def kept_def)
     (simp add: start_store_def hist_onChange_def new_HistoryManager_def DEFAULT_UI_STATE_def no_selection_def)

subsection \<open>Properties\<close>



end
