(* ===== verification/Connection_Toolbar.thy ===== *)
theory Connection_Toolbar
  imports Canvas_Actions
begin

section \<open>The toolbar of a connection\<close>

text \<open>
  Hovering a connection shows a toolbar at its middle (components/editor_canvas.js and
  components/connection_toolbar.js). Three kinds of timers decide when it goes away: one of the canvas,
  set when the pointer leaves the connection or the toolbar, and one of each toolbar instance, set when the
  pointer leaves it. A timer that was set is a field here; running it is a definition. The pointer and the
  rendering are the environment of the step relation below.
\<close>

definition getConnectionMidpoint :: "dimension_config \<Rightarrow> point option \<Rightarrow> ui_conn \<Rightarrow> store \<Rightarrow> point" where
  "getConnectionMidpoint dims mid c st =
     (case mid of
        Some p \<Rightarrow> p
      | None \<Rightarrow>
          (case (store_getNode (uc_source c) st, store_getNode (uc_target c) st) of
             (Some s, Some t) \<Rightarrow>
               (let p = getSocketPosition dims (geo_of s) (uc_sourceHandle c) Output;
                    q = getSocketPosition dims (geo_of t) (uc_targetHandle c) Input
                in ((fst p + fst q) / 2, (snd p + snd q) / 2))
           | _ \<Rightarrow> (0, 0)))"

datatype hover_timer = AfterConnection | AfterToolbar

record hover =
  connectionHoverTimeout :: "hover_timer option"
  isHoveringConnection :: bool
  isHoveringToolbar :: bool
  mounted :: bool
  leaveTimeout :: bool
  staleLeaves :: nat

definition new_hover :: hover where
  "new_hover = \<lparr>connectionHoverTimeout = None, isHoveringConnection = False, isHoveringToolbar = False, mounted = False,
                leaveTimeout = False, staleLeaves = 0\<rparr>"

abbreviation hovered_id :: "store \<Rightarrow> string option" where
  "hovered_id st \<equiv> hov_id (hoveredConnection (ui st))"

definition unhover :: "store \<Rightarrow> store" where
  "unhover = setHoveredConnection None None None"

subsection \<open>Handlers of the canvas\<close>

definition handleConnectionEnter :: "dimension_config \<Rightarrow> point option \<Rightarrow> ui_conn \<Rightarrow> hover \<Rightarrow> store \<Rightarrow> hover \<times> store" where
  "handleConnectionEnter dims mid c w st =
     (if \<not> canEdit st then (w, st)
      else
        (w\<lparr>connectionHoverTimeout := None, isHoveringConnection := True\<rparr>,
         if hovered_id st = Some (uc_id c) then st
         else
           (let p = getConnectionMidpoint dims mid c st
            in setHoveredConnection (Some (uc_id c)) (Some (getScreenPosition (fst p) (snd p) st)) (Some p) st)))"

definition dismissConnectionToolbar :: "hover \<Rightarrow> store \<Rightarrow> hover \<times> store" where
  "dismissConnectionToolbar w st =
     (w\<lparr>connectionHoverTimeout := None, isHoveringConnection := False, isHoveringToolbar := False\<rparr>,
      if hovered_id st \<noteq> None then unhover st else st)"

definition onConnectionMouseLeave :: "hover \<Rightarrow> store \<Rightarrow> hover" where
  "onConnectionMouseLeave w st = (if canEdit st then w\<lparr>connectionHoverTimeout := Some AfterConnection\<rparr> else w)"

definition onToolbarHoverChange :: "bool \<Rightarrow> hover \<Rightarrow> store \<Rightarrow> hover" where
  "onToolbarHoverChange isHovering w st =
     (if \<not> canEdit st then w
      else w\<lparr>isHoveringToolbar := isHovering,
             connectionHoverTimeout := (if isHovering then None else Some AfterToolbar)\<rparr>)"

text \<open>The callback of the timer; \<open>domHover\<close> says that the pointer is over a toolbar in the document.\<close>

definition runHoverTimeout :: "bool \<Rightarrow> hover \<Rightarrow> store \<Rightarrow> hover \<times> store" where
  "runHoverTimeout domHover w st =
     (w\<lparr>connectionHoverTimeout := None\<rparr>,
      case connectionHoverTimeout w of
        None \<Rightarrow> st
      | Some AfterConnection \<Rightarrow> if isHoveringToolbar w \<or> domHover then st else unhover st
      | Some AfterToolbar \<Rightarrow> if isHoveringToolbar w then st else unhover st)"

text \<open>Which connection has the toolbar: the hovered one, else the only selected one if it is drawn.\<close>

definition toolbarConnection :: "string list \<Rightarrow> store \<Rightarrow> string option" where
  "toolbarConnection rendered st =
     (case hovered_id st of
        Some i \<Rightarrow> Some i
      | None \<Rightarrow>
          (case sel_connectionIds (selection (ui st)) of
             [i] \<Rightarrow> if i \<in> set rendered then Some i else None
           | _ \<Rightarrow> None))"

definition onConnectionAddNode :: "rect \<Rightarrow> point option \<Rightarrow> string \<Rightarrow> point \<Rightarrow> store \<Rightarrow> store" where
  "onConnectionAddNode container canvasMidpoint connectionId at_point st =
     (if \<not> canEdit st then st
      else
        (let p = (case canvasMidpoint of
                    Some q \<Rightarrow> q
                  | None \<Rightarrow> getCanvasPosition container (rx container + fst at_point, rY container + snd at_point) st)
         in openNodeMenu (fst at_point) (snd at_point) (fst p) (snd p) ''default''
              (JObj [(''connectionId'', JStr connectionId), (''position'', position_value p)]) st))"

subsection \<open>The toolbar component\<close>

definition toolbar_mounted :: "hover \<Rightarrow> store \<Rightarrow> hover" where
  "toolbar_mounted w st = onToolbarHoverChange True (w\<lparr>mounted := True, leaveTimeout := False\<rparr>) st"

text \<open>An instance that goes away does not clear its timer.\<close>

definition toolbar_unmounted :: "hover \<Rightarrow> hover" where
  "toolbar_unmounted w =
     w\<lparr>mounted := False, leaveTimeout := False, staleLeaves := (if leaveTimeout w then Suc (staleLeaves w) else staleLeaves w)\<rparr>"

definition toolbar_mouseEnter :: "hover \<Rightarrow> store \<Rightarrow> hover" where
  "toolbar_mouseEnter w st = onToolbarHoverChange True (w\<lparr>leaveTimeout := False\<rparr>) st"

definition toolbar_mouseLeave :: "hover \<Rightarrow> hover" where
  "toolbar_mouseLeave w = w\<lparr>leaveTimeout := True\<rparr>"

definition runLeaveTimeout :: "hover \<Rightarrow> store \<Rightarrow> hover" where
  "runLeaveTimeout w st = (if leaveTimeout w then onToolbarHoverChange False (w\<lparr>leaveTimeout := False\<rparr>) st else w)"

definition runStaleLeave :: "hover \<Rightarrow> store \<Rightarrow> hover" where
  "runStaleLeave w st =
     (if staleLeaves w = 0 then w else onToolbarHoverChange False (w\<lparr>staleLeaves := staleLeaves w - 1\<rparr>) st)"

definition render_toolbar :: "string list \<Rightarrow> hover \<Rightarrow> store \<Rightarrow> hover" where
  "render_toolbar rendered w st =
     (case toolbarConnection rendered st of
        Some _ \<Rightarrow> if mounted w then w else toolbar_mounted w st
      | None \<Rightarrow> if mounted w then toolbar_unmounted w else w)"

subsection \<open>The pointer over connections and toolbar\<close>

datatype pointer = Away | OnConnection string | OnToolbar

text \<open>What is reachable in an editable canvas whose graph and selection do not change: the pointer moves
  between the background, connections and the toolbar, the toolbar is rendered, timers run, and panning,
  zooming or resizing dismisses the toolbar, in any order.\<close>

inductive hover_reach :: "dimension_config \<Rightarrow> string list \<Rightarrow> pointer \<Rightarrow> hover \<Rightarrow> store \<Rightarrow> bool" for dims rendered where
  start: "canEdit st \<Longrightarrow> hovered_id st = None \<Longrightarrow> hover_reach dims rendered Away new_hover st"
| enter: "hover_reach dims rendered Away w st \<Longrightarrow> handleConnectionEnter dims mid c w st = (w', st') \<Longrightarrow>
    hover_reach dims rendered (OnConnection (uc_id c)) w' st'"
| leave: "hover_reach dims rendered (OnConnection i) w st \<Longrightarrow> hover_reach dims rendered Away (onConnectionMouseLeave w st) st"
| toolbar_enter: "hover_reach dims rendered Away w st \<Longrightarrow> mounted w \<Longrightarrow>
    hover_reach dims rendered OnToolbar (toolbar_mouseEnter w st) st"
| toolbar_leave: "hover_reach dims rendered OnToolbar w st \<Longrightarrow> hover_reach dims rendered Away (toolbar_mouseLeave w) st"
| rendered: "hover_reach dims rendered p w st \<Longrightarrow> w' = render_toolbar rendered w st \<Longrightarrow>
    hover_reach dims rendered (if p = OnToolbar \<and> \<not> mounted w' then Away else p) w' st"
| timeout: "hover_reach dims rendered p w st \<Longrightarrow> runHoverTimeout (p = OnToolbar) w st = (w', st') \<Longrightarrow>
    hover_reach dims rendered p w' st'"
| leave_timeout: "hover_reach dims rendered p w st \<Longrightarrow> hover_reach dims rendered p (runLeaveTimeout w st) st"
| stale_timeout: "hover_reach dims rendered p w st \<Longrightarrow> hover_reach dims rendered p (runStaleLeave w st) st"
| dismiss: "hover_reach dims rendered p w st \<Longrightarrow> dismissConnectionToolbar w st = (w', st') \<Longrightarrow>
    hover_reach dims rendered p w' st'"

definition hover_inv :: "pointer \<Rightarrow> hover \<Rightarrow> store \<Rightarrow> bool" where
  "hover_inv p w st \<longleftrightarrow> canEdit st
     \<and> (p = OnToolbar \<longrightarrow> connectionHoverTimeout w \<noteq> Some AfterConnection)
     \<and> (hovered_id st \<noteq> None \<and> \<not> isHoveringToolbar w \<longrightarrow>
          (\<exists>i. p = OnConnection i) \<or> connectionHoverTimeout w \<noteq> None \<or> leaveTimeout w)"

lemma hovered_fields [simp]:
  "hovered_id (unhover st) = None" "canEdit (unhover st) = canEdit st" "canEdit (setHoveredConnection i m cm st) = canEdit st"
  by (simp_all add: unhover_def setHoveredConnection_def no_hover_def canEdit_def isReadonly_def)

lemma hover_change_inv: "canEdit st \<Longrightarrow> hover_inv p (onToolbarHoverChange b w st) st"
  by (simp add: hover_inv_def onToolbarHoverChange_def)

lemma toolbarConnection_None: "toolbarConnection rendered st = None \<Longrightarrow> hovered_id st = None"
  by (simp add: toolbarConnection_def split: option.splits)

lemma hover_reach_inv: "hover_reach dims rendered p w st \<Longrightarrow> hover_inv p w st"
proof (induction rule: hover_reach.induct)
  case (enter w st mid c w' st')
  then show ?case by (auto simp: hover_inv_def handleConnectionEnter_def Let_def split: if_splits)
next
  case (rendered p w st w')
  then have ed: "canEdit st" by (simp add: hover_inv_def)
  show ?case
  proof (cases "toolbarConnection rendered st")
    case None
    with rendered toolbarConnection_None [OF None] show ?thesis
      by (auto simp: render_toolbar_def hover_inv_def toolbar_unmounted_def)
  next
    case (Some i)
    with rendered hover_change_inv [OF ed] show ?thesis
      by (auto simp: render_toolbar_def toolbar_mounted_def onToolbarHoverChange_def hover_inv_def)
  qed
next
  case (timeout p w st w' st')
  then show ?case by (auto simp: hover_inv_def runHoverTimeout_def split: option.splits hover_timer.splits if_splits)
qed (auto simp: hover_inv_def onConnectionMouseLeave_def toolbar_mouseEnter_def toolbar_mouseLeave_def onToolbarHoverChange_def
       runLeaveTimeout_def runStaleLeave_def dismissConnectionToolbar_def new_hover_def split: if_splits)

subsection \<open>Properties\<close>

text \<open>Running every timer that is pending, the one of the toolbar first.\<close>

definition run_timers :: "bool \<Rightarrow> hover \<Rightarrow> store \<Rightarrow> hover \<times> store" where
  "run_timers domHover w st = (let w1 = runLeaveTimeout w st in runHoverTimeout domHover w1 st)"


abbreviation demo_conn_ui :: ui_conn where
  "demo_conn_ui \<equiv> \<lparr>uc_id = ''c1'', uc_source = ''n_1'', uc_sourceHandle = ''result'', uc_target = ''n_2'', uc_targetHandle = ''data''\<rparr>"


text \<open>A toolbar that was never entered stays. The toolbar reports, when it appears, that it is hovered, to keep
  the timer of the canvas from hiding it too early. So when the pointer touches a connection and leaves it
  without entering the toolbar, the timer that is meant as a safety net does nothing: the toolbar is still
  shown, and nothing is pending that would hide it.\<close>

theorem passed_toolbar_stays:
  assumes "canEdit st" and "hovered_id st = None" and "uc_id c \<noteq> []"
    and "handleConnectionEnter dims mid c new_hover st = (w1, st1)" and "w2 = render_toolbar rendered w1 st1"
    and "run_timers False (onConnectionMouseLeave w2 st1) st1 = (w', st')"
  shows "hover_reach dims rendered Away w' st' \<and> hovered_id st' = Some (uc_id c)
    \<and> connectionHoverTimeout w' = None \<and> \<not> leaveTimeout w' \<and> staleLeaves w' = 0"
proof -
  have 1: "w1 = new_hover\<lparr>isHoveringConnection := True\<rparr>" "hovered_id st1 = Some (uc_id c)" "canEdit st1"
    using assms(1-4) by (auto simp: handleConnectionEnter_def setHoveredConnection_def Let_def new_hover_def canEdit_def isReadonly_def)
  have 2: "w2 = new_hover\<lparr>isHoveringConnection := True, mounted := True, isHoveringToolbar := True\<rparr>"
    using 1 assms(5) by (simp add: render_toolbar_def toolbarConnection_def toolbar_mounted_def onToolbarHoverChange_def new_hover_def)
  have "hover_reach dims rendered (OnConnection (uc_id c)) w1 st1" by (rule hover_reach.enter [OF hover_reach.start [OF assms(1,2)] assms(4)])
  from hover_reach.rendered [OF this assms(5)] have "hover_reach dims rendered (OnConnection (uc_id c)) w2 st1" by simp
  from hover_reach.timeout [OF hover_reach.leave_timeout [OF hover_reach.leave [OF this]]] assms(6)
  have "hover_reach dims rendered Away w' st'" by (simp add: run_timers_def Let_def)
  then show ?thesis using assms(6) 1(2,3)
    by (auto simp: 2 run_timers_def runLeaveTimeout_def runHoverTimeout_def onConnectionMouseLeave_def new_hover_def Let_def)
qed

theorem passed_toolbar_stays_witness:
  "\<exists>w st. hover_reach plain_dims [] Away w st \<and> hovered_id st = Some ''c1'' \<and> connectionHoverTimeout w = None"
proof -
  let ?st = "start_store builtin_classes"
  have ed: "canEdit ?st" "hovered_id ?st = None"
    by (simp_all add: canEdit_def isReadonly_def start_store_def DEFAULT_UI_STATE_def no_hover_def)
  obtain w1 st1 where 1: "handleConnectionEnter plain_dims (Some (0, 0)) demo_conn_ui new_hover ?st = (w1, st1)" by fastforce
  obtain w' st' where r: "run_timers False (onConnectionMouseLeave (render_toolbar [] w1 st1) st1) st1 = (w', st')" by fastforce
  show ?thesis using passed_toolbar_stays [OF ed _ 1 refl r] by auto
qed

end
