(* ===== verification/Node_Registry.thy ===== *)
theory Node_Registry
  imports Dynamic_Nodes Store "HOL-Library.Multiset"
begin

section \<open>Finding node types (utils/node_registry.js)\<close>

text \<open>
  What the menus show: the registered node types with the texts of the server's descriptions, grouped by
  category, and the recently used ones. The entries of the registries are those the previous theory adds.
  The fuzzy search of the host framework is the parameter \<open>fuzzy\<close>. The recently used keys are the state.
\<close>

record node_type_info =
  ti_key :: string
  ti_class :: node_class
  ti_name :: jsval
  ti_icon :: jsval
  ti_category :: jsval
  ti_description :: jsval
  ti_group :: jsval

text \<open>\<open>backend.field || NodeClass.field || value.field || fallback\<close>, without a description \<open>backend\<close> is null.\<close>

definition first_of :: "jsval \<Rightarrow> string \<Rightarrow> string \<Rightarrow> string \<Rightarrow> string \<Rightarrow> jsval" where
  "first_of backend name c v fallback =
     js_or (js_or (js_or (js_prop backend name) (JStr c)) (JStr v)) (JStr fallback)"

definition type_info :: "jsval \<Rightarrow> string \<Rightarrow> type_entry \<Rightarrow> node_type_info" where
  "type_info backend key v =
     (let C = te_class v
      in \<lparr>ti_key = key, ti_class = C,
          ti_name = first_of backend ''name'' (cls_label C) (te_name v) key,
          ti_icon = first_of backend ''icon'' (cls_icon C) (te_icon v) ''fa-cube'',
          ti_category = first_of backend ''category'' (cls_category C) (te_category v) ''action'',
          ti_description = first_of backend ''description'' (cls_description C) (te_description v) [],
          ti_group = first_of backend ''group'' (cls_group C) (te_group v) []\<rparr>)"

definition getAllNodeTypes :: "('r, type_entry) odoo_registry \<Rightarrow> 'r \<Rightarrow> jsval \<Rightarrow> node_type_info list" where
  "getAllNodeTypes R types backendTypes =
     (if arr_items backendTypes \<noteq> []
      then List.map_filter (\<lambda>e.
             let key = getNodeTypeKey e
             in if key = [] then None
                else map_option (type_info e key) (map_of (rg_entries R types) key)) (arr_items backendTypes)
      else map (\<lambda>(key, v). type_info JNull key v) (rg_entries R types))"

definition findBackendType :: "jsval \<Rightarrow> string \<Rightarrow> jsval" where
  "findBackendType backendTypes key =
     (case List.find (\<lambda>e. getNodeTypeKey e = key) (arr_items backendTypes) of Some e \<Rightarrow> e | None \<Rightarrow> JNull)"

definition getNodeType :: "('r, type_entry) odoo_registry \<Rightarrow> 'r \<Rightarrow> string \<Rightarrow> jsval \<Rightarrow> node_type_info option" where
  "getNodeType R types key backendTypes =
     map_option (type_info (findBackendType backendTypes key) key) (map_of (rg_entries R types) key)"

definition getNodeClass_of :: "('r, type_entry) odoo_registry \<Rightarrow> 'r \<Rightarrow> string \<Rightarrow> node_class option" where
  "getNodeClass_of R types key = map_option te_class (map_of (rg_entries R types) key)"

subsection \<open>Categories\<close>

definition category_sequence :: "category_entry \<Rightarrow> rat" where
  "category_sequence v = num_of (js_or (cat_sequence v) (JNum 100))"

text \<open>The sort of the language is stable, and so is \<open>sort_key\<close>.\<close>

definition getCategories :: "('c, category_entry) odoo_registry \<Rightarrow> 'c \<Rightarrow> (string \<times> category_entry) list" where
  "getCategories K cats = sort_key (\<lambda>(k, v). category_sequence v) (rg_entries K cats)"

record node_group =
  grp_key :: string
  grp_name :: string
  grp_icon :: string
  grp_nodes :: "node_type_info list"

definition groupByCategory :: "(string \<times> category_entry) list \<Rightarrow> node_type_info list \<Rightarrow> node_group list" where
  "groupByCategory categories ns =
     (let of_cat = (\<lambda>k. filter (\<lambda>n. ti_category n = JStr k) ns);
          uncategorized = filter (\<lambda>n. ti_category n \<notin> JStr ` set (map_keys categories)) ns
      in List.map_filter (\<lambda>(k, v). if of_cat k = [] then None
              else Some \<lparr>grp_key = k, grp_name = cat_name v, grp_icon = cat_icon v, grp_nodes = of_cat k\<rparr>) categories
         @ (if uncategorized = [] then []
            else [\<lparr>grp_key = ''default'', grp_name = ''Other'', grp_icon = ''fa-cube'', grp_nodes = uncategorized\<rparr>]))"

definition searchNodes ::
    "(string \<Rightarrow> node_type_info list \<Rightarrow> node_type_info list) \<Rightarrow> ('r, type_entry) odoo_registry \<Rightarrow> ('c, category_entry) odoo_registry
      \<Rightarrow> 'r \<Rightarrow> 'c \<Rightarrow> string \<Rightarrow> jsval \<Rightarrow> jsval \<Rightarrow> node_group list" where
  "searchNodes fuzzy R K types cats searchValue category_option backendTypes =
     (let all = getAllNodeTypes R types backendTypes;
          ns = (if truthy category_option then filter (\<lambda>n. ti_category n = category_option) all else all);
          found = (if js_trim searchValue \<noteq> [] then fuzzy searchValue ns else ns)
      in groupByCategory (getCategories K cats) found)"

subsection \<open>Recently used types\<close>

definition trackNodeUsage :: "string \<Rightarrow> string list \<Rightarrow> string list" where
  "trackNodeUsage key recent = take 10 (key # filter (\<lambda>k. k \<noteq> key) recent)"

definition pruneRecentNodes :: "string list \<Rightarrow> string list \<Rightarrow> string list" where
  "pruneRecentNodes valid recent = (if valid = [] then [] else filter (\<lambda>k. k \<in> set valid) recent)"

definition getRecentNodes :: "('r, type_entry) odoo_registry \<Rightarrow> 'r \<Rightarrow> nat \<Rightarrow> string list \<Rightarrow> node_type_info list" where
  "getRecentNodes R types limit recent = List.map_filter (\<lambda>k. getNodeType R types k JNull) (take limit recent)"

definition clearRecentNodes :: "string list \<Rightarrow> string list" where
  "clearRecentNodes recent = []"

subsection \<open>Loading the types (store/workflow_store.js)\<close>

text \<open>\<open>loadNodeTypes\<close> of the store with the reply of the server: the types are registered, the recent ones
  pruned, the editor gets the new classes and the menus the new descriptions.\<close>

definition loadNodeTypes ::
    "(string \<Rightarrow> jsval option) \<Rightarrow> ('r, type_entry) odoo_registry \<Rightarrow> ('c, category_entry) odoo_registry
      \<Rightarrow> jsval \<Rightarrow> 'r \<times> 'c \<times> string list \<times> store \<Rightarrow> 'r \<times> 'c \<times> string list \<times> store" where
  "loadNodeTypes parse R K reply state =
     (let (types, cats, recent, st) = state;
          backendTypes = JArr (arr_items reply);
          (keys, types', cats') = registerBackendNodeTypes parse R K backendTypes types cats;
          st' = st\<lparr>graph := adapter_refreshNodeRegistry (registered_classes R types') (graph st)\<rparr>
      in (types', cats', pruneRecentNodes keys recent, setNodeTypes backendTypes st'))"

datatype recent_op = Track string | Prune "string list" | ClearRecent

fun recent_step :: "recent_op \<Rightarrow> string list \<Rightarrow> string list" where
  "recent_step (Track k) r = trackNodeUsage k r"
| "recent_step (Prune ks) r = pruneRecentNodes ks r"
| "recent_step ClearRecent r = clearRecentNodes r"

interpretation rec: op_system recent_step "\<lambda>_ _. True" "\<lambda>r. distinct r \<and> length r \<le> 10"
proof unfold_locales
  fix r :: "string list" and op
  assume r: "distinct r \<and> length r \<le> 10"
  show "distinct (recent_step op r) \<and> length (recent_step op r) \<le> 10"
  proof (cases op)
    case (Prune ks)
    have "length (filter (\<lambda>k. k \<in> set ks) r) \<le> 10" using r by (intro order_trans [OF length_filter_le]) simp
    then show ?thesis using r Prune by (simp add: pruneRecentNodes_def)
  qed (use r in \<open>auto simp: trackNodeUsage_def clearRecentNodes_def dest: in_set_takeD\<close>)
qed

subsection \<open>The menu shows every type once\<close>

lemma mset_groups:
  assumes "distinct ks"
  shows "mset (concat (map (\<lambda>k. filter (\<lambda>n. f n = k) ns) ks)) = mset (filter (\<lambda>n. f n \<in> set ks) ns)"
  using assms
proof (induction ks)
  case (Cons k ks)
  have "filter (\<lambda>n. f n \<in> set (k # ks)) ns = filter (\<lambda>n. f n = k \<or> f n \<in> set ks) ns" by (simp add: eq_commute)
  moreover have "mset (filter (\<lambda>n. f n = k \<or> f n \<in> set ks) ns) = mset (filter (\<lambda>n. f n = k) ns) + mset (filter (\<lambda>n. f n \<in> set ks) ns)"
    using Cons.prems by (induction ns) auto
  ultimately show ?case using Cons by simp
qed simp

lemma group_nodes_concat:
  "concat (map grp_nodes (groupByCategory categories ns)) =
     concat (map (\<lambda>k. filter (\<lambda>n. ti_category n = JStr k) ns) (map_keys categories))
     @ filter (\<lambda>n. ti_category n \<notin> JStr ` set (map_keys categories)) ns"
proof -
  have "concat (map grp_nodes (List.map_filter (\<lambda>(k, v). if g k = [] then None
      else Some \<lparr>grp_key = k, grp_name = cat_name v, grp_icon = cat_icon v, grp_nodes = g k\<rparr>) cs))
    = concat (map g (map_keys cs))" for g and cs :: "(string \<times> category_entry) list"
    by (induction cs) (auto simp: List.map_filter_simps)
  then show ?thesis by (simp add: groupByCategory_def Let_def)
qed

lemma groups_partition:
  assumes "distinct (map_keys categories)"
  shows "mset (concat (map grp_nodes (groupByCategory categories ns))) = mset ns"
proof -
  have d: "distinct (map JStr (map_keys categories))" using assms by (simp add: distinct_map inj_on_def del: map_map)
  have "mset (concat (map (\<lambda>k. filter (\<lambda>n. ti_category n = JStr k) ns) (map_keys categories)))
      = mset (filter (\<lambda>n. ti_category n \<in> JStr ` set (map_keys categories)) ns)"
    using mset_groups [OF d, of ti_category ns] by (simp add: comp_def image_image)
  then show ?thesis unfolding group_nodes_concat by simp
qed

lemma group_members:
  "g \<in> set (groupByCategory categories ns) \<Longrightarrow> grp_nodes g \<noteq> []
     \<and> (\<forall>n \<in> set (grp_nodes g). ti_category n = JStr (grp_key g)
          \<or> grp_key g = ''default'' \<and> ti_category n \<notin> JStr ` set (map_keys categories))"
  by (auto simp: groupByCategory_def Let_def List.map_filter_def image_iff split: if_splits)

lemma all_types_keys:
  assumes "registry_ok R"
  shows "ti_key ` set (getAllNodeTypes R types backendTypes) =
    (if arr_items backendTypes \<noteq> []
     then {k \<in> set (map_keys (rg_entries R types)). k \<noteq> [] \<and> k \<in> getNodeTypeKey ` set (arr_items backendTypes)}
     else set (map_keys (rg_entries R types)))"
proof -
  have key: "ti_key (type_info e k v) = k" for e k v by (simp add: type_info_def Let_def)
  show ?thesis
  proof (cases "arr_items backendTypes = []")
    case True
    then show ?thesis by (auto simp: getAllNodeTypes_def key image_image case_prod_beta')
  next
    case False
    have "k \<in> set (map_keys (rg_entries R types)) \<longleftrightarrow> (\<exists>v. map_of (rg_entries R types) k = Some v)" for k
      by (metis domIff dom_map_of_conv_image_fst not_None_eq set_map)
    with False show ?thesis
      by (auto simp: getAllNodeTypes_def List.map_filter_def key Let_def image_iff simp del: set_map) (force simp: key)+
  qed
qed

lemma editor_registry_keys:
  "set (map_keys (nodeRegistry (core (adapter_refreshNodeRegistry odoo a)))) = set (map_keys odoo)"
proof -
  have "set (map_keys (foldl (\<lambda>reg (key, C). obj_set key C reg) acc cs)) = set (map_keys acc) \<union> set (map_keys cs)"
    for acc cs :: "(string \<times> node_class) list"
    by (induction cs arbitrary: acc) (auto simp: jso.set_keys_put simp del: set_map) 
  then show ?thesis by (simp add: adapter_refreshNodeRegistry_def buildNodeRegistryFromOdoo_def)
qed

text \<open>C26: The node menu offers exactly the types the editor can create. After the types of the server have been
  loaded, the menu without a search text shows, over all its groups, one item per description; the keys shown
  are the keys of the classes the editor has; no group is empty, and every type is in the group of its
  category, or in the group for the rest if its category is not registered; and of the recently used types
  only registered ones are left.\<close>

theorem menu_shows_registered_types:
  assumes "registry_ok R" and "registry_ok K"
    and "loadNodeTypes parse R K reply (types, cats, recent, st) = (types', cats', recent', st')"
    and "groups = searchNodes fuzzy R K types' cats' [] JUndef (JArr (nodeTypes st'))"
  shows "mset (concat (map grp_nodes groups)) = mset (getAllNodeTypes R types' (JArr (nodeTypes st')))
    \<and> ti_key ` set (concat (map grp_nodes groups)) = set (map_keys (nodeRegistry (core (graph st'))))
    \<and> (\<forall>g \<in> set groups. grp_nodes g \<noteq> [] \<and> (\<forall>n \<in> set (grp_nodes g).
          ti_category n = JStr (grp_key g) \<or> grp_key g = ''default'' \<and> ti_category n \<notin> JStr ` set (map_keys (getCategories K cats'))))
    \<and> set recent' \<subseteq> set (map_keys (nodeRegistry (core (graph st'))))"
proof -
  let ?tds = "arr_items reply"
  obtain keys where call: "registerBackendNodeTypes parse R K (JArr ?tds) types cats = (keys, types', cats')"
    and rest: "recent' = pruneRecentNodes keys recent" "nodeTypes st' = ?tds"
      "graph st' = adapter_refreshNodeRegistry (registered_classes R types') (graph st)"
    using assms(3) by (auto simp: loadNodeTypes_def Let_def setNodeTypes_def split: prod.splits)
  note reg = registered_entries [OF assms(1,2) call]
  have groups: "groups = groupByCategory (getCategories K cats') (getAllNodeTypes R types' (JArr ?tds))"
    by (simp add: assms(4) searchNodes_def Let_def js_trim_def rest(2))
  have "mset (getCategories K cats') = mset (rg_entries K cats')" by (simp add: getCategories_def)
  then have "distinct (map_keys (getCategories K cats'))"
    using registry_laws(3) [OF assms(2)] by (metis mset_map mset_eq_imp_distinct_iff)
  from groups_partition [OF this] have part: "mset (concat (map grp_nodes groups)) = mset (getAllNodeTypes R types' (JArr ?tds))"
    unfolding groups .
  have "map_keys (registered_classes R types') = map_keys (rg_entries R types')"
    by (simp add: registered_classes_def case_prod_beta' comp_def)
  then have keys: "set (map_keys (nodeRegistry (core (graph st')))) = set keys"
    unfolding rest(3) editor_registry_keys using reg(4) by (simp only:)
  have "set keys = getNodeTypeKey ` set (described ?tds)" using reg(1) by simp
  then have "ti_key ` set (getAllNodeTypes R types' (JArr ?tds)) = set keys"
    unfolding all_types_keys [OF assms(1)] reg(4) by (auto simp: described_def)
  moreover have "set recent' \<subseteq> set keys" by (auto simp: rest(1) pruneRecentNodes_def split: if_splits)
  ultimately show ?thesis using part group_members unfolding groups keys rest(2) by (metis mset_eq_setD)
qed

theorem menu_shows_registered_types_witness:
  "\<exists>types' cats' recent' st'.
     loadNodeTypes (\<lambda>_. None) list_registry list_registry (JArr [ping_type, JNull])
       ([(''old'', type_entry_of LoopNode)], [], [''old'', ''ping''], start_store []) = (types', cats', recent', st')
     \<and> ti_key ` set (concat (map grp_nodes (searchNodes (\<lambda>_ ns. ns) list_registry list_registry types' cats' [] JUndef
          (JArr (nodeTypes st'))))) = set (map_keys (nodeRegistry (core (graph st'))))
     \<and> set recent' \<subseteq> set (map_keys (nodeRegistry (core (graph st'))))"
proof -
  let ?call = "loadNodeTypes (\<lambda>_. None) list_registry list_registry (JArr [ping_type, JNull])
     ([(''old'', type_entry_of LoopNode)], [], [''old'', ''ping''], start_store [])"
  obtain types' cats' recent' st' where call: "?call = (types', cats', recent', st')" by (cases ?call) auto
  from menu_shows_registered_types [OF list_registry_ok list_registry_ok call refl, of "\<lambda>_ ns. ns"] call show ?thesis by blast
qed

text \<open>The list of recently used types holds at most ten keys, each once, after any use of the menus; a type that
  is used comes first, and after the types were reloaded only registered ones are left.\<close>

theorem recent_types_ok:
  "distinct (run_ops recent_step ops []) \<and> length (run_ops recent_step ops []) \<le> 10
     \<and> take 1 (recent_step (Track k) (run_ops recent_step ops [])) = [k]
     \<and> set (recent_step (Prune keys) (run_ops recent_step ops [])) \<subseteq> set keys"
  using rec.run_invar [of "[]" ops] by (auto simp: trackNodeUsage_def pruneRecentNodes_def split: if_splits)

end
