(* ===== verification/Exec_Context.thy ===== *)
theory Exec_Context
  imports Expression
begin

section \<open>The execution context (core/context.js)\<close>

text \<open>
  The variables of an execution are a graph of objects that the methods change in place, and the caller may
  keep references into it. So objects and arrays live in a heap: a list of cells, a reference is an address,
  and allocation appends a cell. An array cell has its elements (\<open>None\<close> is a hole) and its other properties. A
  method that may throw returns the exception, if any, with the heap as it is then: what was written before
  stays. Exceptions of the language are \<open>JsError\<close> with the kind of the exception. Properties inherited from a
  prototype are not visible, as in the prelude.
\<close>

subsection \<open>The heap\<close>

datatype hval = HUndef | HNull | HBool bool | HNum rat | HStr string | HRef nat

datatype cell = CObj "(string \<times> hval) list" | CArr "hval option list" "(string \<times> hval) list"

type_synonym heap = "cell list"

fun htruthy :: "hval \<Rightarrow> bool" where
  "htruthy (HBool b) = b"
| "htruthy (HNum n) = (n \<noteq> 0)"
| "htruthy (HStr s) = (s \<noteq> [])"
| "htruthy (HRef a) = True"
| "htruthy _ = False"

fun hnullish :: "hval \<Rightarrow> bool" where
  "hnullish HUndef = True"
| "hnullish HNull = True"
| "hnullish _ = False"

definition alloc :: "cell \<Rightarrow> heap \<Rightarrow> hval \<times> heap" where
  "alloc c h = (HRef (length h), h @ [c])"

text \<open>The own property \<open>k\<close> of a cell: \<open>None\<close> if there is none.\<close>

fun cell_get :: "cell \<Rightarrow> string \<Rightarrow> hval option" where
  "cell_get (CObj ps) k = map_of ps k"
| "cell_get (CArr xs ps) k =
     (if k = ''length'' then Some (HNum (of_nat (length xs)))
      else if is_index_key k then (if nat_of_digits k < length xs then xs ! nat_of_digits k else None)
      else map_of ps k)"

definition string_prop :: "string \<Rightarrow> string \<Rightarrow> hval" where
  "string_prop s k =
     (if k = ''length'' then HNum (of_nat (length s))
      else if is_index_key k \<and> nat_of_digits k < length s then HStr [s ! nat_of_digits k] else HUndef)"

text \<open>The read \<open>v[k]\<close> of a value that is not null or undefined.\<close>

fun hprop :: "heap \<Rightarrow> hval \<Rightarrow> string \<Rightarrow> hval" where
  "hprop h (HRef a) k = (if a < length h then (case cell_get (h ! a) k of Some v \<Rightarrow> v | None \<Rightarrow> HUndef) else HUndef)"
| "hprop h (HStr s) k = string_prop s k"
| "hprop h _ k = HUndef"

definition set_length :: "nat \<Rightarrow> hval option list \<Rightarrow> hval option list" where
  "set_length n xs = take n xs @ replicate (n - length xs) None"

fun cell_set :: "cell \<Rightarrow> string \<Rightarrow> hval \<Rightarrow> js_error + cell" where
  "cell_set (CObj ps) k v = Inr (CObj (obj_set k v ps))"
| "cell_set (CArr xs ps) k v =
     (if k = ''length''
      then (case v of
              HNum q \<Rightarrow> if 0 \<le> q \<and> q = of_int \<lfloor>q\<rfloor> \<and> q < 2 ^ 32 then Inr (CArr (set_length (nat \<lfloor>q\<rfloor>) xs) ps)
                        else Inl (JsError ''RangeError'')
            | _ \<Rightarrow> Inl (JsError ''RangeError''))
      else if is_index_key k
      then Inr (CArr ((set_length (max (length xs) (Suc (nat_of_digits k))) xs)[nat_of_digits k := Some v]) ps)
      else Inr (CArr xs (obj_set k v ps)))"

text \<open>The write \<open>o[k] = v\<close> in strict mode: it throws on everything that is not an object.\<close>

fun hset :: "hval \<Rightarrow> string \<Rightarrow> hval \<Rightarrow> heap \<Rightarrow> js_error option \<times> heap" where
  "hset (HRef a) k v h =
     (if a < length h
      then (case cell_set (h ! a) k v of Inl e \<Rightarrow> (Some e, h) | Inr c \<Rightarrow> (None, h[a := c]))
      else (Some (JsError ''TypeError''), h))"
| "hset _ k v h = (Some (JsError ''TypeError''), h)"

fun cell_delete :: "cell \<Rightarrow> string \<Rightarrow> js_error + cell" where
  "cell_delete (CObj ps) k = Inr (CObj (obj_del k ps))"
| "cell_delete (CArr xs ps) k =
     (if k = ''length'' then Inl (JsError ''TypeError'')
      else if is_index_key k then Inr (CArr (if nat_of_digits k < length xs then xs[nat_of_digits k := None] else xs) ps)
      else Inr (CArr xs (obj_del k ps)))"

fun hdelete :: "hval \<Rightarrow> string \<Rightarrow> heap \<Rightarrow> js_error option \<times> heap" where
  "hdelete (HRef a) k h =
     (if a < length h
      then (case cell_delete (h ! a) k of Inl e \<Rightarrow> (Some e, h) | Inr c \<Rightarrow> (None, h[a := c])) else (None, h))"
| "hdelete _ k h = (None, h)"

fun is_array_ref :: "heap \<Rightarrow> hval \<Rightarrow> bool" where
  "is_array_ref h (HRef a) = (a < length h \<and> (case h ! a of CArr _ _ \<Rightarrow> True | CObj _ \<Rightarrow> False))"
| "is_array_ref h _ = False"

fun is_ref :: "hval \<Rightarrow> bool" where
  "is_ref (HRef _) = True"
| "is_ref _ = False"

subsection \<open>Paths\<close>

text \<open>\<open>/^(\w+)\[(\d+)\]$/\<close>: a name and the index, with the index as a property key.\<close>

datatype path_part = PlainPart string | IndexPart string string

definition path_part_of :: "string \<Rightarrow> path_part" where
  "path_part_of part =
     (let name = takeWhile word_char part; rest = dropWhile word_char part; ds = takeWhile is_digit (tl rest)
      in if name \<noteq> [] \<and> js_starts rest ''['' \<and> ds \<noteq> [] \<and> dropWhile is_digit (tl rest) = '']''
         then IndexPart name (show_nat (nat_of_digits ds)) else PlainPart part)"

definition path_parts :: "string \<Rightarrow> path_part list" where
  "path_parts path = map path_part_of (js_split (CHR ''.'') path)"

fun resolve_parts :: "heap \<Rightarrow> hval \<Rightarrow> path_part list \<Rightarrow> hval" where
  "resolve_parts h cur [] = cur"
| "resolve_parts h cur (PlainPart k # ps) = (if hnullish cur then HUndef else resolve_parts h (hprop h cur k) ps)"
| "resolve_parts h cur (IndexPart k i # ps) =
     (if hnullish cur then HUndef
      else resolve_parts h (let arr = hprop h cur k in if hnullish arr then HUndef else hprop h arr i) ps)"

definition resolvePath :: "heap \<Rightarrow> hval \<Rightarrow> string \<Rightarrow> hval" where
  "resolvePath h v path = (if path = [] then v else if hnullish v then HUndef else resolve_parts h v (path_parts path))"

text \<open>Reading \<open>o[k]\<close> for the test \<open>!o[k]\<close>, and writing a fresh object or array there if the test holds.\<close>

definition ensure_prop :: "cell \<Rightarrow> hval \<Rightarrow> string \<Rightarrow> heap \<Rightarrow> js_error option \<times> heap" where
  "ensure_prop c cur k h =
     (if hnullish cur then (Some (JsError ''TypeError''), h)
      else if htruthy (hprop h cur k) then (None, h)
      else let (r, h1) = alloc c h in hset cur k r h1)"

text \<open>\<open>if (!(k in o) || o[k] === null) o[k] = {}\<close>\<close>

definition ensure_in :: "hval \<Rightarrow> string \<Rightarrow> heap \<Rightarrow> js_error option \<times> heap" where
  "ensure_in cur k h =
     (case cur of
        HRef a \<Rightarrow>
          if a < length h \<and> cell_get (h ! a) k \<noteq> None \<and> hprop h cur k \<noteq> HNull then (None, h)
          else let (r, h1) = alloc (CObj []) h in hset cur k r h1
      | _ \<Rightarrow> (Some (JsError ''TypeError''), h))"

definition step_into :: "hval \<Rightarrow> path_part \<Rightarrow> heap \<Rightarrow> (js_error + hval) \<times> heap" where
  "step_into cur p h =
     (case p of
        PlainPart k \<Rightarrow>
          (case ensure_in cur k h of (Some e, h1) \<Rightarrow> (Inl e, h1) | (None, h1) \<Rightarrow> (Inr (hprop h1 cur k), h1))
      | IndexPart k i \<Rightarrow>
          (case ensure_prop (CArr [] []) cur k h of
             (Some e, h1) \<Rightarrow> (Inl e, h1)
           | (None, h1) \<Rightarrow>
               (let arr = hprop h1 cur k
                in case ensure_prop (CObj []) arr i h1 of
                     (Some e, h2) \<Rightarrow> (Inl e, h2)
                   | (None, h2) \<Rightarrow> (Inr (hprop h2 arr i), h2))))"

definition write_last :: "hval \<Rightarrow> path_part \<Rightarrow> hval \<Rightarrow> heap \<Rightarrow> js_error option \<times> heap" where
  "write_last cur p v h =
     (case p of
        PlainPart k \<Rightarrow> hset cur k v h
      | IndexPart k i \<Rightarrow>
          (case ensure_prop (CArr [] []) cur k h of
             (Some e, h1) \<Rightarrow> (Some e, h1)
           | (None, h1) \<Rightarrow> hset (hprop h1 cur k) i v h1))"

fun set_parts :: "hval \<Rightarrow> path_part list \<Rightarrow> hval \<Rightarrow> heap \<Rightarrow> js_error option \<times> heap" where
  "set_parts cur [] v h = (None, h)"
| "set_parts cur [p] v h = write_last cur p v h"
| "set_parts cur (p # q # ps) v h =
     (case step_into cur p h of
        (Inl e, h1) \<Rightarrow> (Some e, h1)
      | (Inr cur', h1) \<Rightarrow> set_parts cur' (q # ps) v h1)"

definition setPath :: "hval \<Rightarrow> string \<Rightarrow> hval \<Rightarrow> heap \<Rightarrow> js_error option \<times> heap" where
  "setPath obj path v h = set_parts obj (path_parts path) v h"

subsection \<open>The context\<close>

record loop_state =
  lp_collection :: hval
  lp_index :: nat
  lp_total :: nat

record exec_context =
  heap_of :: heap
  vars :: hval
  nodeOutputs :: hval
  currentNodeId :: "string option"
  loopStack :: "loop_state list" \<comment> \<open>the innermost loop first\<close>
  nodeContext :: "(string, hval) js_map"
  currentInput :: hval

definition new_ExecutionContext :: exec_context where
  "new_ExecutionContext =
     \<lparr>heap_of = [CObj [], CObj []], vars = HRef 0, nodeOutputs = HRef 1, currentNodeId = None, loopStack = [],
      nodeContext = [], currentInput = HNull\<rparr>"

definition with_heap :: "js_error option \<times> heap \<Rightarrow> exec_context \<Rightarrow> js_error option \<times> exec_context" where
  "with_heap r ctx = (fst r, ctx\<lparr>heap_of := snd r\<rparr>)"

subsubsection \<open>Variables\<close>

definition getVariable :: "exec_context \<Rightarrow> string \<Rightarrow> hval" where
  "getVariable ctx path = resolvePath (heap_of ctx) (vars ctx) path"

definition setVariable :: "string \<Rightarrow> hval \<Rightarrow> exec_context \<Rightarrow> js_error option \<times> exec_context" where
  "setVariable path v ctx =
     (if path = [] then (Some (JsError ''Variable path is required''), ctx)
      else with_heap (setPath (vars ctx) path v (heap_of ctx)) ctx)"

fun array_push :: "heap \<Rightarrow> hval \<Rightarrow> hval \<Rightarrow> heap" where
  "array_push h (HRef a) v = (case h ! a of CArr xs ps \<Rightarrow> h[a := CArr (xs @ [Some v]) ps] | CObj _ \<Rightarrow> h)"
| "array_push h _ v = h"

definition appendVariable :: "string \<Rightarrow> hval \<Rightarrow> exec_context \<Rightarrow> js_error option \<times> exec_context" where
  "appendVariable path v ctx =
     (let arr = getVariable ctx path;
          (err, arr', ctx') =
            (if arr = HUndef
             then let (r, h1) = alloc (CArr [] []) (heap_of ctx); (e, c) = setVariable path r (ctx\<lparr>heap_of := h1\<rparr>) in (e, r, c)
             else (None, arr, ctx))
      in case err of
           Some e \<Rightarrow> (Some e, ctx')
         | None \<Rightarrow>
             if \<not> is_array_ref (heap_of ctx') arr' then (Some (JsError (''Cannot append to non-array at path: '' @ path)), ctx')
             else (None, ctx'\<lparr>heap_of := array_push (heap_of ctx') arr' v\<rparr>))"

fun own_entries :: "heap \<Rightarrow> hval \<Rightarrow> (string \<times> hval) list" where
  "own_entries h (HRef a) =
     (if a < length h
      then (case h ! a of
              CObj ps \<Rightarrow> ps
            | CArr xs ps \<Rightarrow> List.map_filter (\<lambda>(i, x). map_option (Pair (show_nat i)) x) (enumerate 0 xs) @ ps)
      else [])"
| "own_entries h (HStr s) = map (\<lambda>(i, c). (show_nat i, HStr [c])) (enumerate 0 s)"
| "own_entries h _ = []"

fun assign_all :: "hval \<Rightarrow> (string \<times> hval) list \<Rightarrow> heap \<Rightarrow> js_error option \<times> heap" where
  "assign_all obj [] h = (None, h)"
| "assign_all obj ((k, v) # ps) h =
     (case hset obj k v h of (Some e, h1) \<Rightarrow> (Some e, h1) | (None, h1) \<Rightarrow> assign_all obj ps h1)"

definition mergeVariable :: "string \<Rightarrow> hval \<Rightarrow> exec_context \<Rightarrow> js_error option \<times> exec_context" where
  "mergeVariable path v ctx =
     (let obj = getVariable ctx path;
          (err, obj', ctx') =
            (if obj = HUndef
             then let (r, h1) = alloc (CObj []) (heap_of ctx); (e, c) = setVariable path r (ctx\<lparr>heap_of := h1\<rparr>) in (e, r, c)
             else (None, obj, ctx))
      in case err of
           Some e \<Rightarrow> (Some e, ctx')
         | None \<Rightarrow>
             if \<not> is_ref obj' \<or> is_array_ref (heap_of ctx') obj'
             then (Some (JsError (''Cannot merge into non-object at path: '' @ path)), ctx')
             else with_heap (assign_all obj' (own_entries (heap_of ctx') v) (heap_of ctx')) ctx')"

text \<open>The operator \<open>+\<close> with a number on the right. The text of an object is taken by \<open>show_ref\<close>.\<close>

fun js_plus :: "(nat \<Rightarrow> string) \<Rightarrow> hval \<Rightarrow> rat \<Rightarrow> hval" where
  "js_plus show_ref (HNum n) q = HNum (n + q)"
| "js_plus show_ref (HBool b) q = HNum ((if b then 1 else 0) + q)"
| "js_plus show_ref (HStr s) q = HStr (s @ show_num q)"
| "js_plus show_ref (HRef a) q = HStr (show_ref a @ show_num q)"
| "js_plus show_ref _ q = HNum q"

definition incrementVariable ::
    "(nat \<Rightarrow> string) \<Rightarrow> string \<Rightarrow> rat \<Rightarrow> exec_context \<Rightarrow> (js_error + hval) \<times> exec_context" where
  "incrementVariable show_ref path amount ctx =
     (let current = getVariable ctx path;
          newValue = js_plus show_ref (if htruthy current then current else HNum 0) amount
      in case setVariable path newValue ctx of
           (Some e, ctx') \<Rightarrow> (Inl e, ctx')
         | (None, ctx') \<Rightarrow> (Inr newValue, ctx'))"

definition deleteVariable :: "string \<Rightarrow> exec_context \<Rightarrow> js_error option \<times> exec_context" where
  "deleteVariable path ctx =
     (let parts = js_split (CHR ''.'') path
      in if path = [] then (None, ctx)
         else if length parts = 1 then with_heap (hdelete (vars ctx) path (heap_of ctx)) ctx
         else let parent = getVariable ctx (js_join ''.'' (butlast parts))
              in if is_ref parent then with_heap (hdelete parent (last parts) (heap_of ctx)) ctx else (None, ctx))"

definition hasVariable :: "exec_context \<Rightarrow> string \<Rightarrow> bool" where
  "hasVariable ctx path \<longleftrightarrow> getVariable ctx path \<noteq> HUndef"

subsubsection \<open>Node outputs and input\<close>

definition setNodeOutput :: "string \<Rightarrow> hval \<Rightarrow> exec_context \<Rightarrow> js_error option \<times> exec_context" where
  "setNodeOutput nodeId output ctx =
     (case hset (nodeOutputs ctx) nodeId output (heap_of ctx) of
        (Some e, h) \<Rightarrow> (Some e, ctx\<lparr>heap_of := h\<rparr>)
      | (None, h) \<Rightarrow> (None, ctx\<lparr>heap_of := h, currentNodeId := Some nodeId\<rparr>))"

definition getNodeOutput :: "exec_context \<Rightarrow> string \<Rightarrow> hval" where
  "getNodeOutput ctx nodeId = hprop (heap_of ctx) (nodeOutputs ctx) nodeId"

text \<open>The getter \<open>_json\<close> makes an empty object when there is no output.\<close>

definition json_of :: "exec_context \<Rightarrow> hval \<times> exec_context" where
  "json_of ctx =
     (let fresh = (let (r, h) = alloc (CObj []) (heap_of ctx) in (r, ctx\<lparr>heap_of := h\<rparr>))
      in case currentNodeId ctx of
           None \<Rightarrow> fresh
         | Some i \<Rightarrow>
             if i = [] then fresh
             else let out = getNodeOutput ctx i; j = (if hnullish out then HUndef else hprop (heap_of ctx) out ''json'')
                  in if htruthy j then (j, ctx) else if htruthy out then (out, ctx) else fresh)"

definition setCurrentInput :: "hval \<Rightarrow> exec_context \<Rightarrow> exec_context" where
  "setCurrentInput v ctx = ctx\<lparr>currentInput := v\<rparr>"

subsubsection \<open>Loops\<close>

fun array_length :: "heap \<Rightarrow> hval \<Rightarrow> nat" where
  "array_length h (HRef a) = (case h ! a of CArr xs _ \<Rightarrow> length xs | CObj _ \<Rightarrow> 0)"
| "array_length h _ = 0"

definition pushLoop :: "hval \<Rightarrow> exec_context \<Rightarrow> js_error option \<times> exec_context" where
  "pushLoop collection ctx =
     (if \<not> is_array_ref (heap_of ctx) collection then (Some (JsError ''Loop collection must be an array''), ctx)
      else (None, ctx\<lparr>loopStack :=
              \<lparr>lp_collection = collection, lp_index = 0, lp_total = array_length (heap_of ctx) collection\<rparr> # loopStack ctx\<rparr>))"

definition popLoop :: "exec_context \<Rightarrow> loop_state option \<times> exec_context" where
  "popLoop ctx = (case loopStack ctx of [] \<Rightarrow> (None, ctx) | l # ls \<Rightarrow> (Some l, ctx\<lparr>loopStack := ls\<rparr>))"

record loop_view =
  lv_item :: hval
  lv_index :: nat
  lv_total :: nat
  lv_isFirst :: bool
  lv_isLast :: bool

definition loop_of :: "exec_context \<Rightarrow> loop_view option" where
  "loop_of ctx =
     (case loopStack ctx of
        [] \<Rightarrow> None
      | l # _ \<Rightarrow>
          if lp_total l = 0 then None
          else Some \<lparr>lv_item = hprop (heap_of ctx) (lp_collection l) (show_nat (lp_index l)), lv_index = lp_index l,
                     lv_total = lp_total l, lv_isFirst = (lp_index l = 0), lv_isLast = (lp_index l + 1 = lp_total l)\<rparr>)"

definition advanceLoop :: "exec_context \<Rightarrow> bool \<times> exec_context" where
  "advanceLoop ctx =
     (case loopStack ctx of
        [] \<Rightarrow> (False, ctx)
      | l # ls \<Rightarrow> (lp_index l + 1 < lp_total l, ctx\<lparr>loopStack := l\<lparr>lp_index := lp_index l + 1\<rparr> # ls\<rparr>))"

definition isInLoop :: "exec_context \<Rightarrow> bool" where
  "isInLoop ctx \<longleftrightarrow> length (loopStack ctx) > 0"

definition getLoopDepth :: "exec_context \<Rightarrow> nat" where
  "getLoopDepth ctx = length (loopStack ctx)"

record input_view =
  in_item :: hval
  in_json :: hval
  in_index :: "nat option" \<comment> \<open>absent outside of a loop and in an empty loop\<close>

definition input_of :: "exec_context \<Rightarrow> input_view" where
  "input_of ctx =
     (if isInLoop ctx
      then (case loop_of ctx of
              Some v \<Rightarrow> \<lparr>in_item = lv_item v, in_json = lv_item v, in_index = Some (lv_index v)\<rparr>
            | None \<Rightarrow> \<lparr>in_item = HUndef, in_json = HUndef, in_index = None\<rparr>)
      else \<lparr>in_item = currentInput ctx, in_json = currentInput ctx, in_index = None\<rparr>)"

subsubsection \<open>Node contexts\<close>

definition getNodeContext :: "exec_context \<Rightarrow> string \<Rightarrow> hval" where
  "getNodeContext ctx nodeId = (case map_of (nodeContext ctx) nodeId of Some v \<Rightarrow> v | None \<Rightarrow> HUndef)"

definition setNodeContext :: "string \<Rightarrow> hval \<Rightarrow> exec_context \<Rightarrow> exec_context" where
  "setNodeContext nodeId v ctx =
     ctx\<lparr>nodeContext := (if hnullish v then map_del nodeId (nodeContext ctx) else map_set nodeId v (nodeContext ctx))\<rparr>"

definition hasNodeContext :: "exec_context \<Rightarrow> string \<Rightarrow> bool" where
  "hasNodeContext ctx nodeId \<longleftrightarrow> nodeId \<in> set (map_keys (nodeContext ctx))"

definition clearNodeContexts :: "exec_context \<Rightarrow> exec_context" where
  "clearNodeContexts ctx = ctx\<lparr>nodeContext := []\<rparr>"

record expression_context =
  ec_vars :: hval
  ec_node :: hval
  ec_json :: hval
  ec_loop :: "loop_view option"
  ec_input :: input_view

definition toExpressionContext :: "exec_context \<Rightarrow> expression_context \<times> exec_context" where
  "toExpressionContext ctx =
     (let (j, ctx') = json_of ctx
      in (\<lparr>ec_vars = vars ctx, ec_node = nodeOutputs ctx, ec_json = j, ec_loop = loop_of ctx, ec_input = input_of ctx\<rparr>, ctx'))"

subsubsection \<open>Serialisation\<close>

text \<open>
  \<open>JSON.stringify\<close> followed by \<open>JSON.parse\<close>, as a value: fields that are undefined are dropped, holes and
  undefined elements become null. It throws on a cyclic structure; a walk deeper than the number of cells has
  met a cell twice, so the number of cells is enough fuel.
\<close>

fun read_json :: "nat \<Rightarrow> heap \<Rightarrow> hval \<Rightarrow> jsval option" where
  "read_json fuel h HUndef = Some JUndef"
| "read_json fuel h HNull = Some JNull"
| "read_json fuel h (HBool b) = Some (JBool b)"
| "read_json fuel h (HNum n) = Some (JNum n)"
| "read_json fuel h (HStr s) = Some (JStr s)"
| "read_json 0 h (HRef a) = None"
| "read_json (Suc fuel) h (HRef a) =
     (case h ! a of
        CObj ps \<Rightarrow>
          map_option JObj (those (map (\<lambda>(k, v). map_option (Pair k) (read_json fuel h v)) (filter (\<lambda>(k, v). v \<noteq> HUndef) ps)))
      | CArr xs _ \<Rightarrow>
          map_option JArr (those (map (\<lambda>x. case x of
              None \<Rightarrow> Some JNull
            | Some v \<Rightarrow> (if v = HUndef then Some JNull else read_json fuel h v)) xs)))"

definition json_clone :: "heap \<Rightarrow> hval \<Rightarrow> jsval option" where
  "json_clone h v = read_json (Suc (length h)) h v"

text \<open>\<open>JSON.parse\<close> makes new objects.\<close>

fun write_json :: "jsval \<Rightarrow> heap \<Rightarrow> hval \<times> heap" and write_fields :: "jsobj \<Rightarrow> heap \<Rightarrow> (string \<times> hval) list \<times> heap"
  and write_items :: "jsval list \<Rightarrow> heap \<Rightarrow> hval list \<times> heap" where
  "write_json JUndef h = (HUndef, h)"
| "write_json JNull h = (HNull, h)"
| "write_json (JBool b) h = (HBool b, h)"
| "write_json (JNum n) h = (HNum n, h)"
| "write_json (JStr s) h = (HStr s, h)"
| "write_json (JArr xs) h = (let (vs, h1) = write_items xs h in alloc (CArr (map Some vs) []) h1)"
| "write_json (JObj ps) h = (let (vs, h1) = write_fields ps h in alloc (CObj vs) h1)"
| "write_fields [] h = ([], h)"
| "write_fields ((k, v) # ps) h = (let (x, h1) = write_json v h; (xs, h2) = write_fields ps h1 in ((k, x) # xs, h2))"
| "write_items [] h = ([], h)"
| "write_items (v # vs) h = (let (x, h1) = write_json v h; (xs, h2) = write_items vs h1 in (x # xs, h2))"

definition getAllVariables :: "exec_context \<Rightarrow> jsval option" where
  "getAllVariables ctx = json_clone (heap_of ctx) (vars ctx)"

record context_json =
  cx_vars :: jsval
  cx_nodeOutputs :: jsval
  cx_currentNodeId :: "string option"

definition context_toJSON :: "exec_context \<Rightarrow> context_json option" where
  "context_toJSON ctx =
     (case (json_clone (heap_of ctx) (vars ctx), json_clone (heap_of ctx) (nodeOutputs ctx)) of
        (Some v, Some n) \<Rightarrow> Some \<lparr>cx_vars = v, cx_nodeOutputs = n, cx_currentNodeId = currentNodeId ctx\<rparr>
      | _ \<Rightarrow> None)"

definition context_fromJSON :: "context_json \<Rightarrow> exec_context \<Rightarrow> exec_context" where
  "context_fromJSON d ctx =
     (let (v, h1) = write_json (js_or (cx_vars d) (JObj [])) (heap_of ctx);
          (n, h2) = write_json (js_or (cx_nodeOutputs d) (JObj [])) h1
      in ctx\<lparr>heap_of := h2, vars := v, nodeOutputs := n,
             currentNodeId := (case cx_currentNodeId d of Some i \<Rightarrow> if i = [] then None else Some i | None \<Rightarrow> None),
             loopStack := []\<rparr>)"

definition context_clear :: "exec_context \<Rightarrow> exec_context" where
  "context_clear ctx =
     (let (v, h1) = alloc (CObj []) (heap_of ctx); (n, h2) = alloc (CObj []) h1
      in ctx\<lparr>heap_of := h2, vars := v, nodeOutputs := n, currentNodeId := None, loopStack := []\<rparr>)"

subsection \<open>Cells\<close>

lemma set_length_nth: "i < n \<Longrightarrow> set_length n xs ! i = (if i < length xs then xs ! i else None)"
  by (simp add: set_length_def nth_append)

lemma length_set_length [simp]: "length (set_length n xs) = n"
  by (simp add: set_length_def)

lemma cell_set_same: "cell_set c k v = Inr c' \<Longrightarrow> cell_get c' k = Some v"
  by (cases c) (auto split: if_splits hval.splits simp: max_def not_le)

lemma index_key_inj: "is_index_key k \<Longrightarrow> is_index_key k' \<Longrightarrow> nat_of_digits k = nat_of_digits k' \<Longrightarrow> k = k'"
  unfolding is_index_key_def by metis

text \<open>A write adds no reference but the written one.\<close>

lemma cell_set_refs:
  assumes "cell_set c k v = Inr c'" and "cell_get c' k' = Some (HRef b)"
  shows "v = HRef b \<or> cell_get c k' = Some (HRef b)"
proof (cases c)
  case (CObj ps)
  then show ?thesis using assms by (auto simp: jso.get_put split: if_splits)
next
  case (CArr xs ps)
  show ?thesis
  proof (cases "k = ''length''")
    case True
    then show ?thesis using assms CArr by (auto split: hval.splits if_splits simp: set_length_nth)
  next
    case False
    then show ?thesis using assms CArr
      by (auto split: if_splits simp: nth_list_update set_length_nth jso.get_put)
  qed
qed

subsection \<open>Heaps without cycles\<close>

definition edge :: "heap \<Rightarrow> nat \<Rightarrow> nat \<Rightarrow> bool" where
  "edge h a b \<longleftrightarrow> a < length h \<and> (\<exists>k. cell_get (h ! a) k = Some (HRef b))"

text \<open>References lead to cells of smaller rank. Ranks are integers, so that there is always room below.\<close>

definition ranked :: "(nat \<Rightarrow> int) \<Rightarrow> heap \<Rightarrow> bool" where
  "ranked r h \<longleftrightarrow> (\<forall>a b. edge h a b \<longrightarrow> b < length h \<and> r b < r a)"

definition unreferenced :: "nat set \<Rightarrow> heap \<Rightarrow> bool" where
  "unreferenced F h \<longleftrightarrow> F \<subseteq> {..<length h} \<and> (\<forall>a b. edge h a b \<longrightarrow> b \<notin> F)"

definition agree :: "nat set \<Rightarrow> heap \<Rightarrow> heap \<Rightarrow> bool" where
  "agree F h h' \<longleftrightarrow> length h \<le> length h' \<and> (\<forall>b < length h. b \<notin> F \<longrightarrow> h' ! b = h ! b)"

lemma hprop_edge: "hprop h (HRef a) k = HRef b \<Longrightarrow> edge h a b"
  by (auto simp: edge_def split: if_splits option.splits)

lemma hprop_agree: "agree F h h' \<Longrightarrow> a < length h \<Longrightarrow> a \<notin> F \<Longrightarrow> hprop h' (HRef a) k = hprop h (HRef a) k"
  by (simp add: agree_def)

lemma agree_trans: "agree F h h1 \<Longrightarrow> agree G h1 h2 \<Longrightarrow> agree (F \<union> G) h h2"
  by (auto simp: agree_def)

text \<open>One step of a walk that makes a missing object: the cell of the object is the only one that changes.\<close>

definition made_child :: "(nat \<Rightarrow> int) \<Rightarrow> nat set \<Rightarrow> nat \<Rightarrow> string \<Rightarrow> heap \<Rightarrow> heap \<Rightarrow> bool" where
  "made_child r F a k h h1 \<longleftrightarrow>
     (\<exists>r'. ranked r' h1 \<and> (\<forall>b < length h. r' b = r b) \<and> agree {a} h h1 \<and> unreferenced F h1
        \<and> (\<forall>b. hprop h1 (HRef a) k = HRef b \<longrightarrow> b < length h1 \<and> r' b < r' a \<and> b \<notin> F))"

lemma made_child_same:
  assumes "ranked r h" and "unreferenced F h"
  shows "made_child r F a k h h"
  using assms hprop_edge [of h a k] unfolding made_child_def ranked_def unreferenced_def agree_def
  by (intro exI [of _ r]) blast

lemma made_child_fresh:
  assumes inv: "ranked r h" "unreferenced F h" and a: "a < length h"
    and c: "\<And>k b. cell_get c k \<noteq> Some (HRef b)" and w: "hset (HRef a) k (HRef (length h)) (h @ [c]) = (None, h1)"
  shows "made_child r F a k h h1"
proof -
  let ?f = "length h" and ?r = "r(length h := r a - 1)"
  obtain c' where c': "cell_set (h ! a) k (HRef ?f) = Inr c'" and h1: "h1 = (h @ [c])[a := c']"
    using w a by (auto simp: nth_append split: sum.splits)
  have cells: "h1 ! b = (if b = a then c' else if b = ?f then c else h ! b)" if "b \<le> ?f" for b
    using that a by (auto simp: h1 nth_list_update nth_append)
  have len: "length h1 = Suc ?f" by (simp add: h1)
  have e: "b = ?f \<and> x = a \<or> edge h x b" if "edge h1 x b" for x b
  proof -
    obtain k' where x: "x < Suc ?f" and g: "cell_get (h1 ! x) k' = Some (HRef b)" using \<open>edge h1 x b\<close> by (auto simp: edge_def len)
    show ?thesis
      using g x cells [of x] c cell_set_refs [OF c', of k' b] a by (auto simp: edge_def split: if_splits)
  qed
  have "ranked ?r h1"
    unfolding ranked_def
  proof (intro allI impI)
    fix x b
    assume "edge h1 x b"
    then consider "b = ?f" "x = a" | "edge h x b" using e by blast
    then show "b < length h1 \<and> ?r b < ?r x"
    proof cases
      case 2
      then have "x < ?f" "b < ?f" "r b < r x" using inv(1) by (auto simp: ranked_def edge_def)
      then show ?thesis by (simp add: len)
    qed (use a len in simp)
  qed
  moreover have "unreferenced F h1" using inv(2) e len unfolding unreferenced_def subset_iff lessThan_iff by (metis less_SucI less_irrefl)
  moreover have "agree {a} h h1" using cells len by (simp add: agree_def)
  moreover have "hprop h1 (HRef a) k = HRef ?f"
    using cell_set_same [OF c'] cells [of a] a len by simp
  moreover have "?f \<notin> F" using inv(2) by (auto simp: unreferenced_def)
  ultimately show ?thesis unfolding made_child_def
    using a len by (intro exI [of _ ?r]) auto
qed

lemma empty_cells: "cell_get (CObj []) k \<noteq> Some (HRef b)" "cell_get (CArr [] []) k \<noteq> Some (HRef b)"
  by simp_all

lemma ensure_in_child:
  assumes "ranked r h" "unreferenced F h" "a < length h" and "ensure_in (HRef a) k h = (None, h1)"
  shows "made_child r F a k h h1"
  using assms(4) made_child_same [OF assms(1,2)] made_child_fresh [OF assms(1-3) empty_cells(1), of k h1]
  by (auto simp: ensure_in_def alloc_def simp del: hset.simps split: if_splits)

lemma ensure_prop_child:
  assumes "ranked r h" "unreferenced F h" "a < length h" and "ensure_prop c (HRef a) k h = (None, h1)"
    and "c = CObj [] \<or> c = CArr [] []"
  shows "made_child r F a k h h1"
proof -
  have "cell_get c k' \<noteq> Some (HRef b)" for k' b using assms(5) empty_cells by metis
  from made_child_fresh [OF assms(1-3) this, of k h1] show ?thesis
    using assms(4) made_child_same [OF assms(1,2)]
    by (auto simp: ensure_prop_def alloc_def simp del: hset.simps hprop.simps split: if_splits)
qed


lemma nullish_cases: "hprop h v k = HRef b \<Longrightarrow> \<exists>a. v = HRef a"
  by (cases v) (auto simp: string_prop_def split: if_splits)

text \<open>Only a walk from an object can succeed.\<close>

lemma hset_ref: "hset v k x h = (None, h') \<Longrightarrow> \<exists>a. v = HRef a"
  by (cases v) (auto split: if_splits)

lemma step_into_ref: "step_into v p h = (Inr (HRef b), h') \<Longrightarrow> \<exists>a. v = HRef a"
  by (cases p) (auto simp: step_into_def Let_def split: prod.splits option.splits dest!: nullish_cases)

lemma write_last_ref: "write_last v p x h = (None, h') \<Longrightarrow> \<exists>a. v = HRef a"
  by (cases p) (auto simp: write_last_def split: prod.splits option.splits dest!: hset_ref nullish_cases)

lemma set_parts_ref: "set_parts v ps x h = (None, h') \<Longrightarrow> ps \<noteq> [] \<Longrightarrow> \<exists>a. v = HRef a"
proof (induction v ps x h rule: set_parts.induct)
  case (3 cur p q ps v h)
  then obtain c h1 where step: "step_into cur p h = (Inr c, h1)" by (auto split: prod.splits sum.splits)
  with 3 obtain b where "c = HRef b" by fastforce
  with step step_into_ref show ?case by blast
qed (auto dest: write_last_ref)

text \<open>A step of the walk: what it changes, and that the way stays open as long as later steps change only
  cells below the one that was reached.\<close>

definition stepped :: "(nat \<Rightarrow> int) \<Rightarrow> nat set \<Rightarrow> nat \<Rightarrow> heap \<Rightarrow> (nat \<Rightarrow> int) \<Rightarrow> nat \<Rightarrow> heap \<Rightarrow> bool" where
  "stepped r F a h r' x h1 \<longleftrightarrow>
     ranked r' h1 \<and> (\<forall>b < length h. r' b = r b) \<and> length h \<le> length h1 \<and> unreferenced F h1
     \<and> (\<forall>b < length h. r a \<le> r b \<longrightarrow> b \<noteq> a \<longrightarrow> h1 ! b = h ! b) \<and> (\<forall>b \<in> F. h1 ! b = h ! b)
     \<and> x < length h1 \<and> r' x < r' a \<and> x \<notin> F"

lemma made_child_stepped:
  assumes "made_child r F a k h h1" and "hprop h1 (HRef a) k = HRef x" and "a < length h" and "a \<notin> F" and "unreferenced F h"
  shows "\<exists>r'. stepped r F a h r' x h1"
proof -
  obtain r' where r': "ranked r' h1" "\<forall>b < length h. r' b = r b" "agree {a} h h1" "unreferenced F h1"
    "x < length h1 \<and> r' x < r' a \<and> x \<notin> F"
    using assms(1,2) unfolding made_child_def by blast
  moreover have "\<forall>b \<in> F. h1 ! b = h ! b" using r'(3) assms(4,5) by (auto simp: agree_def unreferenced_def)
  ultimately show ?thesis unfolding stepped_def agree_def by (intro exI [of _ r']) auto
qed

lemma stepped_trans:
  assumes "stepped r F a h r1 y h1" and "stepped r1 F y h1 r2 x h2" and "a < length h" and "F \<subseteq> {..<length h}"
  shows "stepped r F a h r2 x h2"
  unfolding stepped_def
proof (intro conjI)
  note s = assms(1,2) [unfolded stepped_def]
  show "\<forall>b < length h. r a \<le> r b \<longrightarrow> b \<noteq> a \<longrightarrow> h2 ! b = h ! b"
  proof (intro allI impI)
    fix b
    assume b: "b < length h" "r a \<le> r b" "b \<noteq> a"
    then have "h1 ! b = h ! b" "r1 b = r b" "r1 a = r a" "r1 y < r1 a" "b < length h1" using s assms(3) by auto
    moreover from this have "h2 ! b = h1 ! b" using s b by (metis dual_order.strict_trans2 less_le_not_le order.strict_iff_order)
    ultimately show "h2 ! b = h ! b" by simp
  qed
qed (use assms in \<open>auto simp: stepped_def\<close>)


declare hset.simps [simp del] hprop.simps [simp del]

lemma stepped_neq: "stepped r F a h r' x h1 \<Longrightarrow> x \<noteq> a"
  by (auto simp: stepped_def)

lemma stepped_frame: "stepped r F a h r' x h1 \<Longrightarrow> b < length h \<Longrightarrow> r a \<le> r b \<Longrightarrow> b \<noteq> a \<Longrightarrow> h1 ! b = h ! b"
  by (simp add: stepped_def)

lemma hprop_nth: "a < length h \<Longrightarrow> a < length h' \<Longrightarrow> h' ! a = h ! a \<Longrightarrow> hprop h' (HRef a) k = hprop h (HRef a) k"
  by (simp add: hprop.simps)

lemma index_step:
  assumes "ensure_prop (CArr [] []) (HRef a) k h = (None, h1)" and "hprop h1 (HRef a) k = HRef y"
    and "ranked r h" "unreferenced F h" "a < length h" "a \<notin> F"
  shows "\<exists>r1. stepped r F a h r1 y h1"
  using made_child_stepped [OF ensure_prop_child [OF assms(3-5,1)] assms(2,5,6,4)] by simp

definition way_open :: "(nat \<Rightarrow> int) \<Rightarrow> nat set \<Rightarrow> nat \<Rightarrow> path_part \<Rightarrow> nat \<Rightarrow> heap \<Rightarrow> bool" where
  "way_open r F a p x h \<longleftrightarrow>
     (\<forall>h2 ps. length h \<le> length h2 \<longrightarrow> (\<forall>b < length h. b \<notin> F \<longrightarrow> r x < r b \<longrightarrow> h2 ! b = h ! b) \<longrightarrow>
        resolve_parts h2 (HRef a) (p # ps) = resolve_parts h2 (HRef x) ps)"

lemma step_into_stepped:
  assumes step: "step_into (HRef a) p h = (Inr (HRef x), h1)"
    and inv: "ranked r h" "unreferenced F h" "a < length h" "a \<notin> F"
  shows "\<exists>r'. stepped r F a h r' x h1 \<and> way_open r' F a p x h1"
proof (cases p)
  case (PlainPart k)
  then have e: "ensure_in (HRef a) k h = (None, h1)" and x: "hprop h1 (HRef a) k = HRef x"
    using step by (auto simp: step_into_def split: prod.splits option.splits)
  obtain r' where r': "stepped r F a h r' x h1"
    using made_child_stepped [OF ensure_in_child [OF inv(1-3) e] x inv(3,4,2)] by blast
  then have "r' x < r' a" "length h \<le> length h1" by (simp_all add: stepped_def)
  moreover have "way_open r' F a p x h1"
    unfolding way_open_def PlainPart
  proof (intro allI impI)
    fix h2 ps
    assume "length h1 \<le> length h2" "\<forall>b < length h1. b \<notin> F \<longrightarrow> r' x < r' b \<longrightarrow> h2 ! b = h1 ! b"
    then have "hprop h2 (HRef a) k = HRef x" using hprop_nth [of a h1 h2 k] calculation inv(3,4) x by auto
    then show "resolve_parts h2 (HRef a) (PlainPart k # ps) = resolve_parts h2 (HRef x) ps" by simp
  qed
  ultimately show ?thesis using r' by blast
next
  case (IndexPart k i)
  then obtain g arr where e: "ensure_prop (CArr [] []) (HRef a) k h = (None, g)" and arr: "hprop g (HRef a) k = arr"
    and e2: "ensure_prop (CObj []) arr i g = (None, h1)" and x: "hprop h1 arr i = HRef x"
    using step by (auto simp: step_into_def Let_def split: prod.splits option.splits)
  obtain y where y: "arr = HRef y" using nullish_cases [OF x] by blast
  obtain r1 where r1: "stepped r F a h r1 y g" using index_step [OF e _ inv] arr y by blast
  then have g: "ranked r1 g" "unreferenced F g" "y < length g" "y \<notin> F" "r1 y < r1 a" "length h \<le> length g" "a < length g"
    using inv(3) by (auto simp: stepped_def)
  obtain r2 where r2: "stepped r1 F y g r2 x h1"
    using made_child_stepped [OF ensure_prop_child [OF g(1-3)] _ g(3,4,2)] e2 x y by blast
  have ranks: "r2 x < r2 y" "r2 y < r2 a" "length g \<le> length h1" using r2 g by (auto simp: stepped_def)
  have "h1 ! a = g ! a" using stepped_frame [OF r2] g stepped_neq [OF r1] by simp
  then have a: "hprop h1 (HRef a) k = HRef y" using arr y g(7) ranks(3) hprop_nth [of a g h1] by simp
  have "way_open r2 F a p x h1"
    unfolding way_open_def IndexPart
  proof (intro allI impI)
    fix h2 ps
    assume h2: "length h1 \<le> length h2" "\<forall>b < length h1. b \<notin> F \<longrightarrow> r2 x < r2 b \<longrightarrow> h2 ! b = h1 ! b"
    have "hprop h2 (HRef a) k = HRef y" "hprop h2 (HRef y) i = HRef x"
      using hprop_nth [of a h1 h2 k] hprop_nth [of y h1 h2 i] h2 ranks g inv(4) a x y by (auto simp del: hprop.simps)
    then show "resolve_parts h2 (HRef a) (IndexPart k i # ps) = resolve_parts h2 (HRef x) ps" by (simp del: hprop.simps)
  qed
  moreover have "F \<subseteq> {..<length h}" using inv(2) by (simp add: unreferenced_def)
  ultimately show ?thesis using stepped_trans [OF r1 r2 inv(3)] by blast
qed

definition written :: "(nat \<Rightarrow> int) \<Rightarrow> nat set \<Rightarrow> nat \<Rightarrow> path_part list \<Rightarrow> hval \<Rightarrow> heap \<Rightarrow> heap \<Rightarrow> bool" where
  "written r F a ps v h h' \<longleftrightarrow>
     length h \<le> length h' \<and> (\<forall>b < length h. r a \<le> r b \<longrightarrow> b \<noteq> a \<longrightarrow> h' ! b = h ! b) \<and> (\<forall>b \<in> F. h' ! b = h ! b)
     \<and> (\<forall>h2. agree F h' h2 \<longrightarrow> resolve_parts h2 (HRef a) ps = v)"

lemma hset_written:
  assumes "hset (HRef a) k v h = (None, h')" and "a < length h"
  shows "agree {a} h h' \<and> length h' = length h \<and> hprop h' (HRef a) k = v"
  using assms by (auto simp: agree_def cell_set_same hset.simps hprop.simps split: sum.splits)

lemma write_last_written:
  assumes w: "write_last (HRef a) p v h = (None, h')"
    and inv: "ranked r h" "unreferenced F h" "a < length h" "a \<notin> F"
  shows "written r F a [p] v h h'"
proof (cases p)
  case (PlainPart k)
  then have e: "agree {a} h h'" "length h' = length h" "hprop h' (HRef a) k = v"
    using w hset_written [OF _ inv(3)] by (auto simp: write_last_def)
  have F: "F \<subseteq> {..<length h}" using inv(2) by (simp add: unreferenced_def)
  have "hprop h2 (HRef a) k = v" if "agree F h' h2" for h2
    using hprop_agree [OF that] e inv(3,4) by (simp del: hprop.simps)
  then show ?thesis
    using e(1,2) F inv(4) unfolding written_def agree_def PlainPart by (auto simp del: hprop.simps)
next
  case (IndexPart k i)
  then obtain g arr where e: "ensure_prop (CArr [] []) (HRef a) k h = (None, g)" and arr: "hprop g (HRef a) k = arr"
    and e2: "hset arr i v g = (None, h')"
    using w by (auto simp: write_last_def split: prod.splits option.splits)
  obtain y where y: "arr = HRef y" using hset_ref [OF e2] by blast
  obtain r1 where r1: "stepped r F a h r1 y g" using index_step [OF e _ inv] arr y by blast
  then have g: "y < length g" "y \<notin> F" "r1 y < r1 a" "length h \<le> length g" "\<forall>b < length h. r1 b = r b" "\<forall>b \<in> F. g ! b = h ! b"
    by (auto simp: stepped_def)
  have h': "agree {y} g h'" "length h' = length g" "hprop h' (HRef y) i = v"
    using hset_written [of y i v g h'] e2 y g(1) by (auto simp del: hset.simps)
  have ya: "y \<noteq> a" by (rule stepped_neq [OF r1])
  have F: "F \<subseteq> {..<length h}" using inv(2) by (simp add: unreferenced_def)
  have "h' ! b = h ! b" if "b < length h" "r a \<le> r b" "b \<noteq> a" for b
  proof -
    have "b \<noteq> y" using that g inv(3) by fastforce
    then show ?thesis using stepped_frame [OF r1 that] h'(1) that(1) g(4) by (simp add: agree_def)
  qed
  moreover have "resolve_parts h2 (HRef a) [p] = v" if "agree F h' h2" for h2
  proof -
    have "hprop h' (HRef a) k = HRef y" using hprop_agree [OF h'(1), of a k] arr y ya inv(3) g(4) by (simp del: hprop.simps)
    then show ?thesis
      using hprop_agree [OF that, of a k] hprop_agree [OF that, of y i] h' g inv(3,4) IndexPart by (simp del: hprop.simps)
  qed
  moreover have "\<forall>b \<in> F. h' ! b = h ! b" using g F h'(1) unfolding agree_def by (metis lessThan_iff order.strict_trans2 singletonD subsetD)
  ultimately show ?thesis using g h' unfolding written_def by simp
qed

lemma set_parts_written:
  assumes "set_parts (HRef a) ps v h = (None, h')" and "ps \<noteq> []"
    and "ranked r h" "unreferenced F h" "a < length h" "a \<notin> F"
  shows "written r F a ps v h h'"
  using assms
proof (induction ps arbitrary: a h r)
  case (Cons p ps)
  show ?case
  proof (cases ps)
    case Nil
    then show ?thesis using Cons.prems write_last_written by simp
  next
    case (Cons q qs)
    obtain c h1 where step: "step_into (HRef a) p h = (Inr c, h1)" and rest: "set_parts c ps v h1 = (None, h')"
      using Cons.prems(1) Cons by (auto split: prod.splits sum.splits)
    obtain x where x: "c = HRef x" using set_parts_ref [OF rest] Cons by blast
    obtain r' where r': "stepped r F a h r' x h1" "way_open r' F a p x h1"
      using step_into_stepped [OF step [unfolded x] Cons.prems(3-6)] by blast
    have s: "ranked r' h1" "unreferenced F h1" "x < length h1" "x \<notin> F" "r' x < r' a" "length h \<le> length h1"
      "\<forall>b < length h. r' b = r b" "\<forall>b \<in> F. h1 ! b = h ! b"
      using r'(1) by (simp_all add: stepped_def)
    have w: "written r' F x ps v h1 h'" using Cons.IH [OF rest [unfolded x] _ s(1-4)] Cons by simp
    note w' = w [unfolded written_def]
    have keep: "h' ! b = h1 ! b" if "b < length h1" "r' x < r' b" for b
      using w' that by (metis order_less_imp_le order_less_irrefl)
    have "h' ! b = h ! b" if "b < length h" "r a \<le> r b" "b \<noteq> a" for b
    proof -
      have "r' x < r' b" using that s Cons.prems(5) by simp
      then show ?thesis using stepped_frame [OF r'(1) that] keep [of b] that(1) s(6) by simp
    qed
    moreover have "resolve_parts h2 (HRef a) (p # ps) = v" if h2: "agree F h' h2" for h2
    proof -
      have "h2 ! b = h1 ! b" if "b < length h1" "b \<notin> F" "r' x < r' b" for b
        using that h2 w' keep [of b] by (simp add: agree_def)
      moreover have "length h1 \<le> length h2" using h2 w' by (simp add: agree_def)
      ultimately have "resolve_parts h2 (HRef a) (p # ps) = resolve_parts h2 (HRef x) ps"
        using r'(2) unfolding way_open_def by blast
      then show ?thesis using w' h2 by simp
    qed
    ultimately show ?thesis using w' s unfolding written_def by auto
  qed
qed simp

subsection \<open>Variables\<close>

definition acyclic_context :: "exec_context \<Rightarrow> bool" where
  "acyclic_context ctx \<longleftrightarrow> (\<exists>r. ranked r (heap_of ctx)) \<and> (\<exists>a < length (heap_of ctx). vars ctx = HRef a)"

lemma path_parts_nonempty [simp]: "path_parts path \<noteq> []"
  by (simp add: path_parts_def)

lemma set_read_back:
  assumes "acyclic_context ctx" and "setVariable path v ctx = (None, ctx')"
  shows "getVariable ctx' path = v"
proof -
  obtain r a where r: "ranked r (heap_of ctx)" "vars ctx = HRef a" "a < length (heap_of ctx)"
    using assms(1) by (auto simp: acyclic_context_def)
  obtain h' where p: "path \<noteq> []" and s: "set_parts (HRef a) (path_parts path) v (heap_of ctx) = (None, h')"
    and ctx': "ctx' = ctx\<lparr>heap_of := h'\<rparr>"
    using assms(2) r(2) by (auto simp: setVariable_def with_heap_def setPath_def split: if_splits prod.splits)
      (metis prod.collapse)
  have "written r {} a (path_parts path) v (heap_of ctx) h'"
    using set_parts_written [OF s _ r(1) _ r(3)] by (simp add: unreferenced_def)
  then have "resolve_parts h' (HRef a) (path_parts path) = v" by (simp add: written_def agree_def)
  then show ?thesis using p r(2) by (simp add: getVariable_def resolvePath_def ctx')
qed

text \<open>C27: A variable that was set reads back. In a context whose objects form no cycle, after setVariable returned
  normally, reading the same path gives the value, through objects and arrays that existed and those that were
  made on the way; and after incrementVariable the path holds the returned value, which for a number is the
  sum and for a missing variable the amount.\<close>

theorem set_then_get:
  assumes "acyclic_context ctx"
  shows "(setVariable path v ctx = (None, ctx') \<longrightarrow> getVariable ctx' path = v \<and> (hasVariable ctx' path \<longleftrightarrow> v \<noteq> HUndef))
    \<and> (incrementVariable show_ref path amount ctx = (Inr n, ctx') \<longrightarrow> getVariable ctx' path = n
         \<and> (getVariable ctx path = HUndef \<longrightarrow> n = HNum amount)
         \<and> (\<forall>q. getVariable ctx path = HNum q \<longrightarrow> n = HNum (q + amount)))"
  using set_read_back [OF assms]
  by (auto simp: hasVariable_def incrementVariable_def Let_def split: prod.splits option.splits)

lemma new_context_acyclic: "acyclic_context new_ExecutionContext"
proof -
  have "cell_get (new ! a) k \<noteq> Some (HRef b)" if "a < length new" "new = [CObj [], CObj []]" for a b k and new :: heap
    using that by (auto simp: less_Suc_eq)
  then show ?thesis
    by (auto simp: acyclic_context_def new_ExecutionContext_def ranked_def edge_def)
qed

lemma path_part_of_simps:
  "path_part_of ''result'' = PlainPart ''result''" "path_part_of ''total'' = PlainPart ''total''"
  "path_part_of ''lines'' = PlainPart ''lines''"
  by (simp_all add: path_part_of_def char_class_defs)

theorem set_then_get_witness:
  "\<exists>ctx'. setVariable ''result.total'' (HNum 5) new_ExecutionContext = (None, ctx') \<and> getVariable ctx' ''result.total'' = HNum 5"
proof -
  have set: "setVariable ''result.total'' (HNum 5) new_ExecutionContext
    = (None, new_ExecutionContext\<lparr>heap_of := [CObj [(''result'', HRef 2)], CObj [], CObj [(''total'', HNum 5)]]\<rparr>)"
    by (simp add: setVariable_def setPath_def path_parts_def path_part_of_simps new_ExecutionContext_def step_into_def
        ensure_in_def alloc_def hset.simps hprop.simps write_last_def with_heap_def obj_set_def is_index_key_def
        nat_of_digits_def digit_val_def)
  show ?thesis using set_then_get [OF new_context_acyclic] set by blast
qed

lemma resolve_ref: "resolve_parts h cur ps = HRef a \<Longrightarrow> \<exists>c. cur = HRef c"
proof (induction h cur ps rule: resolve_parts.induct)
  case (2 h cur k ps)
  then show ?case using nullish_cases by (auto split: if_splits)
next
  case (3 h cur k i ps)
  then obtain c where c: "hprop h (hprop h cur k) i = HRef c" by (auto simp: Let_def split: if_splits)
  then obtain b where "hprop h cur k = HRef b" using nullish_cases by blast
  then show ?case by (rule nullish_cases)
qed simp

lemma index_walk:
  assumes "(let arr = hprop h cur k in if hnullish arr then HUndef else hprop h arr i) = HRef b"
  shows "\<exists>y. hprop h cur k = HRef y \<and> hprop h (HRef y) i = HRef b"
proof -
  have "hprop h (hprop h cur k) i = HRef b" using assms by (simp add: Let_def split: if_splits)
  moreover from this obtain y where "hprop h cur k = HRef y" using nullish_cases by blast
  ultimately show ?thesis by simp
qed

text \<open>A walk to a cell does not read this cell.\<close>

lemma resolve_avoid:
  assumes "ranked r h" and "c < length h" and "resolve_parts h (HRef c) ps = HRef a"
  shows "r a \<le> r c \<and> (ps \<noteq> [] \<longrightarrow> r a < r c) \<and> (\<forall>h2. agree {a} h h2 \<longrightarrow> resolve_parts h2 (HRef c) ps = HRef a)"
  using assms(2,3)
proof (induction ps arbitrary: c)
  case (Cons p ps)
  have down: "b < length h \<and> r b < r x" if "hprop h (HRef x) k = HRef b" for x k b
    using hprop_edge [OF that] assms(1) by (simp add: ranked_def)
  show ?case
  proof (cases p)
    case (PlainPart k)
    then have res: "resolve_parts h (hprop h (HRef c) k) ps = HRef a" using Cons.prems by simp
    obtain b where b: "hprop h (HRef c) k = HRef b" using resolve_ref [OF res] by blast
    note ih = Cons.IH [of b] and bc = down [OF b]
    then have r: "r a < r c" using res b by fastforce
    then have "c \<noteq> a" by auto
    have "resolve_parts h2 (HRef c) (p # ps) = HRef a" if "agree {a} h h2" for h2
      using hprop_agree [OF that, of c k] \<open>c \<noteq> a\<close> Cons.prems(1) ih bc res b that PlainPart by simp
    then show ?thesis using r by simp
  next
    case (IndexPart k i)
    then have res: "resolve_parts h (let arr = hprop h (HRef c) k in if hnullish arr then HUndef else hprop h arr i) ps = HRef a"
      using Cons.prems by simp
    then obtain b where "(let arr = hprop h (HRef c) k in if hnullish arr then HUndef else hprop h arr i) = HRef b"
      using resolve_ref by blast
    then obtain y where y: "hprop h (HRef c) k = HRef y" and b: "hprop h (HRef y) i = HRef b"
      using index_walk by blast
    have res': "resolve_parts h (HRef b) ps = HRef a" using res y b by simp
    note ih = Cons.IH [of b, OF _ res'] and yc = down [OF y] and byr = down [OF b]
    then have r: "r a < r y" "r y < r c" by auto
    then have "c \<noteq> a" "y \<noteq> a" by auto
    have "resolve_parts h2 (HRef c) (p # ps) = HRef a" if "agree {a} h h2" for h2
      using hprop_agree [OF that, of c k] hprop_agree [OF that, of y i] \<open>c \<noteq> a\<close> \<open>y \<noteq> a\<close> Cons.prems(1) ih yc byr y b that IndexPart by simp
    then show ?thesis using r by simp
  qed
qed simp

lemma array_push_agree:
  assumes "is_array_ref h arr"
  shows "\<exists>a xs ps. arr = HRef a \<and> a < length h \<and> h ! a = CArr xs ps \<and> array_push h arr v ! a = CArr (xs @ [Some v]) ps
    \<and> agree {a} h (array_push h arr v)"
  using assms by (cases arr) (auto simp: agree_def split: cell.splits)


lemma append_fresh:
  assumes ctx: "acyclic_context ctx" and "getVariable ctx path = HUndef" and app: "appendVariable path v ctx = (None, ctx')"
  shows "\<exists>a. getVariable ctx' path = HRef a \<and> heap_of ctx' ! a = CArr [Some v] []"
proof -
  let ?h = "heap_of ctx" and ?f = "length (heap_of ctx)"
  let ?h1 = "?h @ [CArr [] []]"
  obtain r a where r: "ranked r ?h" "vars ctx = HRef a" "a < ?f" using ctx by (auto simp: acyclic_context_def)
  have e: "edge ?h1 x b \<longleftrightarrow> edge ?h x b" for x b
    by (auto simp: edge_def nth_append split: if_splits)
  have inv: "ranked r ?h1" "unreferenced {?f} ?h1"
    using r(1) unfolding ranked_def unreferenced_def e by (auto intro: less_SucI)
  obtain c1 where set: "setVariable path (HRef ?f) (ctx\<lparr>heap_of := ?h1\<rparr>) = (None, c1)"
    and push: "ctx' = c1\<lparr>heap_of := array_push (heap_of c1) (HRef ?f) v\<rparr>"
    using app assms(2) by (auto simp: appendVariable_def alloc_def Let_def split: prod.splits option.splits if_splits)
  obtain h' where p: "path \<noteq> []" and s: "set_parts (HRef a) (path_parts path) (HRef ?f) ?h1 = (None, h')"
    and c1: "c1 = ctx\<lparr>heap_of := h'\<rparr>"
    using set r(2) by (auto simp: setVariable_def with_heap_def setPath_def split: if_splits prod.splits)
      (metis prod.collapse)
  have w: "written r {?f} a (path_parts path) (HRef ?f) ?h1 h'"
    by (rule set_parts_written [OF s _ inv]) (use r(3) in simp_all)
  then have f: "h' ! ?f = CArr [] []" "?f < length h'" by (auto simp: written_def)
  then have "agree {?f} h' (array_push h' (HRef ?f) v)" by (simp add: agree_def)
  then have "resolve_parts (array_push h' (HRef ?f) v) (HRef a) (path_parts path) = HRef ?f" using w by (simp add: written_def)
  then show ?thesis using p r(2) f by (auto simp: push c1 getVariable_def resolvePath_def)
qed

text \<open>Appending to a variable adds one element at the end. In a context whose objects form no cycle, after
  appendVariable returned normally, the path holds an array whose last element is the value; before it was
  the same array without it, or the variable was missing and the array is new.\<close>

theorem append_then_get:
  assumes "acyclic_context ctx" and "appendVariable path v ctx = (None, ctx')"
  shows "\<exists>a xs ps. getVariable ctx' path = HRef a \<and> heap_of ctx' ! a = CArr (xs @ [Some v]) ps
    \<and> (getVariable ctx path = HUndef \<and> xs = [] \<or> getVariable ctx path = HRef a \<and> heap_of ctx ! a = CArr xs ps)"
proof (cases "getVariable ctx path = HUndef")
  case True
  from append_fresh [OF assms(1) True assms(2)] show ?thesis using True by (metis append_Nil)
next
  case False
  obtain r c where r: "ranked r (heap_of ctx)" "vars ctx = HRef c" "c < length (heap_of ctx)"
    using assms(1) by (auto simp: acyclic_context_def)
  have ctx': "ctx' = ctx\<lparr>heap_of := array_push (heap_of ctx) (getVariable ctx path) v\<rparr>"
    and arr: "is_array_ref (heap_of ctx) (getVariable ctx path)"
    using assms(2) False by (auto simp: appendVariable_def Let_def split: if_splits)
  obtain a xs ps where a: "getVariable ctx path = HRef a" "heap_of ctx ! a = CArr xs ps"
    "array_push (heap_of ctx) (getVariable ctx path) v ! a = CArr (xs @ [Some v]) ps"
    "agree {a} (heap_of ctx) (array_push (heap_of ctx) (getVariable ctx path) v)"
    using array_push_agree [OF arr] by blast
  let ?ps = "if path = [] then [] else path_parts path"
  have walk: "getVariable (ctx\<lparr>heap_of := h\<rparr>) path = resolve_parts h (HRef c) ?ps" for h
    by (simp add: getVariable_def resolvePath_def r(2))
  have "resolve_parts (heap_of ctx) (HRef c) ?ps = HRef a" using walk [of "heap_of ctx"] a(1) by simp
  from resolve_avoid [OF r(1,3) this] have "getVariable ctx' path = HRef a" unfolding ctx' walk using a(4) by blast
  then show ?thesis using a(1-3) ctx' by auto
qed

theorem append_then_get_witness:
  "\<exists>ctx' a xs ps. appendVariable ''lines'' (HNum 1) new_ExecutionContext = (None, ctx')
     \<and> getVariable ctx' ''lines'' = HRef a \<and> heap_of ctx' ! a = CArr (xs @ [Some (HNum 1)]) ps"
proof -
  have "getVariable new_ExecutionContext ''lines'' = HUndef"
    by (simp add: getVariable_def resolvePath_def path_parts_def path_part_of_simps new_ExecutionContext_def hprop.simps)
  then have "fst (appendVariable ''lines'' (HNum 1) new_ExecutionContext) = None"
    by (simp add: appendVariable_def setVariable_def setPath_def path_parts_def path_part_of_simps new_ExecutionContext_def
        alloc_def hset.simps write_last_def with_heap_def)
  then obtain ctx' where "appendVariable ''lines'' (HNum 1) new_ExecutionContext = (None, ctx')"
    by (metis prod.collapse)
  with append_then_get [OF new_context_acyclic this] show ?thesis by blast
qed

subsection \<open>Loops\<close>

text \<open>The loop that the documentation of the class shows: push a collection, look at the current item, advance
  until there is no more, pop. What is looked at is collected.\<close>

function visit_items :: "exec_context \<Rightarrow> loop_view list \<times> exec_context" where
  "visit_items ctx =
     (case loop_of ctx of
        None \<Rightarrow> ([], ctx)
      | Some v \<Rightarrow>
          (case advanceLoop ctx of
             (remaining, ctx') \<Rightarrow> if remaining then (let (vs, ctx'') = visit_items ctx' in (v # vs, ctx'')) else ([v], ctx')))"
  by pat_completeness auto
termination
  by (relation "measure (\<lambda>ctx. case loopStack ctx of [] \<Rightarrow> 0 | l # _ \<Rightarrow> lp_total l - lp_index l)")
     (auto simp: advanceLoop_def split: list.splits)

declare visit_items.simps [simp del]

definition for_each :: "hval \<Rightarrow> exec_context \<Rightarrow> js_error + (loop_view list \<times> exec_context)" where
  "for_each collection ctx =
     (case pushLoop collection ctx of
        (Some e, _) \<Rightarrow> Inl e
      | (None, ctx1) \<Rightarrow> (let (vs, ctx2) = visit_items ctx1 in Inr (vs, snd (popLoop ctx2))))"

lemma visit_items_from:
  assumes "loopStack ctx = \<lparr>lp_collection = c, lp_index = i, lp_total = n\<rparr> # ls" and "i < n"
  shows "visit_items ctx =
    (map (\<lambda>j. \<lparr>lv_item = hprop (heap_of ctx) c (show_nat j), lv_index = j, lv_total = n, lv_isFirst = (j = 0), lv_isLast = (j + 1 = n)\<rparr>) [i..<n],
     ctx\<lparr>loopStack := \<lparr>lp_collection = c, lp_index = n, lp_total = n\<rparr> # ls\<rparr>)"
  using assms
proof (induction "n - i" arbitrary: i ctx)
  case (Suc d)
  let ?ctx = "ctx\<lparr>loopStack := \<lparr>lp_collection = c, lp_index = Suc i, lp_total = n\<rparr> # ls\<rparr>"
  have adv: "advanceLoop ctx = (Suc i < n, ?ctx)" using Suc.prems by (simp add: advanceLoop_def)
  have split: "[i..<n] = i # [Suc i..<n]" using Suc.prems by (simp add: upt_conv_Cons)
  show ?case
  proof (cases "Suc i < n")
    case True
    have "visit_items ?ctx =
      (map (\<lambda>j. \<lparr>lv_item = hprop (heap_of ctx) c (show_nat j), lv_index = j, lv_total = n, lv_isFirst = (j = 0), lv_isLast = (j + 1 = n)\<rparr>) [Suc i..<n],
       ctx\<lparr>loopStack := \<lparr>lp_collection = c, lp_index = n, lp_total = n\<rparr> # ls\<rparr>)"
      using Suc.hyps(1) [of "Suc i" ?ctx] Suc.hyps(2) True by simp
    then show ?thesis using Suc.prems adv True unfolding split by (simp add: visit_items.simps [of ctx] loop_of_def)
  next
    case False
    then have "n = Suc i" using Suc.prems by simp
    then show ?thesis using Suc.prems adv by (simp add: visit_items.simps [of ctx] loop_of_def)
  qed
qed simp

text \<open>C28: A loop visits every item once, in order, and ends. Over an array of any length, also the empty one, the
  documented loop looks at the items at the positions from 0 on, each with its position, the length, and the
  right flags for the first and the last, and leaves the context as it was, with the enclosing loops; it is
  refused for what is not an array.\<close>

theorem loop_visits_each_item:
  "for_each collection ctx =
     (if is_array_ref (heap_of ctx) collection
      then let n = array_length (heap_of ctx) collection
           in Inr (map (\<lambda>j. \<lparr>lv_item = hprop (heap_of ctx) collection (show_nat j), lv_index = j, lv_total = n,
                             lv_isFirst = (j = 0), lv_isLast = (j + 1 = n)\<rparr>) [0..<n], ctx)
      else Inl (JsError ''Loop collection must be an array''))"
proof (cases "is_array_ref (heap_of ctx) collection")
  case True
  let ?n = "array_length (heap_of ctx) collection"
  let ?ctx = "ctx\<lparr>loopStack := \<lparr>lp_collection = collection, lp_index = 0, lp_total = ?n\<rparr> # loopStack ctx\<rparr>"
  have push: "pushLoop collection ctx = (None, ?ctx)" using True by (simp add: pushLoop_def)
  show ?thesis
  proof (cases "?n = 0")
    case zero: True
    have "visit_items ?ctx = ([], ?ctx)" using zero by (subst visit_items.simps) (simp add: loop_of_def)
    then show ?thesis using zero True push by (simp add: for_each_def popLoop_def)
  next
    case False
    then show ?thesis using visit_items_from [of ?ctx collection 0 ?n "loopStack ctx"] True push
      by (simp add: for_each_def popLoop_def Let_def)
  qed
qed (simp add: for_each_def pushLoop_def)

subsection \<open>Saving and restoring a context\<close>

text \<open>The values JSON can express.\<close>

definition json_value :: "jsval \<Rightarrow> bool" where
  "json_value v \<longleftrightarrow> v \<noteq> JUndef \<and> json_copy v = v"

lemma json_value_arr: "json_value (JArr xs) \<longleftrightarrow> (\<forall>x \<in> set xs. json_value x)"
proof -
  have "map (\<lambda>v. if v = JUndef then JNull else json_copy v) xs = xs \<longleftrightarrow> (\<forall>x \<in> set xs. x \<noteq> JUndef \<and> json_copy x = x)"
    by (induction xs) auto
  then show ?thesis by (simp add: json_value_def)
qed

lemma json_value_obj: "json_value (JObj ps) \<longleftrightarrow> (\<forall>p \<in> set ps. json_value (snd p))"
proof -
  have "map (\<lambda>p. (fst p, json_copy (snd p))) (filter (\<lambda>p. snd p \<noteq> JUndef) ps) = ps
      \<longleftrightarrow> (\<forall>p \<in> set ps. snd p \<noteq> JUndef \<and> json_copy (snd p) = snd p)" (is "?l = ps \<longleftrightarrow> ?r")
  proof
    assume eq: "?l = ps"
    then have "length (filter (\<lambda>p. snd p \<noteq> JUndef) ps) = length ps" by (metis length_map)
    then have "\<forall>p \<in> set ps. snd p \<noteq> JUndef" by (metis (mono_tags, lifting) length_filter_less less_irrefl)
    with eq have "map (\<lambda>p. (fst p, json_copy (snd p))) ps = map (\<lambda>p. p) ps" by simp
    with \<open>\<forall>p \<in> set ps. snd p \<noteq> JUndef\<close> show ?r by (metis map_eq_conv snd_conv)
  next
    assume r: ?r
    then have "filter (\<lambda>p. snd p \<noteq> JUndef) ps = ps" by simp
    moreover have "map (\<lambda>p. (fst p, json_copy (snd p))) ps = ps" using r by (intro map_idI) auto
    ultimately show "?l = ps" by simp
  qed
  then show ?thesis by (simp add: json_value_def)
qed

lemma those_Some: "those xs = Some ys \<longleftrightarrow> xs = map Some ys"
  by (induction xs arbitrary: ys) (auto split: option.splits)

lemma read_json_value: "read_json fuel h v = Some j \<Longrightarrow> v \<noteq> HUndef \<Longrightarrow> json_value j"
proof (induction fuel h v arbitrary: j rule: read_json.induct)
  case (7 fuel h a)
  show ?case
  proof (cases "h ! a")
    case (CObj ps)
    let ?qs = "filter (\<lambda>(k, v). v \<noteq> HUndef) ps"
    obtain js where js: "j = JObj js" "map (\<lambda>(k, v). map_option (Pair k) (read_json fuel h v)) ?qs = map Some js"
      using "7.prems"(1) CObj by (auto simp: those_Some)
    have "json_value (snd p)" if "p \<in> set js" for p
    proof -
      have "Some p \<in> set (map (\<lambda>(k, v). map_option (Pair k) (read_json fuel h v)) ?qs)" using js(2) that by simp
      then obtain k v where "(k, v) \<in> set ps" "v \<noteq> HUndef" and p: "map_option (Pair k) (read_json fuel h v) = Some p"
        by (auto simp: eq_commute [of "Some p"])
      moreover from p obtain j' where "read_json fuel h v = Some j'" "p = (k, j')" by auto
      ultimately show ?thesis using "7.IH"(1) [OF CObj] by force
    qed
    then show ?thesis using js(1) by (simp add: json_value_obj)
  next
    case (CArr xs qs)
    let ?f = "\<lambda>x. case x of None \<Rightarrow> Some JNull | Some v \<Rightarrow> (if v = HUndef then Some JNull else read_json fuel h v)"
    obtain js where js: "j = JArr js" "map ?f xs = map Some js" using "7.prems"(1) CArr by (auto simp: those_Some)
    have "json_value x" if "x \<in> set js" for x
    proof -
      have "Some x \<in> set (map ?f xs)" using js(2) that by simp
      then obtain y where y: "y \<in> set xs" "?f y = Some x" by (auto simp: eq_commute [of "Some x"])
      have null: "json_value JNull" by (simp add: json_value_def)
      show ?thesis
      proof (cases y)
        case (Some v)
        then show ?thesis using y null "7.IH"(2) [OF CArr] by (fastforce split: if_splits)
      qed (use y null in auto)
    qed
    then show ?thesis using js(1) by (simp add: json_value_arr)
  qed
qed (simp_all add: json_value_def)

text \<open>What was written is read back, with as much fuel as cells were allocated.\<close>

lemma write_read_json:
  "\<lbrakk>write_json j h = (x, h'); json_value j\<rbrakk> \<Longrightarrow>
     \<exists>e. h' = h @ e \<and> x \<noteq> HUndef \<and> (\<forall>fuel \<ge> length e. \<forall>g. read_json fuel (h' @ g) x = Some j)"
  "\<lbrakk>write_fields ps h = (qs, h'); \<forall>p \<in> set ps. json_value (snd p)\<rbrakk> \<Longrightarrow>
     \<exists>e. h' = h @ e \<and> (\<forall>q \<in> set qs. snd q \<noteq> HUndef)
       \<and> (\<forall>fuel \<ge> length e. \<forall>g. map (\<lambda>(k, v). map_option (Pair k) (read_json fuel (h' @ g) v)) qs = map Some ps)"
  "\<lbrakk>write_items js h = (vs, h'); \<forall>j \<in> set js. json_value j\<rbrakk> \<Longrightarrow>
     \<exists>e. h' = h @ e \<and> (\<forall>v \<in> set vs. v \<noteq> HUndef)
       \<and> (\<forall>fuel \<ge> length e. \<forall>g. map (read_json fuel (h' @ g)) vs = map Some js)"
proof (induction j h and ps h and js h arbitrary: x h' and qs h' and vs h' rule: write_json_write_fields_write_items.induct)
  case (6 xs h)
  obtain vs h1 where w: "write_items xs h = (vs, h1)" by fastforce
  let ?c = "CArr (map Some vs) []"
  obtain e where e: "h1 = h @ e" "\<forall>v \<in> set vs. v \<noteq> HUndef"
    "\<forall>fuel \<ge> length e. \<forall>g. map (read_json fuel (h1 @ g)) vs = map Some xs"
    using 6(1) [OF w] 6(3) by (auto simp: json_value_arr)
  have x: "x = HRef (length h1)" "h' = h1 @ [?c]" using 6(2) w by (simp_all add: alloc_def)
  have "read_json fuel (h' @ g) x = Some (JArr xs)" if fuel: "fuel \<ge> length (e @ [?c])" for fuel g
  proof -
    obtain f where f: "fuel = Suc f" "f \<ge> length e" using fuel by (cases fuel) auto
    have "map (\<lambda>x. case x of None \<Rightarrow> Some JNull | Some v \<Rightarrow> (if v = HUndef then Some JNull else read_json f (h1 @ ?c # g) v)) (map Some vs)
      = map (read_json f (h1 @ ?c # g)) vs" using e(2) by simp
    also have "\<dots> = map Some xs" using e(3) f(2) by blast
    finally show ?thesis by (simp add: x f those_Some)
  qed
  then show ?case using e(1) x by (intro exI [of _ "e @ [?c]"]) auto
next
  case (7 ps h)
  obtain vs h1 where w: "write_fields ps h = (vs, h1)" by fastforce
  obtain e where e: "h1 = h @ e" "\<forall>q \<in> set vs. snd q \<noteq> HUndef"
    "\<forall>fuel \<ge> length e. \<forall>g. map (\<lambda>(k, v). map_option (Pair k) (read_json fuel (h1 @ g) v)) vs = map Some ps"
    using 7(1) [OF w] 7(3) by (auto simp: json_value_obj)
  have x: "x = HRef (length h1)" "h' = h1 @ [CObj vs]" using 7(2) w by (simp_all add: alloc_def)
  have "filter (\<lambda>(k, v). v \<noteq> HUndef) vs = vs" using e(2) by (auto simp: filter_id_conv)
  moreover have "map (\<lambda>(k, v). map_option (Pair k) (read_json f (h1 @ CObj vs # g) v)) vs = map Some ps" if "length e \<le> f" for f g
    using e(3) that by blast
  ultimately have "read_json fuel (h' @ g) x = Some (JObj ps)" if "fuel \<ge> length (e @ [CObj vs])" for fuel g
    using that by (cases fuel) (simp_all add: x those_Some)
  then show ?case using e(1) x by (intro exI [of _ "e @ [CObj vs]"]) auto
next
  case (9 k v ps h)
  obtain y h1 where w: "write_json v h = (y, h1)" by fastforce
  obtain ys h2 where w2: "write_fields ps h1 = (ys, h2)" by fastforce
  obtain e where e: "h1 = h @ e" "y \<noteq> HUndef" "\<forall>fuel \<ge> length e. \<forall>g. read_json fuel (h1 @ g) y = Some v"
    using 9(1) [OF w] 9(4) by auto
  obtain e2 where e2: "h2 = h1 @ e2" "\<forall>q \<in> set ys. snd q \<noteq> HUndef"
    "\<forall>fuel \<ge> length e2. \<forall>g. map (\<lambda>(k, v). map_option (Pair k) (read_json fuel (h2 @ g) v)) ys = map Some ps"
    using 9(2) [OF w [symmetric] refl w2] 9(4) by auto
  have "qs = (k, y) # ys" "h' = h2" using 9(3) w w2 by auto
  then show ?case using e e2 by (intro exI [of _ "e @ e2"]) auto
next
  case (11 v js h)
  obtain y h1 where w: "write_json v h = (y, h1)" by fastforce
  obtain ys h2 where w2: "write_items js h1 = (ys, h2)" by fastforce
  obtain e where e: "h1 = h @ e" "y \<noteq> HUndef" "\<forall>fuel \<ge> length e. \<forall>g. read_json fuel (h1 @ g) y = Some v"
    using 11(1) [OF w] 11(4) by auto
  obtain e2 where e2: "h2 = h1 @ e2" "\<forall>q \<in> set ys. q \<noteq> HUndef"
    "\<forall>fuel \<ge> length e2. \<forall>g. map (read_json fuel (h2 @ g)) ys = map Some js"
    using 11(2) [OF w [symmetric] refl w2] 11(4) by auto
  have "vs = y # ys" "h' = h2" using 11(3) w w2 by auto
  then show ?case using e e2 by (intro exI [of _ "e @ e2"]) auto
qed (simp_all add: json_value_def)

lemma json_clone_ref:
  assumes "json_clone h v = Some j" and "is_ref v"
  shows "json_value j \<and> truthy j"
proof -
  obtain a where a: "v = HRef a" using assms(2) by (cases v) auto
  then have "json_value j" using read_json_value [OF assms(1) [unfolded json_clone_def]] by simp
  moreover have "truthy j" using assms(1) a by (auto simp: json_clone_def split: cell.splits)
  ultimately show ?thesis by simp
qed

text \<open>A saved context is restored. If toJSON succeeds, that is, neither the variables nor the outputs contain a
  cycle, then fromJSON of the result into any context gives one that saves to the same data, with the same
  variables and the same current node, and outside of all loops.\<close>

theorem context_roundtrip:
  assumes "context_toJSON ctx = Some d" and "is_ref (vars ctx)" and "is_ref (nodeOutputs ctx)" and "currentNodeId ctx \<noteq> Some []"
  shows "context_toJSON (context_fromJSON d other) = Some d \<and> getAllVariables (context_fromJSON d other) = getAllVariables ctx
    \<and> \<not> isInLoop (context_fromJSON d other)"
proof -
  have v: "json_clone (heap_of ctx) (vars ctx) = Some (cx_vars d)" and n: "json_clone (heap_of ctx) (nodeOutputs ctx) = Some (cx_nodeOutputs d)"
    and i: "cx_currentNodeId d = currentNodeId ctx"
    using assms(1) by (auto simp: context_toJSON_def split: option.splits)
  obtain x h1 where w1: "write_json (cx_vars d) (heap_of other) = (x, h1)" by fastforce
  obtain y h2 where w2: "write_json (cx_nodeOutputs d) h1 = (y, h2)" by fastforce
  note j = json_clone_ref [OF v assms(2)] json_clone_ref [OF n assms(3)]
  obtain e1 where e1: "h1 = heap_of other @ e1" "\<forall>fuel \<ge> length e1. \<forall>g. read_json fuel (h1 @ g) x = Some (cx_vars d)"
    using write_read_json(1) [OF w1] j by blast
  obtain e2 where e2: "h2 = h1 @ e2" "\<forall>fuel \<ge> length e2. \<forall>g. read_json fuel (h2 @ g) y = Some (cx_nodeOutputs d)"
    using write_read_json(1) [OF w2] j by blast
  have "json_clone h2 x = Some (cx_vars d)" using e1 e2(1) by (simp add: json_clone_def del: read_json.simps)
  moreover have "json_clone h2 y = Some (cx_nodeOutputs d)"
    using e2(2) [rule_format, of "Suc (length h2)" "[]"] e2(1) by (simp add: json_clone_def del: read_json.simps)
  moreover have "context_fromJSON d other
      = other\<lparr>heap_of := h2, vars := x, nodeOutputs := y, currentNodeId := currentNodeId ctx, loopStack := []\<rparr>"
    using w1 w2 j assms(4) i by (auto simp: context_fromJSON_def js_or_def split: option.splits)
  ultimately show ?thesis using v i by (simp add: context_toJSON_def getAllVariables_def isInLoop_def del: read_json.simps)
qed

theorem context_roundtrip_witness:
  "\<exists>d. context_toJSON new_ExecutionContext = Some d
     \<and> context_toJSON (context_fromJSON d (setCurrentInput (HNum 7) new_ExecutionContext)) = Some d"
proof -
  have json: "context_toJSON new_ExecutionContext = Some \<lparr>cx_vars = JObj [], cx_nodeOutputs = JObj [], cx_currentNodeId = None\<rparr>"
    by (simp add: context_toJSON_def json_clone_def new_ExecutionContext_def)
  show ?thesis using context_roundtrip [OF json] json by (simp add: new_ExecutionContext_def)
qed

end
