(* ===== verification/Spec2Isabelle.thy ===== *)
theory Spec2Isabelle
  imports Store_Views Graph_Utils Canvas_Paths Panel_Execution Panel_Navigation Suggestions Canvas_Session Connection_Toolbar Node_Registry Exec_Context
begin

text \<open>
  A verification library for the workflow editor of Workflow Studio, an Odoo addon. All sources named
  here are under src/workflow_studio/static/src. The editor keeps a graph of nodes and connections,
  mirrors it into reactive state for the user interface, records edits for undo and redo, and talks to a
  server that stores workflows and runs them.

  \<^bold>\<open>The parts and how they interact.\<close> A node (core/node.js) is built from sockets (core/socket.js) and
  controls (core/control.js); the node classes of nodes/*.js differ only in those. The editor
  (core/editor.js) owns the nodes and connections (core/connection.js) and emits events. The adapter
  (core/adapter.js) wraps one editor, and a callback it subscribes refreshes the reactive state from the
  graph. The history (core/history.js) keeps undo and redo stacks of commands over the adapter, with
  batches. The store (store/workflow_store.js) is the only caller of the adapter: each of its actions
  changes the graph and records a command, and it holds the interface state, the previews of revisions
  and executions, pinned data, and the progress of a running execution, which is built from bus events
  and from the replies of the server. The panels ask utils/graph_utils.js for the nodes before a node, and
  the canvas asks it for a tidy layout.

  \<^bold>\<open>The theories.\<close>
  \<^item> \<open>Js_Prelude\<close>: JavaScript values (\<open>jsval\<close>), truthiness, strings, objects and maps as association lists
    in insertion order. The contract of a dictionary is the locale \<open>js_dict\<close>, interpreted for Map
    (\<open>jsm\<close>) and for plain objects (\<open>jso\<close>); sequences of operations that keep an invariant are the locale
    \<open>op_system\<close>.
  \<^item> \<open>Sockets\<close>, \<open>Control\<close>, \<open>Node\<close>: one record per class, one definition per method. Serialising a node and
    reading it back is the identity; the rows of a key-value control have distinct ids.
  \<^item> \<open>Editor\<close>, \<open>Editor_Inv\<close>: \<open>editor_core\<close> is the state of the editor, \<open>'u editor\<close> adds the callbacks and the
    state they own. \<open>core_wf\<close> is the well-formedness of the graph; every operation keeps it.
  \<^item> \<open>Adapter\<close>, \<open>Adapter_Inv\<close>: the reactive state is the state of the callback. \<open>adapter_inv\<close> says that it is
    the image of the graph; the interpretation \<open>ads\<close> of \<open>op_system\<close> carries this over all sequences of
    operations.
  \<^item> \<open>Node_Types\<close>, \<open>Persistence\<close>: the eleven shipped node classes, and loading a snapshot of a session.
  \<^item> \<open>History\<close>, \<open>History_Actions\<close>: the stacks, and the locale \<open>edit_history\<close> of commands that undo and redo
    what they record, interpreted for the commands of the source (\<open>gh\<close>) and for the store (\<open>sh\<close>).
  \<^item> \<open>Progress\<close>, \<open>Connector_Config\<close>, \<open>Store\<close>, \<open>Store_Inv\<close>, \<open>Store_Views\<close>: the store. Calls of the server are
    arguments: an action that awaits a reply takes the reply (or the rejection) as a parameter.
  \<^item> \<open>Dfs\<close>, \<open>Graph_Utils\<close>, \<open>Graph_Layout\<close>: the depth-first search for back edges with its termination, the
    structural connections, the predecessors, and the layout, where the library dagre is the parameter
    \<open>graphlib\<close> with its documented behaviour as the hypothesis \<open>graphlib_ok\<close>.
  \<^item> \<open>Geometry\<close>, \<open>Canvas_Paths\<close>: positions and sizes (core/dimensions.js, components/editor_canvas/utils), the
    viewport, the curves of connections and which of them are drawn. Sockets stay inside their node and
    apart; the cache of curves does not change what is drawn; culling hides nothing that is on screen.
  \<^item> \<open>Drag\<close>, \<open>Canvas_Commands\<close>: the hooks of the canvas over the store. A drag is the step relation
    \<open>drag_reach\<close> of pointer moves and animation frames; dragging, pasting, deleting and moving with the
    keyboard each are one undo.
  \<^item> \<open>Gestures\<close>: panning and box selection, and the listeners of components/editor_canvas.js that offer a pointer
    event to the gestures, the drag and the connection being drawn, in this order.
  \<^item> \<open>Canvas_Actions\<close>: the handlers of the canvas over the store. A timer the component sets is a field of the
    record \<open>deferred\<close>, its callback a definition. The shape of the graph after tidying up, deleting and
    inserting a node is given exactly.
  \<^item> \<open>Canvas_Session\<close>: hooks, handlers, timers and frames as one system of events over the store, with the
    invariant that carries the graph, the selection and the history through any interleaving of them
    (interpretation \<open>cvs\<close> of \<open>op_system\<close>).
  \<^item> \<open>Connection_Toolbar\<close>: the toolbar of a hovered connection as the step relation \<open>hover_reach\<close> of pointer moves,
    renderings and timers; which timers hide it, and when none does.
  \<^item> \<open>Panel_Rows\<close>, \<open>Panel_Controls\<close>: components/node_config_panel.js. The form of a node with its sections and rows,
    and the open panel as a system of events (edits, the save timer, answers of the server, modes, titles) over the
    store, with two interpretations of \<open>op_system\<close>: nothing stays unsaved once no save is pending (\<open>pnl\<close>), and the
    panel touches its own node only (\<open>pnf\<close>).
  \<^item> \<open>Panel_Execution\<close>: what the panel shows of an execution, the context expressions are previewed in (also the one
    components/editor_canvas.js builds), and pinning. A preview sees the results of the ancestors of the node only.
  \<^item> \<open>Panel_Navigation\<close>: components/config_panel_dialog.js and the menus of the panel as a system of pointer events and
    timers (interpretations \<open>nvm\<close>, \<open>nvh\<close> of \<open>op_system\<close>).
  \<^item> \<open>Suggestions\<close>: utils/input_suggestion_utils.js.
  \<^item> \<open>Expression\<close>: utils/expression_utils.js. The regular expressions are scanners, running a template as code
    is the parameter \<open>run\<close>. Generated paths are read back and previewed as the field they were made for.
  \<^item> \<open>Dynamic_Nodes\<close>, \<open>Node_Registry\<close>: the classes made from the descriptions of the server
    (utils/dynamic_node_factory.js) and what the menus show of them (utils/node_registry.js). The registries of
    the host are the record \<open>odoo_registry\<close> of operations with the laws \<open>registry_ok\<close>. Registered classes are
    sound (\<open>registry_sound\<close>), which is what the properties of sessions assume of a registry.
  \<^item> \<open>Exec_Context\<close>: core/context.js. Objects live in a heap of cells, because the methods change them in place.
    Variables read back what was set or appended when the heap has no cycle (\<open>ranked\<close>), the documented loop
    visits every item and ends, and a saved context is restored.

  \<^bold>\<open>What is shown.\<close> C1 to C5 span the components and are in this theory: undo and redo are inverse on the
  graph shape after any sequence of store actions, a recorded edit and a batch are taken back by one undo,
  the reactive state is always the image of a well-formed graph, and what a session built survives saving
  and loading. The other properties are in the theories of their components, each before its witness.

  \<^bold>\<open>Choices.\<close> JavaScript numbers that are coordinates or values are rationals, counters are naturals;
  rounding and NaN of floating point are not modelled. Every loop is a total function: the searches end
  because the set of unvisited nodes shrinks, so no fuel is needed. Undo is compared on the shape of the
  graph (ids, types, positions, connections), because undoing a removal does not restore the title and the
  meta of a node. An exception is a value of type \<open>js_error\<close>, or None where the source only throws a
  TypeError.

  \<^bold>\<open>What is not modelled.\<close> The rendering of the OWL components and their templates, the registration of
  event listeners, the CSS, the Python backend and the vendored addons.
\<close>

section \<open>Properties of the whole editor\<close>

text \<open>C2: From a fresh adapter, after every prefix of every sequence of graph operations (adding, restoring,
  removing, moving, configuring, connecting, disconnecting, refreshing the registry, clearing), the
  graph is well-formed: ids are distinct and are the keys of the node map, the id counter is not
  behind them, every connection joins an output and an input that exist and are compatible, no
  connection is doubled or a loop on one node. And the reactive state the interface reads is exactly
  the image of that graph.\<close>

theorem adapter_sequence_consistent:
  assumes "permitted (adapter_step odoo) (adapter_ok odoo) (ops @ ops') (new_WorkflowAdapter odoo)"
  shows "core_wf (core (run_ops (adapter_step odoo) ops (new_WorkflowAdapter odoo)))
    \<and> observer (run_ops (adapter_step odoo) ops (new_WorkflowAdapter odoo))
        = mirror (core (run_ops (adapter_step odoo) ops (new_WorkflowAdapter odoo)))"
  using ads.run_prefix_invar [OF adapter_inv_new assms] by (simp add: adapter_inv_def)

definition demo_ops :: "graph_op list" where
  "demo_ops = [GAdd ''manual_trigger'' (0, 0), GAdd ''loop'' (200, 50), GConnect ''n_1'' ''output'' ''n_2'' ''data'',
     GSetControl ''n_2'' ''batchSize'' (JStr ''5''), GSetLabel ''n_2'' ''Each line'', GMove ''n_2'' (210, 50)]"

lemma builtin_class_ok:
  "map_of builtin_classes type = Some C \<Longrightarrow> class_ok C"
  using builtin_sound by (rule registry_class_ok)

lemma demo_session_ok:
  "permitted (adapter_step builtin_classes) (session_ok builtin_classes) demo_ops (new_WorkflowAdapter builtin_classes)"
  "permitted (adapter_step builtin_classes) (adapter_ok builtin_classes) (demo_ops @ [GClear]) (new_WorkflowAdapter builtin_classes)"
  by (simp_all add: demo_ops_def session_ok_def adapter_ok_def builtin_sound builtin_class_ok split: option.split)

theorem adapter_sequence_consistent_witness:
  "permitted (adapter_step builtin_classes) (adapter_ok builtin_classes) (demo_ops @ [GClear]) (new_WorkflowAdapter builtin_classes)
   \<and> core_wf (core (run_ops (adapter_step builtin_classes) demo_ops (new_WorkflowAdapter builtin_classes)))"
  using adapter_sequence_consistent [OF demo_session_ok(2)] demo_session_ok(2) by simp

text \<open>C3: Whatever an editing session has built, saving it and loading the snapshot into any adapter over the
  same registry succeeds and gives the same nodes (ids, types, titles, positions, control values and
  meta) and the same connections; the reopened editor satisfies the session invariant again, so ids
  it generates next are new.\<close>

theorem session_snapshot_roundtrip:
  assumes "permitted (adapter_step odoo) (session_ok odoo) ops (new_WorkflowAdapter odoo)"
    and "wired b" and "nodeRegistry (core b) = buildNodeRegistryFromOdoo odoo"
  shows "let a = run_ops (adapter_step odoo) ops (new_WorkflowAdapter odoo);
             r = adapter_fromJSON (adapter_toJSON a) b
         in fst r = Inr () \<and> nodes (core (snd r)) = nodes (core a)
            \<and> connections (core (snd r)) = connections (core a) \<and> session_inv odoo (snd r)"
  using session_reload [OF ses.run_invar [OF session_inv_new assms(1)] assms(2,3)] by (simp add: Let_def)

theorem session_snapshot_roundtrip_witness:
  "fst (adapter_fromJSON (adapter_toJSON (run_ops (adapter_step builtin_classes) demo_ops
      (new_WorkflowAdapter builtin_classes))) (new_WorkflowAdapter builtin_classes)) = Inr ()"
proof -
  have "wired (new_WorkflowAdapter builtin_classes)"
    "nodeRegistry (core (new_WorkflowAdapter builtin_classes)) = buildNodeRegistryFromOdoo builtin_classes"
    by (simp, simp add: new_WorkflowAdapter_def new_WorkflowEditor_def editor_on_def)
  from session_snapshot_roundtrip [OF demo_session_ok(1) this] show ?thesis by (simp add: Let_def)
qed


lemma demo_add_stack:
  "length (undoStack (hist (store_step builtin_classes (SAddNode ''noop'' (0, 0)) (start_store builtin_classes)))) = 1"
  "currentBatch (hist (store_step builtin_classes (SAddNode ''noop'' (0, 0)) (start_store builtin_classes))) = None"
proof -
  have C: "map_of builtin_classes ''noop'' = Some NoOpNode" by (simp add: builtin_classes_def class_defs)
  have h: "undoStack (hist (start_store builtin_classes)) = []" "currentBatch (hist (start_store builtin_classes)) = None"
    "recording (hist (start_store builtin_classes))" "maxSize (hist (start_store builtin_classes)) = 50"
    by (simp_all add: start_store_def hist_onChange_def new_HistoryManager_def)
  have i: "node_id (fst (core_addNode (Inr NoOpNode) (0, 0) c)) = Some (''n_'' @ show_nat (Suc (idCounter c)))" for c
    using core_addNode_class [of NoOpNode "(0, 0)" c] registry_class_ok [OF builtin_sound C] by (simp add: Let_def)
  show "length (undoStack (hist (store_step builtin_classes (SAddNode ''noop'' (0, 0)) (start_store builtin_classes)))) = 1"
    "currentBatch (hist (store_step builtin_classes (SAddNode ''noop'' (0, 0)) (start_store builtin_classes))) = None"
    using h i
    by (simp_all add: store_addNode_def add_and_record_def adapter_addNode_def adapter_getNodeClass_def C
        editor_addNode_def split_beta clearExecution_def hist_push_def Let_def)
qed






end
